(* ===== verification/Prelude.thy ===== *)
theory Prelude
  imports Main "HOL-Library.Word"
begin

text \<open>
  Shared vocabulary of the development: the machine types of the bridge, the C and C++
  conversions its source uses between them, and the generic lemmas on words, lists and
  byte buffers that the component theories rely on.
\<close>

section \<open>Machine types\<close>

type_synonym u8 = "8 word"
type_synonym u16 = "16 word"
type_synonym u32 = "32 word"

text \<open>
  A C \<open>int\<close> that the code only compares, clamps and converts is an \<^typ>\<open>int\<close>; the
  conversions to fixed width below truncate the way \<open>static_cast\<close> does.
\<close>

named_theorems cast_simps \<open>conversions between integer types on in-range values\<close>

definition to_u8 :: "int \<Rightarrow> u8" where
  "to_u8 i = word_of_int i"

definition to_u16 :: "int \<Rightarrow> u16" where
  "to_u16 i = word_of_int i"

text \<open>\<open>std::clamp(v, lo, hi)\<close>.\<close>

definition clamp_int :: "int \<Rightarrow> int \<Rightarrow> int \<Rightarrow> int" where
  "clamp_int v lo hi = (if v < lo then lo else if hi < v then hi else v)"

lemma clamp_int_bounds: "lo \<le> hi \<Longrightarrow> lo \<le> clamp_int v lo hi \<and> clamp_int v lo hi \<le> hi"
  by (simp add: clamp_int_def)

lemma clamp_int_id [simp]: "lo \<le> v \<Longrightarrow> v \<le> hi \<Longrightarrow> clamp_int v lo hi = v"
  by (simp add: clamp_int_def)

lemma clamp_int_idem [simp]:
  "lo \<le> hi \<Longrightarrow> clamp_int (clamp_int v lo hi) lo hi = clamp_int v lo hi"
  by (simp add: clamp_int_def)

lemma uint_to_u8: "uint (to_u8 i) = i mod 256"
  by (simp add: to_u8_def uint_word_of_int)

lemma uint_to_u16: "uint (to_u16 i) = i mod 65536"
  by (simp add: to_u16_def uint_word_of_int)

lemma uint_to_u8_id [cast_simps]: "0 \<le> i \<Longrightarrow> i < 256 \<Longrightarrow> uint (to_u8 i) = i"
  by (simp add: uint_to_u8)

lemma uint_to_u16_id [cast_simps]: "0 \<le> i \<Longrightarrow> i < 65536 \<Longrightarrow> uint (to_u16 i) = i"
  by (simp add: uint_to_u16)

lemma to_u8_uint [simp]: "to_u8 (uint w) = w"
  by (simp add: to_u8_def)

lemma to_u16_uint [simp]: "to_u16 (uint w) = w"
  by (simp add: to_u16_def)

lemma unat_of_nat_small: "n < 2 ^ LENGTH('a) \<Longrightarrow> unat (of_nat n :: 'a :: len word) = n"
  by (simp add: unat_of_nat)

lemma uint_u8_bounds: "0 \<le> uint (w :: u8) \<and> uint w \<le> 255"
  using uint_bounded [of w] by simp

lemma uint_u16_bounds: "0 \<le> uint (w :: u16) \<and> uint w \<le> 65535"
  using uint_bounded [of w] by simp

section \<open>Index loops\<close>

lemma find_upt_Some:
  "find P [0..<n] = Some i \<longleftrightarrow> i < n \<and> P i \<and> (\<forall>j<i. \<not> P j)"
  by (auto simp: find_Some_iff)

lemma find_upt_None: "find P [0..<n] = None \<longleftrightarrow> (\<forall>i<n. \<not> P i)"
  by (auto simp: find_None_iff)

text \<open>\<open>for (auto & x : xs) if (P(x)) { f(x); break; }\<close>.\<close>

fun update_first :: "('a \<Rightarrow> bool) \<Rightarrow> ('a \<Rightarrow> 'a) \<Rightarrow> 'a list \<Rightarrow> 'a list" where
  "update_first P f [] = []"
| "update_first P f (x # xs) = (if P x then f x # xs else x # update_first P f xs)"

lemma length_update_first [simp]: "length (update_first P f xs) = length xs"
  by (induction xs) simp_all

lemma map_update_first: "(\<And>x. P x \<Longrightarrow> g (f x) = g x) \<Longrightarrow> map g (update_first P f xs) = map g xs"
  by (induction xs) simp_all

lemma find_update_first:
  "(\<And>x. P x \<Longrightarrow> P (f x)) \<Longrightarrow> find P (update_first P f xs) = map_option f (find P xs)"
  by (induction xs) simp_all

lemma find_update_first_other:
  "(\<And>x. Q x \<Longrightarrow> \<not> P x) \<Longrightarrow> (\<And>x. P x \<Longrightarrow> \<not> Q (f x)) \<Longrightarrow>
   find Q (update_first P f xs) = find Q xs"
  by (induction xs) auto

lemma update_first_same: "find P xs = Some x \<Longrightarrow> f x = x \<Longrightarrow> update_first P f xs = xs"
  by (induction xs) (auto split: if_splits)

lemma update_first_const:
  "find P xs = Some x \<Longrightarrow> update_first P (\<lambda>_. f x) xs = update_first P f xs"
  by (induction xs) (auto split: if_splits)

lemma update_first_None: "find P xs = None \<Longrightarrow> update_first P f xs = xs"
  by (induction xs) (auto split: if_splits)

lemma set_update_first: "set (update_first P f xs) \<subseteq> set xs \<union> f ` {x \<in> set xs. P x}"
  by (induction xs) auto

lemma update_first_all:
  "(\<And>x. x \<in> set xs \<Longrightarrow> Q x) \<Longrightarrow> (\<And>x. P x \<Longrightarrow> Q x \<Longrightarrow> Q (f x)) \<Longrightarrow>
   x \<in> set (update_first P f xs) \<Longrightarrow> Q x"
  using set_update_first [of P f xs] by blast

lemma update_first_member:
  "x \<in> set xs \<Longrightarrow> x \<in> set (update_first P f xs) \<or> P x \<and> f x \<in> set (update_first P f xs)"
  by (induction xs) auto

section \<open>C strings\<close>

text \<open>\<open>c_str()\<close> read as a C string: the characters before the first NUL.\<close>

definition cstr :: "string \<Rightarrow> string" where
  "cstr s = takeWhile (\<lambda>c. c \<noteq> CHR 0x00) s"

lemma cstr_idem [simp]: "cstr (cstr s) = cstr s"
  by (simp add: cstr_def takeWhile_idem)

lemma cstr_id: "CHR 0x00 \<notin> set s \<Longrightarrow> cstr s = s"
  unfolding cstr_def by (rule takeWhile_eq_all_conv [THEN iffD2]) auto

lemma cstr_Nil [simp]: "cstr [] = []"
  by (simp add: cstr_def)

section \<open>Byte buffers\<close>

text \<open>
  A caller-provided buffer is the list of its bytes. \<open>*buffer = x\<close> and
  \<open>memcpy(buffer, bs, n)\<close> overwrite its front and keep the rest.
\<close>

definition put_bytes :: "u8 list \<Rightarrow> u8 list \<Rightarrow> u8 list" where
  "put_bytes bs buf = bs @ drop (length bs) buf"

lemma length_put_bytes [simp]:
  "length bs \<le> length buf \<Longrightarrow> length (put_bytes bs buf) = length buf"
  by (simp add: put_bytes_def)

lemma take_put_bytes [simp]: "take (length bs) (put_bytes bs buf) = bs"
  by (simp add: put_bytes_def)

lemma drop_put_bytes: "length bs \<le> n \<Longrightarrow> drop n (put_bytes bs buf) = drop n buf"
  by (simp add: put_bytes_def)

text \<open>The object representation of an integer on the little-endian hosts of the bridge.\<close>

definition le16 :: "u16 \<Rightarrow> u8 list" where
  "le16 w = [ucast w, ucast (drop_bit 8 w)]"

definition le32 :: "u32 \<Rightarrow> u8 list" where
  "le32 w = [ucast w, ucast (drop_bit 8 w), ucast (drop_bit 16 w), ucast (drop_bit 24 w)]"

lemma length_le16 [simp]: "length (le16 w) = 2"
  by (simp add: le16_def)

lemma length_le32 [simp]: "length (le32 w) = 4"
  by (simp add: le32_def)

end
