(* ===== verification/Text_Conv.thy ===== *)
theory Text_Conv
  imports Prelude
begin

text \<open>
  The text conversions of the C and C++ standard libraries that the bridge uses:
  \<open>strtol\<close> (argument parsing of the command line), \<open>atoi\<close> (the port of the engine
  socket), \<open>stoi\<close> and \<open>to_string\<close> (the endpoint counter kept as text in the registry
  database). Decimal only, in the C locale; \<open>long\<close> is 64 bits and \<open>int\<close> is 32 bits, as
  on the Linux hosts of the bridge.
\<close>

section \<open>Scanning\<close>

definition is_space :: "char \<Rightarrow> bool" where
  "is_space c = (c = CHR 0x20 \<or> (9 \<le> (of_char c :: nat) \<and> (of_char c :: nat) \<le> 13))"

definition is_digit :: "char \<Rightarrow> bool" where
  "is_digit c = (48 \<le> (of_char c :: nat) \<and> (of_char c :: nat) \<le> 57)"

definition digit_val :: "char \<Rightarrow> int" where
  "digit_val c = of_char c - 48"

definition digit_char :: "nat \<Rightarrow> char" where
  "digit_char d = char_of (48 + d)"

definition LONG_MAX :: int where "LONG_MAX = 9223372036854775807"
definition LONG_MIN :: int where "LONG_MIN = - 9223372036854775808"
definition INT_MAX :: int where "INT_MAX = 2147483647"
definition INT_MIN :: int where "INT_MIN = - 2147483648"

text \<open>Accumulates the longest prefix of digits; the second component is what is left.\<close>

fun read_digits :: "int \<Rightarrow> string \<Rightarrow> int \<times> string" where
  "read_digits acc [] = (acc, [])"
| "read_digits acc (c # cs) =
     (if is_digit c then read_digits (10 * acc + digit_val c) cs else (acc, c # cs))"

fun read_sign :: "string \<Rightarrow> bool \<times> string" where
  "read_sign [] = (False, [])"
| "read_sign (c # cs) =
     (if c = CHR ''-'' then (True, cs) else if c = CHR ''+'' then (False, cs) else (False, c # cs))"

definition starts_digit :: "string \<Rightarrow> bool" where
  "starts_digit s = (case s of [] \<Rightarrow> False | c # _ \<Rightarrow> is_digit c)"

text \<open>
  \<open>strtol(s, &end, 10)\<close>: the value and the text that \<open>end\<close> points to. Without a
  conversion the value is 0 and \<open>end\<close> is the start of the string; a value out of range
  saturates.
\<close>

definition strtol :: "string \<Rightarrow> int \<times> string" where
  "strtol s =
     (let (neg, t) = read_sign (dropWhile is_space s)
      in if starts_digit t
         then let (v, rest) = read_digits 0 t
              in (clamp_int (if neg then - v else v) LONG_MIN LONG_MAX, rest)
         else (0, s))"

definition strtol_converts :: "string \<Rightarrow> bool" where
  "strtol_converts s = starts_digit (snd (read_sign (dropWhile is_space s)))"

text \<open>\<open>atoi\<close> as glibc has it: \<open>strtol\<close>, converted to a 32-bit \<open>int\<close>.\<close>

definition atoi :: "string \<Rightarrow> int" where
  "atoi s = sint (word_of_int (fst (strtol s)) :: 32 word)"

datatype stoi_error = InvalidArgument | OutOfRange

text \<open>\<open>std::stoi\<close>: throws without a conversion and out of the range of \<open>int\<close>.\<close>

definition stoi :: "string \<Rightarrow> stoi_error + int" where
  "stoi s =
     (if \<not> strtol_converts s then Inl InvalidArgument
      else let v = fst (strtol s)
           in if v < INT_MIN \<or> INT_MAX < v then Inl OutOfRange else Inr v)"

text \<open>\<open>std::to_string\<close> of an unsigned value.\<close>

fun to_string :: "nat \<Rightarrow> string" where
  "to_string n =
     (if n < 10 then [digit_char n] else to_string (n div 10) @ [digit_char (n mod 10)])"

declare to_string.simps [simp del]

section \<open>Facts on the scanners\<close>

lemma of_digit_char: "d < 10 \<Longrightarrow> (of_char (digit_char d) :: nat) = 48 + d"
  by (simp add: digit_char_def of_char_of)

lemma is_digit_digit_char [simp]: "d < 10 \<Longrightarrow> is_digit (digit_char d)"
  by (simp add: is_digit_def of_digit_char)

lemma of_char_int_nat: "(of_char c :: int) = int (of_char c)"
  by (simp add: of_nat_of_char)

lemma digit_val_digit_char [simp]: "d < 10 \<Longrightarrow> digit_val (digit_char d) = int d"
  by (simp add: digit_val_def of_char_int_nat of_digit_char)

lemma is_digit_not_space: "is_digit c \<Longrightarrow> \<not> is_space c"
  by (auto simp: is_digit_def is_space_def)

lemma is_digit_not_sign: "is_digit c \<Longrightarrow> c \<noteq> CHR ''-'' \<and> c \<noteq> CHR ''+''"
  by (auto simp: is_digit_def)

lemma digit_val_range: "is_digit c \<Longrightarrow> 0 \<le> digit_val c \<and> digit_val c \<le> 9"
  by (auto simp: is_digit_def digit_val_def of_char_int_nat)

lemma starts_digit_read_sign: "starts_digit s \<Longrightarrow> read_sign s = (False, s)"
  by (cases s) (auto simp: starts_digit_def dest: is_digit_not_sign)

lemma starts_digit_dropWhile: "starts_digit s \<Longrightarrow> dropWhile is_space s = s"
  by (cases s) (auto simp: starts_digit_def dest: is_digit_not_space)

lemma strtol_digits:
  "starts_digit s \<Longrightarrow> read_digits 0 s = (v, rest) \<Longrightarrow> 0 \<le> v \<Longrightarrow> v \<le> LONG_MAX \<Longrightarrow>
   strtol s = (v, rest)"
  by (simp add: strtol_def starts_digit_dropWhile starts_digit_read_sign LONG_MIN_def)

lemma strtol_no_conversion: "\<not> strtol_converts s \<Longrightarrow> strtol s = (0, s)"
  by (auto simp: strtol_def strtol_converts_def split: prod.splits)

lemma read_digits_append:
  "\<forall>c\<in>set ds. is_digit c \<Longrightarrow>
   read_digits acc (ds @ r) = read_digits (fst (read_digits acc ds)) r"
  by (induction ds arbitrary: acc) auto

lemma read_digits_all: "\<forall>c\<in>set ds. is_digit c \<Longrightarrow> snd (read_digits acc ds) = []"
  by (induction ds arbitrary: acc) auto

lemma read_digits_mono: "0 \<le> acc \<Longrightarrow> acc \<le> fst (read_digits acc s)"
proof (induction s arbitrary: acc)
  case (Cons c cs)
  show ?case
  proof (cases "is_digit c")
    case True
    then have "0 \<le> 10 * acc + digit_val c" "acc \<le> 10 * acc + digit_val c"
      using Cons.prems digit_val_range [of c] by auto
    with True Cons.IH [of "10 * acc + digit_val c"] show ?thesis by simp
  qed simp
qed simp

section \<open>Printing and reading back\<close>

lemma to_string_digits: "\<forall>c\<in>set (to_string n). is_digit c"
proof (induction n rule: to_string.induct)
  case (1 n)
  then show ?case by (subst to_string.simps) auto
qed

lemma to_string_nonempty [simp]: "to_string n \<noteq> []"
  by (subst to_string.simps) simp

lemma to_string_starts_digit [simp]: "starts_digit (to_string n)"
  using to_string_digits [of n]
  by (auto simp: starts_digit_def neq_Nil_conv split: list.splits)

lemma read_digits_to_string: "read_digits 0 (to_string n) = (int n, [])"
proof (induction n rule: to_string.induct)
  case (1 n)
  show ?case
  proof (cases "n < 10")
    case True
    then show ?thesis by (subst to_string.simps) simp
  next
    case False
    with 1 have "read_digits 0 (to_string (n div 10)) = (int (n div 10), [])" by simp
    then have "read_digits 0 (to_string (n div 10) @ [digit_char (n mod 10)]) =
        (10 * int (n div 10) + int (n mod 10), [])"
      by (simp add: read_digits_append to_string_digits)
    moreover have "10 * int (n div 10) + int (n mod 10) = int n"
      by (metis of_nat_add of_nat_mult of_nat_numeral mult_div_mod_eq)
    ultimately show ?thesis using False by (subst to_string.simps) simp
  qed
qed

lemma strtol_to_string: "int n \<le> LONG_MAX \<Longrightarrow> strtol (to_string n) = (int n, [])"
  by (rule strtol_digits) (simp_all add: read_digits_to_string)

lemma strtol_converts_digits: "starts_digit s \<Longrightarrow> strtol_converts s"
  by (simp add: strtol_converts_def starts_digit_dropWhile starts_digit_read_sign)

lemma stoi_to_string: "int n \<le> INT_MAX \<Longrightarrow> stoi (to_string n) = Inr (int n)"
  by (simp add: stoi_def strtol_converts_digits strtol_to_string INT_MAX_def INT_MIN_def
      LONG_MAX_def)

lemma sint_in_int_range:
  "INT_MIN \<le> i \<Longrightarrow> i \<le> INT_MAX \<Longrightarrow> sint (word_of_int i :: 32 word) = i"
  by (simp add: signed_of_int signed_take_bit_int_eq_self INT_MAX_def INT_MIN_def)

lemma atoi_to_string: "int n \<le> INT_MAX \<Longrightarrow> atoi (to_string n) = int n"
  unfolding atoi_def using sint_in_int_range [of "int n"]
  by (simp only: strtol_to_string fst_conv) (simp add: INT_MAX_def INT_MIN_def LONG_MAX_def
      strtol_to_string)

lemma to_string_inj: "to_string m = to_string n \<longleftrightarrow> m = n"
  by (metis read_digits_to_string prod.inject of_nat_eq_iff)

lemma to_string_no_nul: "CHR 0x00 \<notin> set (to_string n)"
  using to_string_digits [of n] by (force simp: is_digit_def)

lemma cstr_to_string [simp]: "cstr (to_string n) = to_string n"
  by (rule cstr_id) (rule to_string_no_nul)

section \<open>Signed values\<close>

text \<open>A signed value written to an output stream, and \<open>std::to_string\<close> of it.\<close>

definition int_to_string :: "int \<Rightarrow> string" where
  "int_to_string i = (if i < 0 then CHR ''-'' # to_string (nat (- i)) else to_string (nat i))"

lemma strtol_int_to_string:
  assumes "LONG_MIN < i" and "i \<le> LONG_MAX"
  shows "strtol (int_to_string i) = (i, [])"
proof (cases "i < 0")
  case True
  have "dropWhile is_space (CHR ''-'' # ds) = CHR ''-'' # ds" for ds
    by (simp add: is_space_def)
  moreover have "- i \<le> LONG_MAX" using assms(1) by (simp add: LONG_MIN_def LONG_MAX_def)
  ultimately show ?thesis
    using True assms
    by (simp add: strtol_def int_to_string_def read_digits_to_string LONG_MIN_def LONG_MAX_def)
next
  case False
  then show ?thesis using assms strtol_to_string [of "nat i"] by (simp add: int_to_string_def)
qed

end
