(* ===== verification/Adapter.thy ===== *)
theory Adapter
  imports Text_Conv
begin

text \<open>
  The WeMo adapter of \<^verbatim>\<open>src/adapters/wemo/wemo_adapter_openwemo.cpp\<close>: device discovery,
  the cache from UDN to engine id, and the commands sent to the engine. The engine library
  (\<^verbatim>\<open>wemo_engine.h\<close>) is not part of the repository: its calls are the fields of a parameter
  record over an engine state. Every call the adapter makes is also recorded in a trace,
  so that theorems can say what was sent.
\<close>

section \<open>Data\<close>

record wemo_device =
  wd_wemo_id :: int
  wd_udn :: string
  wd_friendly_name :: string
  wd_supports_level :: bool
  wd_is_online :: bool
  wd_onoff :: u8
  wd_level_percent :: u8

definition default_wemo_device :: wemo_device where
  "default_wemo_device =
     \<lparr>wd_wemo_id = 0, wd_udn = '''', wd_friendly_name = '''', wd_supports_level = False,
      wd_is_online = False, wd_onoff = 0, wd_level_percent = 0\<rparr>"

record wemo_state_event =
  ev_wemo_id :: int
  ev_is_online :: bool
  ev_state :: int
  ev_level :: int

text \<open>The engine's structures, with the C strings of a device as HOL strings.\<close>

record we_state =
  ws_is_online :: int
  ws_state :: int
  ws_level :: int

record we_device_info =
  wi_wemo_id :: int
  wi_udn :: string
  wi_friendly_name :: string
  wi_is_online :: int
  wi_state :: int
  wi_device_type :: int
  wi_level :: int

record we_device_list =
  wl_count :: int
  wl_items :: "we_device_info list"

text \<open>The calls the adapter makes, for the trace.\<close>

datatype engine_call =
    CSetIpcTarget string int
  | CInit
  | CDiscover int
  | CListDevices
  | CSetAction int we_state
  | CRegisterEventCallback

record 'e engine =
  HAVE_OPENWEMO_ENGINE :: bool
  WE_STATUS_OK :: int
  WE_DEVICE_LIST_MAX_ITEMS :: int
  we_set_ipc_target :: "string \<Rightarrow> int \<Rightarrow> 'e \<Rightarrow> 'e"
  we_init :: "'e \<Rightarrow> int \<times> 'e"
  we_discover :: "int \<Rightarrow> 'e \<Rightarrow> 'e"
  we_list_devices :: "'e \<Rightarrow> int \<times> we_device_list \<times> 'e"
  we_set_action :: "int \<Rightarrow> we_state \<Rightarrow> 'e \<Rightarrow> int \<times> 'e"
  we_register_event_callback :: "'e \<Rightarrow> 'e"

text \<open>
  The adapter object with the function-local statics of \<open>EnsureEngineInitialized\<close>, the
  global callback slot, the engine behind it and the trace of calls. The callback is a
  value of an arbitrary type; an empty \<open>std::function\<close> is \<^term>\<open>None\<close>.
\<close>

record ('e, 'c) adapter =
  mEngineSocket :: string
  mUdnToWemoId :: "string \<rightharpoonup> int"
  target_configured :: bool
  initialized :: bool
  gStateCallback :: "'c option"
  engine_state :: 'e
  calls :: "engine_call list"

definition kTypeDimmer :: int where
  "kTypeDimmer = 4"

section \<open>Engine access\<close>

text \<open>One engine call: it is recorded and it moves the engine.\<close>

definition log_call :: "engine_call \<Rightarrow> ('e, 'c) adapter \<Rightarrow> ('e, 'c) adapter" where
  "log_call c a = a\<lparr>calls := calls a @ [c]\<rparr>"

definition call_discover :: "'e engine \<Rightarrow> ('e, 'c) adapter \<Rightarrow> ('e, 'c) adapter" where
  "call_discover E a =
     log_call (CDiscover 0) (a\<lparr>engine_state := we_discover E 0 (engine_state a)\<rparr>)"

definition call_list_devices ::
    "'e engine \<Rightarrow> ('e, 'c) adapter \<Rightarrow> int \<times> we_device_list \<times> ('e, 'c) adapter" where
  "call_list_devices E a =
     (case we_list_devices E (engine_state a) of
        (rc, l, e) \<Rightarrow> (rc, l, log_call CListDevices (a\<lparr>engine_state := e\<rparr>)))"

text \<open>\<open>rfind(':')\<close>: the position of the last colon.\<close>

fun rfind_from :: "char \<Rightarrow> string \<Rightarrow> nat \<Rightarrow> nat option \<Rightarrow> nat option" where
  "rfind_from c [] i found = found"
| "rfind_from c (x # xs) i found = rfind_from c xs (Suc i) (if x = c then Some i else found)"

definition rfind :: "char \<Rightarrow> string \<Rightarrow> nat option" where
  "rfind c s = rfind_from c s 0 None"

definition MaybeConfigureIpcTarget :: "'e engine \<Rightarrow> ('e, 'c) adapter \<Rightarrow> ('e, 'c) adapter" where
  "MaybeConfigureIpcTarget E a =
     (let engine_socket = mEngineSocket a
      in case rfind (CHR '':'') engine_socket of
           None \<Rightarrow> a
         | Some pos \<Rightarrow>
             if pos = 0 \<or> pos + 1 \<ge> length engine_socket then a
             else let host = take pos engine_socket;
                      port_str = drop (pos + 1) engine_socket;
                      port = atoi (cstr port_str)
                  in if port > 0
                     then log_call (CSetIpcTarget (cstr host) port)
                            (a\<lparr>engine_state := we_set_ipc_target E (cstr host) port (engine_state a)\<rparr>)
                     else a)"

definition EnsureEngineInitialized :: "'e engine \<Rightarrow> ('e, 'c) adapter \<Rightarrow> bool \<times> ('e, 'c) adapter" where
  "EnsureEngineInitialized E a =
     (if initialized a then (True, a)
      else let a = (if \<not> target_configured a
                    then (MaybeConfigureIpcTarget E a)\<lparr>target_configured := True\<rparr> else a);
               (rc, e) = we_init E (engine_state a);
               a = log_call CInit (a\<lparr>engine_state := e, initialized := (rc \<noteq> 0)\<rparr>)
           in (initialized a, a))"

definition SendState :: "'e engine \<Rightarrow> int \<Rightarrow> int \<Rightarrow> int \<Rightarrow> ('e, 'c) adapter \<Rightarrow> bool \<times> ('e, 'c) adapter" where
  "SendState E wemo_id state level a =
     (let target = \<lparr>ws_is_online = 1, ws_state = state, ws_level = level\<rparr>;
          (rc_set, e) = we_set_action E wemo_id target (engine_state a)
      in (rc_set \<noteq> 0, log_call (CSetAction wemo_id target) (a\<lparr>engine_state := e\<rparr>)))"

text \<open>
  \<open>OnWeStateEvent\<close>: the event handed to the callback, when one is registered and the
  engine passed data (a null pointer is \<^term>\<open>None\<close>).
\<close>

definition OnWeStateEvent ::
    "('e, 'c) adapter \<Rightarrow> int \<Rightarrow> we_state option \<Rightarrow> ('c \<times> wemo_state_event) option" where
  "OnWeStateEvent a wemo_id data =
     (case (gStateCallback a, data) of
        (Some cb, Some d) \<Rightarrow>
          Some (cb, \<lparr>ev_wemo_id = wemo_id, ev_is_online = (ws_is_online d \<noteq> 0),
                     ev_state = ws_state d, ev_level = ws_level d\<rparr>)
      | _ \<Rightarrow> None)"

section \<open>The adapter's operations\<close>

text \<open>One entry of the engine's list, as \<open>Discover\<close> converts it.\<close>

definition device_of_info :: "we_device_info \<Rightarrow> wemo_device" where
  "device_of_info info =
     default_wemo_device
       \<lparr>wd_wemo_id := wi_wemo_id info,
        wd_udn := wi_udn info,
        wd_friendly_name := wi_friendly_name info,
        wd_is_online := (wi_is_online info \<noteq> 0),
        wd_onoff := (if wi_state info \<noteq> 0 then 1 else 0),
        wd_supports_level := (wi_device_type info = kTypeDimmer \<or> wi_level info \<ge> 0),
        wd_level_percent :=
          (if wi_level info \<ge> 0 then to_u8 (clamp_int (wi_level info) 0 100)
           else wd_level_percent default_wemo_device)\<rparr>"

text \<open>The entries that are read: \<open>clamp(count, 0, MAX)\<close> of them, from the fixed array.\<close>

definition listed :: "'e engine \<Rightarrow> we_device_list \<Rightarrow> we_device_info list" where
  "listed E l = take (nat (clamp_int (wl_count l) 0 (WE_DEVICE_LIST_MAX_ITEMS E))) (wl_items l)"

fun discover_loop ::
    "we_device_info list \<Rightarrow> (string \<rightharpoonup> int) \<Rightarrow> wemo_device list \<times> (string \<rightharpoonup> int)" where
  "discover_loop [] cache = ([], cache)"
| "discover_loop (info # infos) cache =
     (let device = device_of_info info;
          cache = (if wd_udn device \<noteq> '''' then cache(wd_udn device \<mapsto> wd_wemo_id device) else cache);
          (devices, cache) = discover_loop infos cache
      in (device # devices, cache))"

definition Discover :: "'e engine \<Rightarrow> ('e, 'c) adapter \<Rightarrow> wemo_device list \<times> ('e, 'c) adapter" where
  "Discover E a =
     (if \<not> HAVE_OPENWEMO_ENGINE E then ([], a)
      else let (ok, a) = EnsureEngineInitialized E a
           in if \<not> ok then ([], a)
              else let a = call_discover E a;
                       (rc, list, a) = call_list_devices E a
                   in if rc \<noteq> WE_STATUS_OK E then ([], a)
                      else let (devices, cache) = discover_loop (listed E list) Map.empty
                           in (devices, a\<lparr>mUdnToWemoId := cache\<rparr>))"

definition Refresh :: "'e engine \<Rightarrow> ('e, 'c) adapter \<Rightarrow> ('e, 'c) adapter" where
  "Refresh E a =
     (if \<not> HAVE_OPENWEMO_ENGINE E then a
      else let (ok, a) = EnsureEngineInitialized E a
           in if ok then call_discover E a else a)"

definition RegisterStateCallback :: "'e engine \<Rightarrow> 'c option \<Rightarrow> ('e, 'c) adapter \<Rightarrow> ('e, 'c) adapter" where
  "RegisterStateCallback E cb a =
     (if \<not> HAVE_OPENWEMO_ENGINE E then a
      else let (ok, a) = EnsureEngineInitialized E a
           in if ok
              then log_call CRegisterEventCallback
                     (a\<lparr>gStateCallback := cb,
                        engine_state := we_register_event_callback E (engine_state a)\<rparr>)
              else a)"

text \<open>The loop that refills the cache after a miss, the same in both commands.\<close>

fun refill_cache :: "we_device_info list \<Rightarrow> (string \<rightharpoonup> int) \<Rightarrow> (string \<rightharpoonup> int)" where
  "refill_cache [] cache = cache"
| "refill_cache (info # infos) cache =
     refill_cache infos (if wi_udn info \<noteq> '''' then cache(wi_udn info \<mapsto> wi_wemo_id info) else cache)"

text \<open>
  What \<open>SetOnOff\<close> and \<open>SetLevelPercent\<close> share: send to the cached id, or refresh the
  device list once and try again.
\<close>

definition send_to_udn ::
    "'e engine \<Rightarrow> string \<Rightarrow> int \<Rightarrow> int \<Rightarrow> ('e, 'c) adapter \<Rightarrow> bool \<times> ('e, 'c) adapter" where
  "send_to_udn E udn state level a =
     (case mUdnToWemoId a udn of
        Some wemo_id \<Rightarrow> SendState E wemo_id state level a
      | None \<Rightarrow>
          (let a = call_discover E a;
               (rc, list, a) = call_list_devices E a
           in if rc = WE_STATUS_OK E
              then let a = a\<lparr>mUdnToWemoId := refill_cache (listed E list) (mUdnToWemoId a)\<rparr>
                   in case mUdnToWemoId a udn of
                        Some wemo_id \<Rightarrow> SendState E wemo_id state level a
                      | None \<Rightarrow> (False, a)
              else (False, a)))"

definition SetOnOff :: "'e engine \<Rightarrow> string \<Rightarrow> bool \<Rightarrow> ('e, 'c) adapter \<Rightarrow> bool \<times> ('e, 'c) adapter" where
  "SetOnOff E udn on a =
     (if \<not> HAVE_OPENWEMO_ENGINE E then (False, a)
      else let (ok, a) = EnsureEngineInitialized E a
           in if \<not> ok then (False, a)
              else send_to_udn E udn (if on then 1 else 0) (- 1) a)"

definition SetLevelPercent ::
    "'e engine \<Rightarrow> string \<Rightarrow> u8 \<Rightarrow> ('e, 'c) adapter \<Rightarrow> bool \<times> ('e, 'c) adapter" where
  "SetLevelPercent E udn percent a =
     (if \<not> HAVE_OPENWEMO_ENGINE E then (False, a)
      else let (ok, a) = EnsureEngineInitialized E a
           in if \<not> ok then (False, a)
              else let clamped = clamp_int (uint percent) 0 100;
                       state = (if clamped > 0 then 1 else 0)
                   in send_to_udn E udn state clamped a)"

section \<open>The device list and the cache\<close>

definition cache_of :: "we_device_info list \<Rightarrow> (string \<rightharpoonup> int)" where
  "cache_of infos =
     map_of (rev (map (\<lambda>i. (wi_udn i, wi_wemo_id i)) (filter (\<lambda>i. wi_udn i \<noteq> '''') infos)))"

lemma cache_of_Nil [simp]: "cache_of [] = Map.empty"
  by (simp add: cache_of_def)

lemma cache_of_Cons:
  "cache ++ cache_of (info # infos) =
   (if wi_udn info \<noteq> '''' then cache(wi_udn info \<mapsto> wi_wemo_id info) else cache) ++ cache_of infos"
  by (auto simp: cache_of_def map_add_def fun_eq_iff split: option.splits)

lemma refill_cache_eq: "refill_cache infos cache = cache ++ cache_of infos"
  by (induction infos cache rule: refill_cache.induct) (simp_all add: cache_of_Cons)

lemma device_of_info_simps [simp]:
  "wd_udn (device_of_info info) = wi_udn info"
  "wd_wemo_id (device_of_info info) = wi_wemo_id info"
  "wd_friendly_name (device_of_info info) = wi_friendly_name info"
  "wd_is_online (device_of_info info) = (wi_is_online info \<noteq> 0)"
  by (simp_all add: device_of_info_def)

lemma discover_loop_eq:
  "discover_loop infos cache = (map device_of_info infos, cache ++ cache_of infos)"
  by (induction infos cache rule: discover_loop.induct) (simp_all add: cache_of_Cons Let_def)

lemma cache_of_nonempty: "cache_of infos u = Some i \<Longrightarrow> u \<noteq> ''''"
  by (auto simp: cache_of_def dest!: map_of_SomeD)

lemma cache_of_listed:
  "cache_of infos u = Some i \<Longrightarrow> \<exists>info\<in>set infos. wi_udn info = u \<and> wi_wemo_id info = i"
  by (auto simp: cache_of_def dest!: map_of_SomeD)

lemma cache_of_None_iff: "cache_of infos u = None \<longleftrightarrow> u = '''' \<or> u \<notin> wi_udn ` set infos"
  by (auto simp: cache_of_def map_of_eq_None_iff image_iff)

definition device_wf :: "wemo_device \<Rightarrow> bool" where
  "device_wf d \<longleftrightarrow> uint (wd_level_percent d) \<le> 100 \<and> uint (wd_onoff d) \<le> 1 \<and>
     (\<not> wd_supports_level d \<longrightarrow> wd_level_percent d = 0)"

lemma device_of_info_wf: "device_wf (device_of_info info)"
proof -
  have "uint (to_u8 (clamp_int v 0 100)) \<le> 100" for v
    using clamp_int_bounds [of 0 100 v] by (simp add: uint_to_u8_id)
  then show ?thesis by (simp add: device_wf_def device_of_info_def default_wemo_device_def)
qed

lemma length_listed:
  "0 \<le> WE_DEVICE_LIST_MAX_ITEMS E \<Longrightarrow> int (length (listed E l)) \<le> WE_DEVICE_LIST_MAX_ITEMS E"
  using clamp_int_bounds [of 0 "WE_DEVICE_LIST_MAX_ITEMS E" "wl_count l"]
  by (auto simp: listed_def min_def)

section \<open>Effects of the operations on the trace\<close>

definition is_target :: "engine_call \<Rightarrow> bool" where
  "is_target c = (case c of CSetIpcTarget _ _ \<Rightarrow> True | _ \<Rightarrow> False)"

definition is_setup :: "engine_call \<Rightarrow> bool" where
  "is_setup c = (is_target c \<or> c = CInit)"

text \<open>The state commands in a trace, in order.\<close>

definition actions :: "engine_call list \<Rightarrow> (int \<times> we_state) list" where
  "actions cs = concat (map (\<lambda>c. case c of CSetAction i s \<Rightarrow> [(i, s)] | _ \<Rightarrow> []) cs)"

lemma actions_append [simp]: "actions (xs @ ys) = actions xs @ actions ys"
  by (simp add: actions_def)

lemma actions_Cons [simp]:
  "actions [] = []" "actions (CSetIpcTarget h p # cs) = actions cs"
  "actions (CInit # cs) = actions cs" "actions (CDiscover f # cs) = actions cs"
  "actions (CListDevices # cs) = actions cs"
  "actions (CSetAction i s # cs) = (i, s) # actions cs"
  "actions (CRegisterEventCallback # cs) = actions cs"
  by (simp_all add: actions_def)

lemma log_call_fields [simp]:
  "calls (log_call c a) = calls a @ [c]"
  "mEngineSocket (log_call c a) = mEngineSocket a"
  "mUdnToWemoId (log_call c a) = mUdnToWemoId a"
  "target_configured (log_call c a) = target_configured a"
  "initialized (log_call c a) = initialized a"
  "gStateCallback (log_call c a) = gStateCallback a"
  "engine_state (log_call c a) = engine_state a"
  by (simp_all add: log_call_def)

text \<open>
  The calls of an adapter: at most one configuration of the IPC target, then the attempts
  to initialise, then, only once one has succeeded, the work.
\<close>

definition engine_protocol :: "('e, 'c) adapter \<Rightarrow> bool" where
  "engine_protocol a \<longleftrightarrow>
     (\<exists>target n work. calls a = target @ replicate n CInit @ work \<and>
        length target \<le> 1 \<and> (\<forall>c\<in>set target. is_target c) \<and>
        (\<forall>c\<in>set work. \<not> is_setup c) \<and>
        (\<not> target_configured a \<longrightarrow> target = [] \<and> n = 0) \<and>
        (\<not> initialized a \<longrightarrow> work = []) \<and> (initialized a \<longrightarrow> 0 < n))"

definition new_adapter :: "string \<Rightarrow> 'e \<Rightarrow> ('e, 'c) adapter" where
  "new_adapter engine_socket e =
     \<lparr>mEngineSocket = engine_socket, mUdnToWemoId = Map.empty, target_configured = False,
      initialized = False, gStateCallback = None, engine_state = e, calls = []\<rparr>"

lemma new_adapter_protocol: "engine_protocol (new_adapter sock e)"
  by (simp add: engine_protocol_def new_adapter_def)

lemma configure_target_calls:
  "\<exists>t. calls (MaybeConfigureIpcTarget E a) = calls a @ t \<and> length t \<le> 1 \<and>
     (\<forall>c\<in>set t. is_target c) \<and> actions t = [] \<and>
     initialized (MaybeConfigureIpcTarget E a) = initialized a \<and>
     mUdnToWemoId (MaybeConfigureIpcTarget E a) = mUdnToWemoId a"
  by (auto simp: MaybeConfigureIpcTarget_def Let_def is_target_def split: option.splits)

lemma ensure_cases:
  assumes "EnsureEngineInitialized E a = (ok, a')"
  obtains (ready) "initialized a" "ok" "a' = a"
  | (tried) t where "\<not> initialized a" "calls a' = calls a @ t @ [CInit]" "ok = initialized a'"
      "target_configured a'" "length t \<le> (if target_configured a then 0 else 1)"
      "\<forall>c\<in>set t. is_target c" "actions t = []" "mUdnToWemoId a' = mUdnToWemoId a"
proof (cases "initialized a")
  case True
  with assms have "ok" "a' = a" by (simp_all add: EnsureEngineInitialized_def)
  with True show ?thesis by (rule ready)
next
  case False
  obtain t where t: "calls (MaybeConfigureIpcTarget E a) = calls a @ t" "length t \<le> 1"
      "\<forall>c\<in>set t. is_target c" "actions t = []"
      "mUdnToWemoId (MaybeConfigureIpcTarget E a) = mUdnToWemoId a"
    using configure_target_calls by metis
  show ?thesis
    using assms False t
    by (intro tried [of "if target_configured a then [] else t"])
      (auto simp: EnsureEngineInitialized_def Let_def split: prod.splits if_splits)
qed

lemma protocol_work:
  assumes "engine_protocol a" and "initialized a" and "\<forall>c\<in>set cs. \<not> is_setup c"
    and "calls a' = calls a @ cs" and "initialized a'" and "target_configured a' = target_configured a"
  shows "engine_protocol a'"
proof -
  from assms(1) obtain target n work where
    w: "calls a = target @ replicate n CInit @ work" "length target \<le> 1" "\<forall>c\<in>set target. is_target c"
      "\<forall>c\<in>set work. \<not> is_setup c" "\<not> target_configured a \<longrightarrow> target = [] \<and> n = 0"
      "initialized a \<longrightarrow> 0 < n"
    unfolding engine_protocol_def by blast
  show ?thesis
    unfolding engine_protocol_def
    using w assms(2-) by (intro exI [of _ target] exI [of _ n] exI [of _ "work @ cs"]) auto
qed

lemma protocol_ensure:
  assumes "engine_protocol a" and "EnsureEngineInitialized E a = (ok, a')"
  shows "engine_protocol a'"
  using assms(2)
proof (cases rule: ensure_cases)
  case ready
  then show ?thesis using assms(1) by simp
next
  case (tried t)
  from assms(1) tried(1) obtain target n where
    w: "calls a = target @ replicate n CInit" "length target \<le> 1" "\<forall>c\<in>set target. is_target c"
      "\<not> target_configured a \<longrightarrow> target = [] \<and> n = 0"
    unfolding engine_protocol_def by auto
  show ?thesis
  proof (cases "target_configured a")
    case True
    then have "t = []" using tried(5) by simp
    then have "calls a' = target @ replicate (Suc n) CInit @ []"
      using tried(2) w(1) by (simp add: replicate_append_same)
    then show ?thesis unfolding engine_protocol_def using w tried(4)
      by (intro exI [of _ target] exI [of _ "Suc n"] exI [of _ "[]"]) (auto simp del: replicate_Suc)
  next
    case False
    then have "calls a' = t @ replicate 1 CInit @ []" "length t \<le> 1"
      using tried(2,5) w by simp_all
    then show ?thesis unfolding engine_protocol_def using tried(4,6)
      by (intro exI [of _ t] exI [of _ 1] exI [of _ "[]"]) auto
  qed
qed

lemma ensure_keeps:
  assumes "EnsureEngineInitialized E a = (ok, a')"
  shows "ok = initialized a' \<and> actions (calls a') = actions (calls a) \<and>
    mUdnToWemoId a' = mUdnToWemoId a \<and> (ok \<longrightarrow> initialized a') \<and> (initialized a \<longrightarrow> a' = a)"
  using assms by (cases rule: ensure_cases) simp_all

lemma call_discover_fields [simp]:
  "calls (call_discover E a) = calls a @ [CDiscover 0]"
  "mUdnToWemoId (call_discover E a) = mUdnToWemoId a"
  "target_configured (call_discover E a) = target_configured a"
  "initialized (call_discover E a) = initialized a"
  "gStateCallback (call_discover E a) = gStateCallback a"
  by (simp_all add: call_discover_def)

lemma call_list_fields:
  "call_list_devices E a = (rc, l, a') \<Longrightarrow>
   calls a' = calls a @ [CListDevices] \<and> mUdnToWemoId a' = mUdnToWemoId a \<and>
   target_configured a' = target_configured a \<and> initialized a' = initialized a \<and>
   gStateCallback a' = gStateCallback a"
  by (auto simp: call_list_devices_def split: prod.splits)

lemma SendState_fields:
  "SendState E i st lv a = (ok, a') \<Longrightarrow>
   calls a' = calls a @ [CSetAction i \<lparr>ws_is_online = 1, ws_state = st, ws_level = lv\<rparr>] \<and>
   mUdnToWemoId a' = mUdnToWemoId a \<and> target_configured a' = target_configured a \<and>
   initialized a' = initialized a"
  by (auto simp: SendState_def Let_def split: prod.splits)

lemma not_setup [simp]:
  "\<not> is_setup (CDiscover f)" "\<not> is_setup CListDevices" "\<not> is_setup (CSetAction i s)"
  "\<not> is_setup CRegisterEventCallback"
  by (simp_all add: is_setup_def is_target_def)

text \<open>Every command either sends nothing, or exactly one state to an id of the cache.\<close>

lemma send_to_udn_cases:
  assumes "send_to_udn E udn st lv a = (ok, a')"
  obtains (sent) i cs where "calls a' = calls a @ cs @
        [CSetAction i \<lparr>ws_is_online = 1, ws_state = st, ws_level = lv\<rparr>]"
      "set cs \<subseteq> {CDiscover 0, CListDevices}" "mUdnToWemoId a' udn = Some i"
      "mUdnToWemoId a udn \<noteq> None \<longrightarrow> cs = [] \<and> mUdnToWemoId a' = mUdnToWemoId a"
      "initialized a' = initialized a" "target_configured a' = target_configured a"
  | (silent) cs where "\<not> ok" "calls a' = calls a @ cs" "set cs \<subseteq> {CDiscover 0, CListDevices}"
      "mUdnToWemoId a udn = None"
      "initialized a' = initialized a" "target_configured a' = target_configured a"
proof (cases "mUdnToWemoId a udn")
  case (Some i)
  with assms have "SendState E i st lv a = (ok, a')" by (simp add: send_to_udn_def)
  from SendState_fields [OF this] show ?thesis using Some by (intro sent [of "[]" i]) simp_all
next
  case None
  obtain rc l a2 where l: "call_list_devices E (call_discover E a) = (rc, l, a2)"
    by (metis prod_cases3)
  note f = call_list_fields [OF l]
  let ?a3 = "a2\<lparr>mUdnToWemoId := refill_cache (listed E l) (mUdnToWemoId a2)\<rparr>"
  show ?thesis
  proof (cases "rc = WE_STATUS_OK E \<and> mUdnToWemoId ?a3 udn \<noteq> None")
    case True
    then obtain i where i: "mUdnToWemoId ?a3 udn = Some i" by blast
    then have "SendState E i st lv ?a3 = (ok, a')"
      using assms None l True by (simp add: send_to_udn_def Let_def)
    from SendState_fields [OF this] show ?thesis
      using f i None by (intro sent [of "[CDiscover 0, CListDevices]" i]) simp_all
  next
    case False
    then have "\<not> ok \<and> (a' = a2 \<or> a' = ?a3)"
      using assms None l by (auto simp: send_to_udn_def Let_def split: if_splits option.splits)
    then show ?thesis
      using f None by (intro silent [of "[CDiscover 0, CListDevices]"]) auto
  qed
qed

lemma send_to_udn_protocol:
  assumes "engine_protocol a" and "initialized a" and "send_to_udn E udn st lv a = (ok, a')"
  shows "engine_protocol a'"
  using assms(3)
proof (cases rule: send_to_udn_cases)
  case (sent i cs)
  show ?thesis
    by (rule protocol_work [OF assms(1,2) _ sent(1)]) (use sent assms in auto)
next
  case (silent cs)
  show ?thesis
    by (rule protocol_work [OF assms(1,2) _ silent(2)]) (use silent assms in auto)
qed

end
