(* ===== verification/Adapter_Contract.thy ===== *)
theory Adapter_Contract
  imports Adapter
begin

text \<open>
  The abstract class \<open>WemoAdapter\<close> of \<^verbatim>\<open>include/wemo_bridge/wemo_adapter.h\<close> as a contract,
  its two implementations (the engine adapter and the stub of
  \<^verbatim>\<open>src/adapters/wemo/wemo_adapter_stub.cpp\<close>) as interpretations, the commands that the
  bridge hands to it from detached threads, and the properties of the engine adapter.
\<close>

section \<open>The contract\<close>

definition level_command :: "u8 \<Rightarrow> we_state" where
  "level_command percent =
     \<lparr>ws_is_online = 1, ws_state = (if 0 < uint percent then 1 else 0),
      ws_level = clamp_int (uint percent) 0 100\<rparr>"

definition onoff_command :: "bool \<Rightarrow> we_state" where
  "onoff_command on = \<lparr>ws_is_online = 1, ws_state = (if on then 1 else 0), ws_level = - 1\<rparr>"

text \<open>
  An adapter reports well-formed devices, and a command sends either nothing, which it
  reports as failure, or exactly the commanded state to one device.
\<close>

locale wemo_adapter =
  fixes discover :: "'a \<Rightarrow> wemo_device list \<times> 'a"
    and refresh :: "'a \<Rightarrow> 'a"
    and set_on_off :: "'a \<Rightarrow> string \<Rightarrow> bool \<Rightarrow> bool \<times> 'a"
    and set_level_percent :: "'a \<Rightarrow> string \<Rightarrow> u8 \<Rightarrow> bool \<times> 'a"
    and sent :: "'a \<Rightarrow> (int \<times> we_state) list"
    and invar :: "'a \<Rightarrow> bool"
  assumes discover_law: "invar a \<Longrightarrow> discover a = (ds, a') \<Longrightarrow>
      invar a' \<and> sent a' = sent a \<and> (\<forall>d\<in>set ds. device_wf d)"
    and refresh_law: "invar a \<Longrightarrow> invar (refresh a) \<and> sent (refresh a) = sent a"
    and on_off_law: "invar a \<Longrightarrow> set_on_off a u on = (ok, a') \<Longrightarrow>
      invar a' \<and> (\<not> ok \<and> sent a' = sent a \<or> (\<exists>i. sent a' = sent a @ [(i, onoff_command on)]))"
    and level_law: "invar a \<Longrightarrow> set_level_percent a u p = (ok, a') \<Longrightarrow>
      invar a' \<and> (\<not> ok \<and> sent a' = sent a \<or> (\<exists>i. sent a' = sent a @ [(i, level_command p)]))"

text \<open>
  The client: the bridge starts one thread per command,
  \<open>gWemoAdapter.SetOnOff(udn, targetOn)\<close> or \<open>gWemoAdapter.SetLevelPercent(udn, wemoPercent)\<close>.
\<close>

datatype wemo_job = JobOnOff string bool | JobLevel string u8

fun run_job ::
    "('a \<Rightarrow> string \<Rightarrow> bool \<Rightarrow> bool \<times> 'a) \<Rightarrow> ('a \<Rightarrow> string \<Rightarrow> u8 \<Rightarrow> bool \<times> 'a) \<Rightarrow> wemo_job \<Rightarrow> 'a \<Rightarrow> 'a" where
  "run_job set_on_off set_level_percent (JobOnOff udn on) a = snd (set_on_off a udn on)"
| "run_job set_on_off set_level_percent (JobLevel udn p) a = snd (set_level_percent a udn p)"

definition run_jobs ::
    "('a \<Rightarrow> string \<Rightarrow> bool \<Rightarrow> bool \<times> 'a) \<Rightarrow> ('a \<Rightarrow> string \<Rightarrow> u8 \<Rightarrow> bool \<times> 'a) \<Rightarrow>
     wemo_job list \<Rightarrow> 'a \<Rightarrow> 'a" where
  "run_jobs set_on_off set_level_percent js a = fold (run_job set_on_off set_level_percent) js a"

text \<open>The state a job puts on the wire.\<close>

fun job_command :: "wemo_job \<Rightarrow> we_state" where
  "job_command (JobOnOff udn on) = onoff_command on"
| "job_command (JobLevel udn p) = level_command p"

definition command_wf :: "we_state \<Rightarrow> bool" where
  "command_wf s \<longleftrightarrow> ws_is_online s = 1 \<and> ws_state s \<in> {0, 1} \<and> - 1 \<le> ws_level s \<and> ws_level s \<le> 100"

lemma job_command_wf: "command_wf (job_command j)"
  using clamp_int_bounds [of 0 100]
  by (cases j) (auto simp: command_wf_def onoff_command_def level_command_def
      intro: order_trans [of "- 1" 0])

context wemo_adapter
begin

lemma run_job_law:
  assumes "invar a"
  shows "invar (run_job set_on_off set_level_percent j a) \<and>
    (sent (run_job set_on_off set_level_percent j a) = sent a \<or>
     (\<exists>i. sent (run_job set_on_off set_level_percent j a) = sent a @ [(i, job_command j)]))"
proof (cases j)
  case (JobOnOff u on)
  then show ?thesis using on_off_law [OF assms, of u on] by (cases "set_on_off a u on") auto
next
  case (JobLevel u p)
  then show ?thesis using level_law [OF assms, of u p] by (cases "set_level_percent a u p") auto
qed

text \<open>
  The states sent while a list of jobs runs are the commands of a subsequence of the jobs,
  in the order in which the jobs ran.
\<close>

lemma run_jobs_law:
  assumes "invar a"
  shows "invar (run_jobs set_on_off set_level_percent js a) \<and>
    (\<exists>ran. set ran \<subseteq> set js \<and> length ran \<le> length js \<and>
       map snd (sent (run_jobs set_on_off set_level_percent js a)) =
       map snd (sent a) @ map job_command ran)"
  using assms
proof (induction js arbitrary: a)
  case Nil
  then show ?case by (simp add: run_jobs_def)
next
  case (Cons j js)
  let ?a1 = "run_job set_on_off set_level_percent j a"
  from run_job_law [OF Cons.prems, of j] have inv: "invar ?a1"
    and one: "\<exists>r. set r \<subseteq> {j} \<and> length r \<le> 1 \<and>
      map snd (sent ?a1) = map snd (sent a) @ map job_command r"
    by (auto intro: exI [of _ "[]"] exI [of _ "[j]"])
  from one obtain r where r: "set r \<subseteq> {j}" "length r \<le> 1"
    "map snd (sent ?a1) = map snd (sent a) @ map job_command r" by blast
  from Cons.IH [OF inv] obtain ran where "invar (run_jobs set_on_off set_level_percent js ?a1)"
    and "set ran \<subseteq> set js" "length ran \<le> length js"
    and "map snd (sent (run_jobs set_on_off set_level_percent js ?a1)) =
      map snd (sent ?a1) @ map job_command ran" by blast
  then show ?case
    using r by (intro conjI exI [of _ "r @ ran"]) (auto simp: run_jobs_def)
qed

end

section \<open>The stub\<close>

definition stub_Discover :: "unit \<Rightarrow> wemo_device list \<times> unit" where
  "stub_Discover a = ([], a)"

definition stub_SetOnOff :: "unit \<Rightarrow> string \<Rightarrow> bool \<Rightarrow> bool \<times> unit" where
  "stub_SetOnOff a udn on = (False, a)"

definition stub_SetLevelPercent :: "unit \<Rightarrow> string \<Rightarrow> u8 \<Rightarrow> bool \<times> unit" where
  "stub_SetLevelPercent a udn percent = (False, a)"

text \<open>\<open>WemoAdapter::Refresh\<close> has an empty default body, which the stub inherits.\<close>

definition default_Refresh :: "unit \<Rightarrow> unit" where
  "default_Refresh a = a"

interpretation stub: wemo_adapter
  stub_Discover default_Refresh stub_SetOnOff stub_SetLevelPercent "\<lambda>_. []" "\<lambda>_. True"
  by unfold_locales (simp_all add: stub_Discover_def stub_SetOnOff_def stub_SetLevelPercent_def)

section \<open>The engine adapter keeps the contract\<close>

lemma Discover_keeps:
  assumes inv: "engine_protocol a" and run: "Discover E a = (ds, a')"
  shows "engine_protocol a' \<and> actions (calls a') = actions (calls a) \<and> (\<forall>d\<in>set ds. device_wf d)"
proof (cases "HAVE_OPENWEMO_ENGINE E")
  case False
  then show ?thesis using assms by (simp add: Discover_def)
next
  case True
  obtain ok a1 where e: "EnsureEngineInitialized E a = (ok, a1)" by fastforce
  note k = protocol_ensure [OF inv e] ensure_keeps [OF e]
  obtain rc l a2 where l: "call_list_devices E (call_discover E a1) = (rc, l, a2)"
    by (metis prod_cases3)
  note f = call_list_fields [OF l]
  show ?thesis
  proof (cases ok)
    case False
    then show ?thesis using run True e k by (simp add: Discover_def)
  next
    case ok: True
    have "engine_protocol a2"
      by (rule protocol_work [of a1 "[CDiscover 0, CListDevices]"]) (use k f ok in auto)
    moreover have "engine_protocol (a2\<lparr>mUdnToWemoId := c\<rparr>) = engine_protocol a2" for c
      by (simp add: engine_protocol_def)
    ultimately show ?thesis
      using run True e ok l k f
      by (auto simp: Discover_def Let_def discover_loop_eq device_of_info_wf split: if_splits)
  qed
qed

lemma Refresh_keeps:
  assumes inv: "engine_protocol a"
  shows "engine_protocol (Refresh E a) \<and> actions (calls (Refresh E a)) = actions (calls a)"
proof -
  obtain ok a1 where e: "EnsureEngineInitialized E a = (ok, a1)" by fastforce
  note k = protocol_ensure [OF inv e] ensure_keeps [OF e]
  have "engine_protocol (call_discover E a1)" if ok
    by (rule protocol_work [of a1 "[CDiscover 0]"]) (use k that in auto)
  then show ?thesis using e k inv by (auto simp: Refresh_def)
qed

lemma RegisterStateCallback_keeps:
  assumes inv: "engine_protocol a"
  shows "engine_protocol (RegisterStateCallback E cb a) \<and>
    actions (calls (RegisterStateCallback E cb a)) = actions (calls a)"
proof -
  obtain ok a1 where e: "EnsureEngineInitialized E a = (ok, a1)" by fastforce
  note k = protocol_ensure [OF inv e] ensure_keeps [OF e]
  have "engine_protocol (log_call CRegisterEventCallback
      (a1\<lparr>gStateCallback := cb, engine_state := we_register_event_callback E (engine_state a1)\<rparr>))"
    if ok
    by (rule protocol_work [of a1 "[CRegisterEventCallback]"]) (use k that in auto)
  then show ?thesis using e k inv by (auto simp: RegisterStateCallback_def)
qed

lemma send_keeps:
  assumes inv: "engine_protocol a" and e: "EnsureEngineInitialized E a = (True, a1)"
    and s: "send_to_udn E udn st lv a1 = (ok, a')"
  shows "engine_protocol a' \<and>
    (\<not> ok \<and> actions (calls a') = actions (calls a) \<or>
     (\<exists>i. actions (calls a') =
        actions (calls a) @ [(i, \<lparr>ws_is_online = 1, ws_state = st, ws_level = lv\<rparr>)]))"
proof -
  note k = protocol_ensure [OF inv e] ensure_keeps [OF e]
  have quiet: "actions cs = []" if "set cs \<subseteq> {CDiscover 0, CListDevices}" for cs
    using that by (induction cs) (auto simp: actions_def)
  have "engine_protocol a'" using send_to_udn_protocol [OF k(1) _ s] k by simp
  moreover from s have "\<not> ok \<and> actions (calls a') = actions (calls a) \<or>
     (\<exists>i. actions (calls a') =
        actions (calls a) @ [(i, \<lparr>ws_is_online = 1, ws_state = st, ws_level = lv\<rparr>)])"
    by (cases rule: send_to_udn_cases) (use k quiet in auto)
  ultimately show ?thesis ..
qed

lemma SetOnOff_keeps:
  assumes inv: "engine_protocol a" and run: "SetOnOff E udn on a = (ok, a')"
  shows "engine_protocol a' \<and> (\<not> ok \<and> actions (calls a') = actions (calls a) \<or>
    (\<exists>i. actions (calls a') = actions (calls a) @ [(i, onoff_command on)]))"
proof -
  obtain b a1 where e: "EnsureEngineInitialized E a = (b, a1)" by fastforce
  note k = protocol_ensure [OF inv e] ensure_keeps [OF e]
  show ?thesis
    using run e k inv send_keeps [OF inv, of E a1 udn "if on then 1 else 0" "- 1" ok a']
    by (cases "HAVE_OPENWEMO_ENGINE E"; cases b) (auto simp: SetOnOff_def onoff_command_def)
qed

lemma SetLevelPercent_keeps:
  assumes inv: "engine_protocol a" and run: "SetLevelPercent E udn p a = (ok, a')"
  shows "engine_protocol a' \<and> (\<not> ok \<and> actions (calls a') = actions (calls a) \<or>
    (\<exists>i. actions (calls a') = actions (calls a) @ [(i, level_command p)]))"
proof -
  obtain b a1 where e: "EnsureEngineInitialized E a = (b, a1)" by fastforce
  note k = protocol_ensure [OF inv e] ensure_keeps [OF e]
  have pos: "0 < clamp_int (uint p) 0 100 \<longleftrightarrow> 0 < uint p" by (simp add: clamp_int_def)
  show ?thesis
    using run e k inv send_keeps [OF inv, of E a1 udn "if 0 < uint p then 1 else 0"
        "clamp_int (uint p) 0 100" ok a']
    by (cases "HAVE_OPENWEMO_ENGINE E"; cases b)
      (auto simp: SetLevelPercent_def level_command_def Let_def pos)
qed

interpretation openwemo: wemo_adapter
  "Discover E" "Refresh E" "\<lambda>a u on. SetOnOff E u on a" "\<lambda>a u p. SetLevelPercent E u p a"
  "\<lambda>a. actions (calls a)" engine_protocol
  for E :: "'e engine"
  by unfold_locales
    (rule Discover_keeps Refresh_keeps SetOnOff_keeps SetLevelPercent_keeps; assumption)+

lemma send_to_udn_addressing:
  assumes send: "send_to_udn E udn (ws_state c) (ws_level c) a1 = (r, b)"
    and on: "ws_is_online c = 1"
    and k: "actions (calls a1) = actions (calls a)" "mUdnToWemoId a1 = mUdnToWemoId a"
  shows "(\<forall>i s. actions (calls b) = actions (calls a) @ [(i, s)] \<longrightarrow>
       mUdnToWemoId b udn = Some i \<and> s = c) \<and>
    (\<forall>i. mUdnToWemoId a udn = Some i \<longrightarrow> calls b = calls a1 @ [CSetAction i c])"
proof -
  have quiet: "actions cs = []" if "set cs \<subseteq> {CDiscover 0, CListDevices}" for cs
    using that by (induction cs) auto
  have cmd: "\<lparr>ws_is_online = 1, ws_state = ws_state c, ws_level = ws_level c\<rparr> = c"
    using on by simp
  from send show ?thesis
  proof (cases rule: send_to_udn_cases)
    case (sent i cs)
    note s1 = sent(1) [unfolded cmd]
    have act: "actions (calls b) = actions (calls a) @ [(i, c)]"
      using quiet [OF sent(2)] by (simp add: s1 k)
    have "calls b = calls a1 @ [CSetAction j c]" if "mUdnToWemoId a udn = Some j" for j
      using sent(3,4) that s1 k(2) by simp
    with act sent(3) show ?thesis by simp
  next
    case (silent cs)
    have "actions (calls b) = actions (calls a)" using quiet [OF silent(3)] by (simp add: silent(2) k)
    then show ?thesis using silent(4) k(2) by simp
  qed
qed

section \<open>Properties of the engine adapter\<close>

text \<open>A concrete engine: it answers every call, with a fixed device list.\<close>

definition list_engine :: "we_device_info list \<Rightarrow> unit engine" where
  "list_engine items =
     \<lparr>HAVE_OPENWEMO_ENGINE = True, WE_STATUS_OK = 0, WE_DEVICE_LIST_MAX_ITEMS = 64,
      we_set_ipc_target = (\<lambda>h p e. e), we_init = (\<lambda>e. (1, e)), we_discover = (\<lambda>f e. e),
      we_list_devices = (\<lambda>e. (0, \<lparr>wl_count = int (length items), wl_items = items\<rparr>, e)),
      we_set_action = (\<lambda>i s e. (1, e)), we_register_event_callback = (\<lambda>e. e)\<rparr>"

definition lamp_info :: we_device_info where
  "lamp_info = \<lparr>wi_wemo_id = 7, wi_udn = ''uuid:lamp'', wi_friendly_name = ''Lamp'',
     wi_is_online = 1, wi_state = 1, wi_device_type = 4, wi_level = 130\<rparr>"

definition started :: "string \<Rightarrow> (unit, unit) adapter" where
  "started sock = snd (EnsureEngineInitialized (list_engine []) (new_adapter sock ()))"

lemma list_engine_discover:
  assumes "length items \<le> 64"
  shows "\<exists>a1. Discover (list_engine items) (new_adapter sock () :: (unit, 'c) adapter) =
    (map device_of_info items, a1)"
proof -
  let ?E = "list_engine items" and ?a = "new_adapter sock () :: (unit, 'c) adapter"
  obtain b a0 where en: "EnsureEngineInitialized ?E ?a = (b, a0)" by (rule prod.exhaust)
  have b: b
    using en by (auto simp: EnsureEngineInitialized_def Let_def new_adapter_def list_engine_def)
  obtain rc l a2 where ld: "call_list_devices ?E (call_discover ?E a0) = (rc, l, a2)"
    by (rule prod_cases3)
  have r: "rc = WE_STATUS_OK ?E" "listed ?E l = items"
    using ld assms by (auto simp: call_list_devices_def list_engine_def listed_def)
  have h: "HAVE_OPENWEMO_ENGINE ?E" by (simp add: list_engine_def)
  have "fst (Discover ?E ?a) = map device_of_info items"
    by (simp add: Discover_def Let_def en b ld r h discover_loop_eq)
  then show ?thesis by (intro exI [of _ "snd (Discover ?E ?a)"]) (simp add: prod_eq_iff)
qed

text \<open>
  C28. When the engine answers, \<open>Discover\<close> returns the listed entries in order, at most the
  capacity of the list, each with its level clamped to 0..100 and its state reduced to 0 or
  1, and leaves a cache that maps exactly the listed non-empty UDNs, each to the id of its
  last entry.
\<close>

theorem discover_correct:
  assumes "HAVE_OPENWEMO_ENGINE E" and "0 \<le> WE_DEVICE_LIST_MAX_ITEMS E"
    and "EnsureEngineInitialized E a = (True, a1)"
    and "call_list_devices E (call_discover E a1) = (WE_STATUS_OK E, l, a2)"
    and "Discover E a = (ds, a')"
  shows "ds = map device_of_info (listed E l) \<and> (\<forall>d\<in>set ds. device_wf d) \<and>
    int (length ds) \<le> WE_DEVICE_LIST_MAX_ITEMS E \<and>
    dom (mUdnToWemoId a') = wi_udn ` set (listed E l) - {''''} \<and>
    (\<forall>before info after. listed E l = before @ info # after \<longrightarrow> wi_udn info \<noteq> '''' \<longrightarrow>
       wi_udn info \<notin> wi_udn ` set after \<longrightarrow>
       mUdnToWemoId a' (wi_udn info) = Some (wi_wemo_id info))"
proof -
  have d: "ds = map device_of_info (listed E l)" "mUdnToWemoId a' = cache_of (listed E l)"
    using assms by (auto simp: Discover_def Let_def discover_loop_eq)
  have last: "cache_of (before @ info # after) (wi_udn info) = Some (wi_wemo_id info)"
    if "wi_udn info \<noteq> ''''" "wi_udn info \<notin> wi_udn ` set after" for before info after
  proof -
    have "map_of (rev (map (\<lambda>i. (wi_udn i, wi_wemo_id i)) (filter (\<lambda>i. wi_udn i \<noteq> '''') after)))
        (wi_udn info) = None"
      using that(2) by (auto simp: map_of_eq_None_iff)
    then show ?thesis using that(1) by (simp add: cache_of_def map_add_def)
  qed
  have "dom (cache_of (listed E l)) = wi_udn ` set (listed E l) - {''''}"
    by (rule set_eqI) (simp add: domIff cache_of_None_iff conj_commute del: not_None_eq)
  then show ?thesis
    using d last length_listed [OF assms(2), of l] by (auto simp: device_of_info_wf)
qed

theorem discover_correct_witness:
  "fst (Discover (list_engine [lamp_info]) (new_adapter ''127.0.0.1:49153'' () :: (unit, unit) adapter))
     = [device_of_info lamp_info] \<and> wd_level_percent (device_of_info lamp_info) = 100"
proof -
  let ?E = "list_engine [lamp_info]"
  obtain ok a1 where e: "EnsureEngineInitialized ?E
      (new_adapter ''127.0.0.1:49153'' () :: (unit, unit) adapter) = (ok, a1)" by fastforce
  have ok: "ok" using e
    by (auto simp: EnsureEngineInitialized_def Let_def new_adapter_def list_engine_def)
  obtain rc l a2 where l: "call_list_devices ?E (call_discover ?E a1) = (rc, l, a2)"
    by (metis prod_cases3)
  then have rc: "rc = WE_STATUS_OK ?E" and ls: "listed ?E l = [lamp_info]"
    by (auto simp: call_list_devices_def list_engine_def listed_def)
  obtain ds a' where d: "Discover ?E (new_adapter ''127.0.0.1:49153'' () :: (unit, unit) adapter) =
      (ds, a')" by fastforce
  have "ds = [device_of_info lamp_info]"
    using discover_correct [OF _ _ e [simplified ok] l [simplified rc] d] ls
    by (simp add: list_engine_def)
  moreover have "wd_level_percent (device_of_info lamp_info) = 100"
    by (simp add: device_of_info_def lamp_info_def clamp_int_def to_u8_def)
  ultimately show ?thesis using d by simp
qed

text \<open>
  A command is addressed by UDN. Whatever \<open>SetOnOff\<close> or \<open>SetLevelPercent\<close> sends goes to
  the id that the cache holds for the UDN, carries the commanded state (a switch command
  never a level, a level command a level in 0..100), and on a cache hit nothing else is
  asked of an initialised engine.
\<close>

theorem command_addressing:
  assumes "EnsureEngineInitialized E a = (True, a1)" and "HAVE_OPENWEMO_ENGINE E"
    and "SetOnOff E udn on a = (ok, a')" and "SetLevelPercent E udn p a = (ok', a'')"
  shows "(\<forall>i s. actions (calls a') = actions (calls a) @ [(i, s)] \<longrightarrow>
       mUdnToWemoId a' udn = Some i \<and> s = onoff_command on) \<and>
    (\<forall>i s. actions (calls a'') = actions (calls a) @ [(i, s)] \<longrightarrow>
       mUdnToWemoId a'' udn = Some i \<and> s = level_command p) \<and>
    (\<forall>i. mUdnToWemoId a udn = Some i \<longrightarrow>
       calls a' = calls a1 @ [CSetAction i (onoff_command on)] \<and>
       calls a'' = calls a1 @ [CSetAction i (level_command p)])"
proof -
  have k: "actions (calls a1) = actions (calls a)" "mUdnToWemoId a1 = mUdnToWemoId a"
    using ensure_keeps [OF assms(1)] by blast+
  have s1: "send_to_udn E udn (ws_state (onoff_command on)) (ws_level (onoff_command on)) a1 = (ok, a')"
    using assms(1-3) by (simp add: SetOnOff_def onoff_command_def)
  have s2: "send_to_udn E udn (ws_state (level_command p)) (ws_level (level_command p)) a1 = (ok', a'')"
    using assms(1,2,4)
    by (auto simp: SetLevelPercent_def level_command_def Let_def clamp_int_def split: if_splits)
  have c: "ws_is_online (onoff_command on) = 1" "ws_is_online (level_command p) = 1"
    by (simp_all add: onoff_command_def level_command_def)
  note o1 = send_to_udn_addressing [OF s1 c(1) k] and o2 = send_to_udn_addressing [OF s2 c(2) k]
  show ?thesis by (intro conjI o1 [THEN conjunct1] o2 [THEN conjunct1] allI impI)
      (rule o1 [THEN conjunct2, rule_format] o2 [THEN conjunct2, rule_format]; assumption)+
qed

theorem command_addressing_witness:
  "calls (snd (SetOnOff (list_engine [lamp_info]) ''uuid:lamp'' True
     (started ''x''\<lparr>mUdnToWemoId := [''uuid:lamp'' \<mapsto> 7]\<rparr>))) =
   [CInit, CSetAction 7 (onoff_command True)]"
proof -
  let ?E = "list_engine [lamp_info]"
  let ?a = "started ''x''\<lparr>mUdnToWemoId := [''uuid:lamp'' \<mapsto> (7 :: int)]\<rparr>"
  have st: "initialized (started ''x'')" "calls (started ''x'') = [CInit]"
    by (simp_all add: started_def EnsureEngineInitialized_def Let_def new_adapter_def
        list_engine_def MaybeConfigureIpcTarget_def rfind_def)
  then have e: "EnsureEngineInitialized ?E ?a = (True, ?a)"
    by (simp add: EnsureEngineInitialized_def)
  have h: "HAVE_OPENWEMO_ENGINE ?E" by (simp add: list_engine_def)
  obtain ok a' where s: "SetOnOff ?E ''uuid:lamp'' True ?a = (ok, a')" by (rule prod.exhaust)
  obtain ok' a'' where s2: "SetLevelPercent ?E ''uuid:lamp'' 40 ?a = (ok', a'')"
    by (rule prod.exhaust)
  note command_addressing [OF e h s s2, THEN conjunct2, THEN conjunct2, rule_format, of 7]
  then have "calls a' = calls ?a @ [CSetAction 7 (onoff_command True)]" by simp
  then show ?thesis using s st by simp
qed

text \<open>A use of the adapter: any sequence of its operations.\<close>

datatype 'c adapter_op = OpDiscover | OpRefresh | OpRegister "'c option" | OpJob wemo_job

fun run_op :: "'e engine \<Rightarrow> 'c adapter_op \<Rightarrow> ('e, 'c) adapter \<Rightarrow> ('e, 'c) adapter" where
  "run_op E OpDiscover a = snd (Discover E a)"
| "run_op E OpRefresh a = Refresh E a"
| "run_op E (OpRegister cb) a = RegisterStateCallback E cb a"
| "run_op E (OpJob j) a =
     run_job (\<lambda>a u on. SetOnOff E u on a) (\<lambda>a u p. SetLevelPercent E u p a) j a"

definition run_ops :: "'e engine \<Rightarrow> 'c adapter_op list \<Rightarrow> ('e, 'c) adapter \<Rightarrow> ('e, 'c) adapter" where
  "run_ops E ops a = fold (run_op E) ops a"

lemma run_op_protocol: "engine_protocol a \<Longrightarrow> engine_protocol (run_op E x a)"
proof (cases x)
  case OpDiscover
  then show "engine_protocol a \<Longrightarrow> ?thesis"
    using Discover_keeps [of a E] by (cases "Discover E a") auto
qed (auto simp: Refresh_keeps RegisterStateCallback_keeps openwemo.run_job_law)

lemma run_ops_protocol: "engine_protocol a \<Longrightarrow> engine_protocol (run_ops E ops a)"
  by (induction ops arbitrary: a) (simp_all add: run_ops_def run_op_protocol)

text \<open>
  However the adapter is used, its IPC target is configured at most once and before
  anything else, the engine is initialised only until an attempt succeeds, and no other
  engine call is made before that.
\<close>

theorem engine_protocol_reachable:
  "\<exists>target n work.
     calls (run_ops E ops (new_adapter sock e)) = target @ replicate n CInit @ work \<and>
     length target \<le> 1 \<and> (\<forall>c\<in>set target. \<exists>h p. c = CSetIpcTarget h p) \<and>
     (\<forall>c\<in>set work. c \<noteq> CInit \<and> (\<forall>h p. c \<noteq> CSetIpcTarget h p)) \<and>
     (work \<noteq> [] \<longrightarrow> 0 < n \<and> initialized (run_ops E ops (new_adapter sock e)))"
proof -
  have "engine_protocol (run_ops E ops (new_adapter sock e))"
    by (rule run_ops_protocol [OF new_adapter_protocol])
  then obtain target n work where
    w: "calls (run_ops E ops (new_adapter sock e)) = target @ replicate n CInit @ work"
      "length target \<le> 1" "\<forall>c\<in>set target. is_target c" "\<forall>c\<in>set work. \<not> is_setup c"
      "\<not> initialized (run_ops E ops (new_adapter sock e)) \<longrightarrow> work = []"
      "initialized (run_ops E ops (new_adapter sock e)) \<longrightarrow> 0 < n"
    unfolding engine_protocol_def by blast
  have "\<exists>h p. c = CSetIpcTarget h p" if "c \<in> set target" for c
    using w(3) that by (cases c) (auto simp: is_target_def)
  moreover have "c \<noteq> CInit \<and> (\<forall>h p. c \<noteq> CSetIpcTarget h p)" if "c \<in> set work" for c
    using w(4) that by (auto simp: is_setup_def is_target_def)
  ultimately show ?thesis using w(1,2,5,6) by blast
qed

text \<open>The sequence of operations is arbitrary; this instance runs three of them.\<close>

theorem engine_protocol_reachable_witness:
  "\<exists>target n work. calls (run_ops (list_engine [lamp_info])
       [OpDiscover, OpRefresh, OpJob (JobOnOff ''uuid:lamp'' True)]
       (new_adapter ''127.0.0.1:49153'' () :: (unit, unit) adapter)) =
     target @ replicate n CInit @ work \<and> length target \<le> 1"
  using engine_protocol_reachable [of "list_engine [lamp_info]"
      "[OpDiscover, OpRefresh, OpJob (JobOnOff ''uuid:lamp'' True)]" "''127.0.0.1:49153''" "()"]
  by blast

text \<open>
  Whatever commands the bridge's threads run, and in whatever order, what reaches the
  devices is one well-formed state for each of some of the jobs, in the order in which they
  ran: a switch state 0 or 1 and a level of -1 (keep) or 0..100, nothing else.
\<close>

theorem jobs_send_commanded_states:
  assumes "engine_protocol a"
  shows "\<exists>ran. set ran \<subseteq> set js \<and> length ran \<le> length js \<and>
    map snd (actions (calls
      (run_jobs (\<lambda>a u on. SetOnOff E u on a) (\<lambda>a u p. SetLevelPercent E u p a) js a))) =
    map snd (actions (calls a)) @ map job_command ran \<and>
    (\<forall>s\<in>set (map job_command ran). command_wf s)"
  using openwemo.run_jobs_law [OF assms, of E js] job_command_wf by auto

theorem jobs_send_commanded_states_witness:
  "\<exists>ran. set ran \<subseteq> {JobOnOff ''uuid:lamp'' True, JobLevel ''uuid:lamp'' 200} \<and>
    map snd (actions (calls
      (run_jobs (\<lambda>a u on. SetOnOff (list_engine [lamp_info]) u on a)
         (\<lambda>a u p. SetLevelPercent (list_engine [lamp_info]) u p a)
         [JobOnOff ''uuid:lamp'' True, JobLevel ''uuid:lamp'' 200]
         (new_adapter ''127.0.0.1:49153'' () :: (unit, unit) adapter)))) = map job_command ran"
proof -
  have p: "engine_protocol (new_adapter ''127.0.0.1:49153'' () :: (unit, unit) adapter)"
    by (rule new_adapter_protocol)
  have "actions (calls (new_adapter ''127.0.0.1:49153'' () :: (unit, unit) adapter)) = []"
    by (simp add: new_adapter_def)
  with jobs_send_commanded_states [OF p, of
      "[JobOnOff ''uuid:lamp'' True, JobLevel ''uuid:lamp'' 200]" "list_engine [lamp_info]"]
  show ?thesis by auto
qed

text \<open>
  A UDN that neither the cache nor a fresh device list knows gets no command: both
  operations report failure and nothing is sent.
\<close>

theorem unknown_udn_not_commanded:
  assumes "EnsureEngineInitialized E a = (b, a1)" and "mUdnToWemoId a udn = None"
    and "call_list_devices E (call_discover E a1) = (rc, l, a2)"
    and "udn \<notin> wi_udn ` set (listed E l) \<or> udn = '''' \<or> rc \<noteq> WE_STATUS_OK E"
    and "SetOnOff E udn on a = (ok, a')" and "SetLevelPercent E udn p a = (ok', a'')"
  shows "\<not> ok \<and> \<not> ok' \<and> actions (calls a') = actions (calls a) \<and>
    actions (calls a'') = actions (calls a)"
proof -
  have k: "actions (calls a1) = actions (calls a)" "mUdnToWemoId a1 = mUdnToWemoId a"
    using ensure_keeps [OF assms(1)] by blast+
  note f = call_list_fields [OF assms(3)]
  have none: "\<not> r \<and> actions (calls c) = actions (calls a)"
    if "send_to_udn E udn st lv a1 = (r, c)" for st lv r c
  proof -
    have "rc = WE_STATUS_OK E \<Longrightarrow> refill_cache (listed E l) (mUdnToWemoId a2) udn = None"
      using assms(2,4) f k by (auto simp: refill_cache_eq cache_of_None_iff map_add_None)
    then show ?thesis
      using that assms(2,3) k f by (auto simp: send_to_udn_def Let_def split: if_splits)
  qed
  show ?thesis
    using assms(1,5,6) none k(1)
    by (auto simp: SetOnOff_def SetLevelPercent_def Let_def split: if_splits)
qed

theorem unknown_udn_not_commanded_witness:
  "\<not> fst (SetOnOff (list_engine [lamp_info]) ''uuid:other'' True (started ''x''))"
proof -
  let ?E = "list_engine [lamp_info]"
  have st: "initialized (started ''x'')" "mUdnToWemoId (started ''x'') = Map.empty"
    by (simp_all add: started_def EnsureEngineInitialized_def Let_def new_adapter_def
        list_engine_def MaybeConfigureIpcTarget_def rfind_def log_call_def)
  have e: "EnsureEngineInitialized ?E (started ''x'') = (True, started ''x'')"
    using st(1) by (simp add: EnsureEngineInitialized_def)
  have n: "mUdnToWemoId (started ''x'') ''uuid:other'' = None" using st(2) by simp
  obtain rc l a2 where l: "call_list_devices ?E (call_discover ?E (started ''x'')) = (rc, l, a2)"
    by (metis prod_cases3)
  then have "listed ?E l = [lamp_info]"
    by (auto simp: call_list_devices_def list_engine_def listed_def)
  then have u: "''uuid:other'' \<notin> wi_udn ` set (listed ?E l) \<or> ''uuid:other'' = '''' \<or>
      rc \<noteq> WE_STATUS_OK ?E"
    by (simp add: lamp_info_def)
  obtain ok a' where s: "SetOnOff ?E ''uuid:other'' True (started ''x'') = (ok, a')"
    by (rule prod.exhaust)
  obtain ok' a'' where s2: "SetLevelPercent ?E ''uuid:other'' 40 (started ''x'') = (ok', a'')"
    by (rule prod.exhaust)
  from unknown_udn_not_commanded [OF e n l u s s2, THEN conjunct1] s show ?thesis by simp
qed

lemma rfind_from_append:
  "rfind_from c (xs @ ys) i found = rfind_from c ys (i + length xs) (rfind_from c xs i found)"
  by (induction xs arbitrary: i found) simp_all

lemma rfind_from_absent: "c \<notin> set ys \<Longrightarrow> rfind_from c ys i found = found"
  by (induction ys arbitrary: i) auto

lemma rfind_last: "c \<notin> set ys \<Longrightarrow> rfind c (xs @ c # ys) = Some (length xs)"
  by (simp add: rfind_def rfind_from_append rfind_from_absent)

lemma rfind_None: "c \<notin> set xs \<Longrightarrow> rfind c xs = None"
  by (simp add: rfind_def rfind_from_absent)

text \<open>
  An engine socket printed as host, colon and port is read back as exactly that host and
  port, also when the host itself contains colons; a socket without a colon, with an empty
  host or with an empty port configures nothing.
\<close>

theorem ipc_target_roundtrip:
  assumes "host \<noteq> ''''" and "CHR 0x00 \<notin> set host" and "0 < port" and "int port \<le> INT_MAX"
    and "mEngineSocket a = host @ '':'' @ to_string port"
    and "mEngineSocket b = noport @ '':''" and "CHR '':'' \<notin> set plain" and "mEngineSocket c = plain"
  shows "calls (MaybeConfigureIpcTarget E a) = calls a @ [CSetIpcTarget host (int port)] \<and>
    MaybeConfigureIpcTarget E b = b \<and> MaybeConfigureIpcTarget E c = c"
proof -
  have "CHR '':'' \<notin> set (to_string port)"
    using to_string_digits [of port] by (force simp: is_digit_def)
  then have "rfind (CHR '':'') (mEngineSocket a) = Some (length host)"
    using rfind_last [of "CHR '':''" "to_string port" host] assms(5) by simp
  moreover have "length host + 1 < length (mEngineSocket a)"
    using assms(5) by simp
  moreover have "take (length host) (mEngineSocket a) = host"
    "drop (length host + 1) (mEngineSocket a) = to_string port"
    using assms(5) by simp_all
  moreover have "rfind (CHR '':'') (mEngineSocket b) = Some (length noport)"
    using rfind_last [of "CHR '':''" "''''" noport] assms(6) by simp
  moreover have "rfind (CHR '':'') (mEngineSocket c) = None"
    using assms(7,8) by (simp add: rfind_None)
  ultimately show ?thesis
    using assms(1-4,6) by (simp add: MaybeConfigureIpcTarget_def atoi_to_string cstr_id Let_def)
qed

theorem ipc_target_roundtrip_witness:
  "calls (MaybeConfigureIpcTarget (list_engine [])
     (new_adapter (''127.0.0.1:'' @ to_string 49153) () :: (unit, unit) adapter)) =
   [CSetIpcTarget ''127.0.0.1'' 49153]"
proof -
  let ?a = "new_adapter (''127.0.0.1:'' @ to_string 49153) () :: (unit, unit) adapter"
  let ?b = "new_adapter ''h:'' () :: (unit, unit) adapter"
  let ?c = "new_adapter ''h'' () :: (unit, unit) adapter"
  have s: "mEngineSocket ?a = ''127.0.0.1'' @ '':'' @ to_string 49153"
    "mEngineSocket ?b = ''h'' @ '':''" "mEngineSocket ?c = ''h''"
    by (simp_all add: new_adapter_def)
  have c: "calls ?a = []" by (simp add: new_adapter_def)
  have p: "CHR 0x00 \<notin> set ''127.0.0.1''" "CHR '':'' \<notin> set ''h''" "(0 :: nat) < 49153"
    "''127.0.0.1'' \<noteq> ''''" "int 49153 \<le> INT_MAX"
    by (simp_all add: INT_MAX_def)
  from ipc_target_roundtrip [OF p(4,1,3,5) s(1,2) p(2) s(3), of "list_engine []", THEN conjunct1] c
  show ?thesis by simp
qed

end
