(* ===== verification/Registry.thy ===== *)
theory Registry
  imports Text_Conv
begin

text \<open>
  The endpoint registry of \<^verbatim>\<open>src/matter/endpoint_registry.cpp\<close>: the persistent map from
  WeMo UDNs to Matter endpoint ids, kept in an SQLite database. SQLite is not part of the
  repository: its calls are the fields of a parameter record, and what the registry relies
  on is the predicate \<open>sqlite_documented\<close> about them. Every call may fail; each failure
  branch of the source is a branch of the model.
\<close>

section \<open>The database interface\<close>

datatype sqlval = SNull | SInt int | SText string

datatype open_rc = OpenOk | OpenErr (open_has_handle: bool)

datatype step_rc = StepRow "sqlval list" | StepDone | StepError

record 'db sqlite =
  create_parent_directories :: "string \<Rightarrow> 'db \<Rightarrow> 'db"
  sqlite3_open :: "string \<Rightarrow> 'db \<Rightarrow> open_rc \<times> 'db"
  sqlite3_close :: "'db \<Rightarrow> 'db"
  sqlite3_exec :: "string \<Rightarrow> 'db \<Rightarrow> bool \<times> 'db"
  sqlite3_prepare :: "string \<Rightarrow> 'db \<Rightarrow> bool \<times> 'db"
  sqlite3_bind :: "string \<Rightarrow> nat \<Rightarrow> sqlval \<Rightarrow> 'db \<Rightarrow> bool"
  sqlite3_step :: "string \<Rightarrow> sqlval list \<Rightarrow> 'db \<Rightarrow> step_rc \<times> 'db"
  sqlite3_column_int :: "sqlval \<Rightarrow> int"
  sqlite3_column_text :: "sqlval \<Rightarrow> string option"

text \<open>The SQL texts of the source.\<close>

definition kFirstDynamicEndpointId :: u16 where
  "kFirstDynamicEndpointId = 2"

definition kCreateTablesSql :: string where
  "kCreateTablesSql =
     ''CREATE TABLE IF NOT EXISTS endpoint_map ('' @
     ''  udn TEXT PRIMARY KEY,'' @
     ''  endpoint_id INTEGER NOT NULL UNIQUE'' @
     '');'' @
     ''CREATE TABLE IF NOT EXISTS bridge_meta ('' @
     ''  key TEXT PRIMARY KEY,'' @
     ''  value TEXT NOT NULL'' @
     '');''"

definition kBeginSql :: string where "kBeginSql = ''BEGIN IMMEDIATE TRANSACTION;''"
definition kCommitSql :: string where "kCommitSql = ''COMMIT;''"
definition kRollbackSql :: string where "kRollbackSql = ''ROLLBACK;''"

definition kSelectEndpointSql :: string where
  "kSelectEndpointSql = ''SELECT endpoint_id FROM endpoint_map WHERE udn = ?1;''"

definition kSelectNextSql :: string where
  "kSelectNextSql = ''SELECT value FROM bridge_meta WHERE key = '' @ [CHR 0x27] @
     ''next_endpoint_id'' @ [CHR 0x27] @ '';''"

definition kUpsertNextSql :: string where
  "kUpsertNextSql = ''INSERT INTO bridge_meta(key, value) VALUES('' @ [CHR 0x27] @
     ''next_endpoint_id'' @ [CHR 0x27] @ '', ?1) '' @
     ''ON CONFLICT(key) DO UPDATE SET value = excluded.value;''"

definition kInsertMappingSql :: string where
  "kInsertMappingSql = ''INSERT INTO endpoint_map(udn, endpoint_id) VALUES(?1, ?2);''"

section \<open>The operations\<close>

definition ExecSql :: "'db sqlite \<Rightarrow> string \<Rightarrow> 'db \<Rightarrow> bool \<times> 'db" where
  "ExecSql S sql db = sqlite3_exec S sql db"

definition column :: "sqlval list \<Rightarrow> nat \<Rightarrow> sqlval" where
  "column cols i = (if i < length cols then cols ! i else SNull)"

text \<open>
  The source does not look at the result of a bind. A parameter whose bind failed keeps the
  value that SQLite gives an unbound one, which is NULL.
\<close>

definition bound :: "'db sqlite \<Rightarrow> string \<Rightarrow> nat \<Rightarrow> sqlval \<Rightarrow> 'db \<Rightarrow> sqlval" where
  "bound S sql i v db = (if sqlite3_bind S sql i v db then v else SNull)"

definition QueryEndpointId :: "'db sqlite \<Rightarrow> 'db \<Rightarrow> string \<Rightarrow> u16 option \<times> 'db" where
  "QueryEndpointId S db udn =
     (case sqlite3_prepare S kSelectEndpointSql db of
        (False, db) \<Rightarrow> (None, db)
      | (True, db) \<Rightarrow>
          (case sqlite3_step S kSelectEndpointSql [bound S kSelectEndpointSql 1 (SText (cstr udn)) db] db of
             (StepRow cols, db) \<Rightarrow> (Some (to_u16 (sqlite3_column_int S (column cols 0))), db)
           | (_, db) \<Rightarrow> (None, db)))"

text \<open>\<open>std::stoi\<close> throws on a value that is no number; the exception leaves the registry.\<close>

definition QueryNextEndpointId :: "'db sqlite \<Rightarrow> 'db \<Rightarrow> (stoi_error + u16) \<times> 'db" where
  "QueryNextEndpointId S db =
     (case sqlite3_prepare S kSelectNextSql db of
        (False, db) \<Rightarrow> (Inr kFirstDynamicEndpointId, db)
      | (True, db) \<Rightarrow>
          (case sqlite3_step S kSelectNextSql [] db of
             (StepRow cols, db) \<Rightarrow>
               (case sqlite3_column_text S (column cols 0) of
                  None \<Rightarrow> (Inr kFirstDynamicEndpointId, db)
                | Some v \<Rightarrow> (case stoi v of Inl e \<Rightarrow> (Inl e, db) | Inr i \<Rightarrow> (Inr (to_u16 i), db)))
           | (_, db) \<Rightarrow> (Inr kFirstDynamicEndpointId, db)))"

definition UpsertNextEndpointId :: "'db sqlite \<Rightarrow> 'db \<Rightarrow> u16 \<Rightarrow> bool \<times> 'db" where
  "UpsertNextEndpointId S db next_id =
     (case sqlite3_prepare S kUpsertNextSql db of
        (False, db) \<Rightarrow> (False, db)
      | (True, db) \<Rightarrow>
          (let next_id_str = to_string (unat next_id);
               (rc, db) = sqlite3_step S kUpsertNextSql [bound S kUpsertNextSql 1 (SText (cstr next_id_str)) db] db
           in (rc = StepDone, db)))"

definition InsertMapping :: "'db sqlite \<Rightarrow> 'db \<Rightarrow> string \<Rightarrow> u16 \<Rightarrow> bool \<times> 'db" where
  "InsertMapping S db udn endpoint_id =
     (case sqlite3_prepare S kInsertMappingSql db of
        (False, db) \<Rightarrow> (False, db)
      | (True, db) \<Rightarrow>
          (let (rc, db) = sqlite3_step S kInsertMappingSql
                 [bound S kInsertMappingSql 1 (SText (cstr udn)) db,
                  bound S kInsertMappingSql 2 (SInt (uint endpoint_id)) db] db
           in (rc = StepDone, db)))"

text \<open>The opening lines that \<open>Lookup\<close> and \<open>GetOrAssign\<close> share.\<close>

definition has_parent_path :: "string \<Rightarrow> bool" where
  "has_parent_path p = (CHR ''/'' \<in> set p)"

definition open_registry :: "'db sqlite \<Rightarrow> string \<Rightarrow> 'db \<Rightarrow> bool \<times> 'db" where
  "open_registry S mPath db0 =
     (let db1 = (if has_parent_path mPath then create_parent_directories S mPath db0 else db0)
      in case sqlite3_open S (cstr mPath) db1 of
           (OpenOk, db2) \<Rightarrow> (True, db2)
         | (OpenErr handle, db2) \<Rightarrow> (False, if handle then sqlite3_close S db2 else db2))"

definition Lookup :: "'db sqlite \<Rightarrow> string \<Rightarrow> string \<Rightarrow> 'db \<Rightarrow> u16 option \<times> 'db" where
  "Lookup S mPath udn db0 =
     (case open_registry S mPath db0 of
        (False, db) \<Rightarrow> (None, db)
      | (True, db) \<Rightarrow>
          (case ExecSql S kCreateTablesSql db of
             (False, db) \<Rightarrow> (None, sqlite3_close S db)
           | (True, db) \<Rightarrow>
               (let (endpoint_id, db) = QueryEndpointId S db udn
                in (endpoint_id, sqlite3_close S db))))"

text \<open>The part of \<open>GetOrAssign\<close> after the transaction has begun.\<close>

definition assign_new :: "'db sqlite \<Rightarrow> string \<Rightarrow> 'db \<Rightarrow> (stoi_error + u16 option) \<times> 'db" where
  "assign_new S udn db =
     (case QueryNextEndpointId S db of
        (Inl e, db) \<Rightarrow> (Inl e, db)
      | (Inr endpoint_id, db) \<Rightarrow>
          (let next_id = endpoint_id + 1;
               (ok, db) = InsertMapping S db udn endpoint_id;
               (ok, db) = (if ok then UpsertNextEndpointId S db next_id else (False, db))
           in if \<not> ok
              then (Inr None, sqlite3_close S (snd (ExecSql S kRollbackSql db)))
              else (Inr (Some endpoint_id), sqlite3_close S (snd (ExecSql S kCommitSql db)))))"

definition GetOrAssign ::
    "'db sqlite \<Rightarrow> string \<Rightarrow> string \<Rightarrow> 'db \<Rightarrow> (stoi_error + u16 option) \<times> 'db" where
  "GetOrAssign S mPath udn db0 =
     (case open_registry S mPath db0 of
        (False, db) \<Rightarrow> (Inr None, db)
      | (True, db) \<Rightarrow>
          (let (ok, db) = ExecSql S kCreateTablesSql db;
               (ok, db) = (if ok then ExecSql S kBeginSql db else (False, db))
           in if \<not> ok then (Inr None, sqlite3_close S db)
              else case QueryEndpointId S db udn of
                  (Some e, db) \<Rightarrow>
                    (Inr (Some e), sqlite3_close S (snd (ExecSql S kCommitSql db)))
                | (None, db) \<Rightarrow> assign_new S udn db))"

section \<open>What the registry relies on in SQLite\<close>

text \<open>
  A view of the database: the tables a statement of the open connection sees, the tables
  that survive a close (the last committed ones), and whether a transaction is active.
  Absent tables count as empty. The primary key of \<open>endpoint_map\<close> is a text, so SQLite
  accepts rows whose UDN is NULL; of those only the endpoint ids matter.
\<close>

record reg_tables =
  endpoint_map :: "string \<rightharpoonup> int"
  unnamed_ids :: "int set"
  bridge_meta :: "string \<rightharpoonup> string"

record 'db sql_view =
  visible :: "'db \<Rightarrow> reg_tables"
  durable :: "'db \<Rightarrow> reg_tables"
  in_transaction :: "'db \<Rightarrow> bool"

definition kNextKey :: string where "kNextKey = ''next_endpoint_id''"

definition used_ids :: "reg_tables \<Rightarrow> int set" where
  "used_ids T = ran (endpoint_map T) \<union> unnamed_ids T"

definition insert_row :: "sqlval \<Rightarrow> int \<Rightarrow> reg_tables \<Rightarrow> reg_tables" where
  "insert_row p v T =
     (case p of
        SText u \<Rightarrow> T\<lparr>endpoint_map := (endpoint_map T)(u \<mapsto> v)\<rparr>
      | _ \<Rightarrow> T\<lparr>unnamed_ids := insert v (unnamed_ids T)\<rparr>)"

definition set_counter :: "string \<Rightarrow> reg_tables \<Rightarrow> reg_tables" where
  "set_counter s T = T\<lparr>bridge_meta := (bridge_meta T)(kNextKey \<mapsto> s)\<rparr>"

text \<open>
  What a call may do to the database. A call that fails may also end the active transaction
  by an automatic rollback, after which the statements that follow commit one by one.
\<close>

definition unchanged :: "'db sql_view \<Rightarrow> 'db \<Rightarrow> 'db \<Rightarrow> bool" where
  "unchanged V db db' \<longleftrightarrow> visible V db' = visible V db \<and> durable V db' = durable V db \<and>
     in_transaction V db' = in_transaction V db"

definition rolled_back :: "'db sql_view \<Rightarrow> 'db \<Rightarrow> 'db \<Rightarrow> bool" where
  "rolled_back V db db' \<longleftrightarrow> visible V db' = durable V db \<and> durable V db' = durable V db \<and>
     \<not> in_transaction V db'"

definition failed :: "'db sql_view \<Rightarrow> 'db \<Rightarrow> 'db \<Rightarrow> bool" where
  "failed V db db' \<longleftrightarrow> unchanged V db db' \<or> rolled_back V db db'"

definition written :: "'db sql_view \<Rightarrow> (reg_tables \<Rightarrow> reg_tables) \<Rightarrow> 'db \<Rightarrow> 'db \<Rightarrow> bool" where
  "written V f db db' \<longleftrightarrow> visible V db' = f (visible V db) \<and>
     in_transaction V db' = in_transaction V db \<and>
     durable V db' = (if in_transaction V db then durable V db else f (visible V db))"

text \<open>Opening shows the committed tables; closing gives up what is not committed.\<close>

definition open_close_documented :: "'db sqlite \<Rightarrow> 'db sql_view \<Rightarrow> bool" where
  "open_close_documented S V \<longleftrightarrow>
     (\<forall>p db. durable V (create_parent_directories S p db) = durable V db) \<and>
     (\<forall>p db rc db'. sqlite3_open S p db = (rc, db') \<longrightarrow>
        durable V db' = durable V db \<and>
        (rc = OpenOk \<longrightarrow> visible V db' = durable V db \<and> \<not> in_transaction V db')) \<and>
     (\<forall>db. durable V (sqlite3_close S db) = durable V db)"

definition exec_documented :: "'db sqlite \<Rightarrow> 'db sql_view \<Rightarrow> bool" where
  "exec_documented S V \<longleftrightarrow>
     (\<forall>db ok db'. sqlite3_exec S kCreateTablesSql db = (ok, db') \<longrightarrow> \<not> in_transaction V db \<longrightarrow>
        durable V db' = durable V db \<and>
        (ok \<longrightarrow> visible V db' = visible V db \<and> \<not> in_transaction V db')) \<and>
     (\<forall>db ok db'. sqlite3_exec S kBeginSql db = (ok, db') \<longrightarrow> \<not> in_transaction V db \<longrightarrow>
        durable V db' = durable V db \<and>
        (ok \<longrightarrow> visible V db' = durable V db \<and> in_transaction V db')) \<and>
     (\<forall>db ok db'. sqlite3_exec S kCommitSql db = (ok, db') \<longrightarrow>
        durable V db' = (if ok \<and> in_transaction V db then visible V db else durable V db)) \<and>
     (\<forall>db ok db'. sqlite3_exec S kRollbackSql db = (ok, db') \<longrightarrow>
        durable V db' = durable V db)"

definition prepare_documented :: "'db sqlite \<Rightarrow> 'db sql_view \<Rightarrow> bool" where
  "prepare_documented S V \<longleftrightarrow>
     (\<forall>sql db ok db'. sqlite3_prepare S sql db = (ok, db') \<longrightarrow>
        (if ok then unchanged V db db' else failed V db db'))"

text \<open>
  A query changes nothing unless it fails. No UDN equals NULL, so a query whose parameter is
  NULL finds no row. The text of a column can be missing when there is no memory for it.
\<close>

definition text_param :: "sqlval \<Rightarrow> bool" where
  "text_param p \<longleftrightarrow> (\<forall>i. p \<noteq> SInt i)"

definition select_documented :: "'db sqlite \<Rightarrow> 'db sql_view \<Rightarrow> bool" where
  "select_documented S V \<longleftrightarrow>
     (\<forall>p db rc db'. sqlite3_step S kSelectEndpointSql [p] db = (rc, db') \<longrightarrow> text_param p \<longrightarrow>
        (if rc = StepError then failed V db db' else unchanged V db db') \<and>
        (\<forall>cols. rc = StepRow cols \<longrightarrow>
           (\<exists>u v. p = SText u \<and> column cols 0 = SInt v \<and> endpoint_map (visible V db) u = Some v)) \<and>
        (rc = StepDone \<longrightarrow> (\<forall>u. p = SText u \<longrightarrow> endpoint_map (visible V db) u = None))) \<and>
     (\<forall>db rc db'. sqlite3_step S kSelectNextSql [] db = (rc, db') \<longrightarrow>
        (if rc = StepError then failed V db db' else unchanged V db db') \<and>
        (\<forall>cols. rc = StepRow cols \<longrightarrow>
           (\<exists>s. column cols 0 = SText s \<and> bridge_meta (visible V db) kNextKey = Some s)) \<and>
        (rc = StepDone \<longrightarrow> bridge_meta (visible V db) kNextKey = None)) \<and>
     (\<forall>v. sqlite3_column_int S (SInt v) = sint (word_of_int v :: 32 word)) \<and>
     (\<forall>s. sqlite3_column_text S (SText s) \<in> {None, Some s})"

text \<open>
  An insert succeeds only when the id is not NULL and neither the primary key nor the unique
  column is taken; the counter is not set to NULL. Inside a transaction a successful write
  becomes visible, outside it is committed at once.
\<close>

definition write_documented :: "'db sqlite \<Rightarrow> 'db sql_view \<Rightarrow> bool" where
  "write_documented S V \<longleftrightarrow>
     (\<forall>p q db rc db'. sqlite3_step S kInsertMappingSql [p, q] db = (rc, db') \<longrightarrow> text_param p \<longrightarrow>
        (if rc = StepDone
         then \<exists>v. q = SInt v \<and> v \<notin> used_ids (visible V db) \<and>
           (\<forall>u. p = SText u \<longrightarrow> endpoint_map (visible V db) u = None) \<and>
           written V (insert_row p v) db db'
         else failed V db db')) \<and>
     (\<forall>p db rc db'. sqlite3_step S kUpsertNextSql [p] db = (rc, db') \<longrightarrow> text_param p \<longrightarrow>
        (if rc = StepDone then \<exists>s. p = SText s \<and> written V (set_counter s) db db' else failed V db db'))"

definition sqlite_documented :: "'db sqlite \<Rightarrow> 'db sql_view \<Rightarrow> bool" where
  "sqlite_documented S V \<longleftrightarrow>
     open_close_documented S V \<and> exec_documented S V \<and> prepare_documented S V \<and>
     select_documented S V \<and> write_documented S V"

text \<open>Faults that a database may be free of.\<close>

definition binds_succeed :: "'db sqlite \<Rightarrow> bool" where
  "binds_succeed S \<longleftrightarrow> (\<forall>sql i v db. sqlite3_bind S sql i v db)"

definition transactions_last :: "'db sqlite \<Rightarrow> 'db sql_view \<Rightarrow> bool" where
  "transactions_last S V \<longleftrightarrow>
     (\<forall>sql db. in_transaction V (snd (sqlite3_prepare S sql db)) = in_transaction V db) \<and>
     (\<forall>sql ps db. in_transaction V (snd (sqlite3_step S sql ps db)) = in_transaction V db)"

text \<open>
  A database that works, apart from binds and commits: every other call that the
  documentation allows to succeed does. Without faults, binds and commits succeed too.
\<close>

definition opens_work :: "'db sqlite \<Rightarrow> 'db sql_view \<Rightarrow> bool" where
  "opens_work S V \<longleftrightarrow>
     (\<forall>p db. fst (sqlite3_open S p db) = OpenOk) \<and>
     (\<forall>db. fst (sqlite3_exec S kCreateTablesSql db)) \<and>
     (\<forall>db. \<not> in_transaction V db \<longrightarrow> fst (sqlite3_exec S kBeginSql db)) \<and>
     (\<forall>sql\<in>{kSelectEndpointSql, kSelectNextSql, kInsertMappingSql, kUpsertNextSql}. \<forall>db.
        fst (sqlite3_prepare S sql db))"

definition queries_work :: "'db sqlite \<Rightarrow> bool" where
  "queries_work S \<longleftrightarrow> (\<forall>p db. text_param p \<longrightarrow> fst (sqlite3_step S kSelectEndpointSql [p] db) \<noteq> StepError)"

definition counter_queries_work :: "'db sqlite \<Rightarrow> bool" where
  "counter_queries_work S \<longleftrightarrow> (\<forall>db. fst (sqlite3_step S kSelectNextSql [] db) \<noteq> StepError) \<and>
     (\<forall>s. sqlite3_column_text S (SText s) = Some s)"

definition inserts_work :: "'db sqlite \<Rightarrow> 'db sql_view \<Rightarrow> bool" where
  "inserts_work S V \<longleftrightarrow>
     (\<forall>p v db. text_param p \<longrightarrow> v \<notin> used_ids (visible V db) \<longrightarrow>
        (\<forall>u. p = SText u \<longrightarrow> endpoint_map (visible V db) u = None) \<longrightarrow>
        fst (sqlite3_step S kInsertMappingSql [p, SInt v] db) = StepDone)"

definition updates_work :: "'db sqlite \<Rightarrow> bool" where
  "updates_work S \<longleftrightarrow> (\<forall>s db. fst (sqlite3_step S kUpsertNextSql [SText s] db) = StepDone)"

definition sqlite_working :: "'db sqlite \<Rightarrow> 'db sql_view \<Rightarrow> bool" where
  "sqlite_working S V \<longleftrightarrow> opens_work S V \<and> queries_work S \<and> counter_queries_work S \<and>
     inserts_work S V \<and> updates_work S"

definition commits_succeed :: "'db sqlite \<Rightarrow> 'db sql_view \<Rightarrow> bool" where
  "commits_succeed S V \<longleftrightarrow> (\<forall>db. in_transaction V db \<longrightarrow> fst (sqlite3_exec S kCommitSql db))"

definition sqlite_faultless :: "'db sqlite \<Rightarrow> 'db sql_view \<Rightarrow> bool" where
  "sqlite_faultless S V \<longleftrightarrow> sqlite_working S V \<and> binds_succeed S \<and> commits_succeed S V"

section \<open>The assignment on tables\<close>

text \<open>The next free id the tables record.\<close>

definition next_counter :: "reg_tables \<Rightarrow> stoi_error + u16" where
  "next_counter T =
     (case bridge_meta T kNextKey of
        None \<Rightarrow> Inr kFirstDynamicEndpointId
      | Some s \<Rightarrow> (case stoi s of Inl e \<Rightarrow> Inl e | Inr i \<Rightarrow> Inr (to_u16 i)))"

definition assign :: "reg_tables \<Rightarrow> string \<Rightarrow> u16 \<Rightarrow> reg_tables" where
  "assign T udn e =
     T\<lparr>endpoint_map := (endpoint_map T)(cstr udn \<mapsto> uint e),
       bridge_meta := (bridge_meta T)(kNextKey \<mapsto> to_string (unat (e + 1)))\<rparr>"

definition assigned_id :: "reg_tables \<Rightarrow> string \<Rightarrow> u16 option" where
  "assigned_id T udn = map_option to_u16 (endpoint_map T (cstr udn))"

text \<open>What \<open>GetOrAssign\<close> does, on tables, when nothing fails.\<close>

definition get_or_assign_spec :: "reg_tables \<Rightarrow> string \<Rightarrow> (stoi_error + u16 option) \<times> reg_tables" where
  "get_or_assign_spec T udn =
     (case assigned_id T udn of
        Some e \<Rightarrow> (Inr (Some e), T)
      | None \<Rightarrow>
          (case next_counter T of
             Inl err \<Rightarrow> (Inl err, T)
           | Inr e \<Rightarrow> if uint e \<in> used_ids T then (Inr None, T)
                       else (Inr (Some e), assign T udn e)))"

section \<open>What each step keeps\<close>

text \<open>Between \<open>BEGIN\<close> and the first write, nothing is uncommitted.\<close>

definition clean :: "'db sql_view \<Rightarrow> reg_tables \<Rightarrow> 'db \<Rightarrow> bool" where
  "clean V T db \<longleftrightarrow> visible V db = T \<and> durable V db = T"

lemma clean_kept:
  "clean V T db \<Longrightarrow> failed V db db' \<Longrightarrow> clean V T db'"
  "clean V T db \<Longrightarrow> unchanged V db db' \<Longrightarrow> clean V T db'"
  by (auto simp: clean_def failed_def unchanged_def rolled_back_def)

lemma failed_trans: "unchanged V db db1 \<Longrightarrow> failed V db1 db2 \<Longrightarrow> failed V db db2"
  by (auto simp: failed_def unchanged_def rolled_back_def)

lemma failed_durable: "failed V db db' \<Longrightarrow> durable V db' = durable V db"
  by (auto simp: failed_def unchanged_def rolled_back_def)

lemma unchanged_trans: "unchanged V db db1 \<Longrightarrow> unchanged V db1 db2 \<Longrightarrow> unchanged V db db2"
  by (simp add: unchanged_def)

lemma written_trans: "unchanged V db db1 \<Longrightarrow> written V f db1 db2 \<Longrightarrow> written V f db db2"
  by (auto simp: unchanged_def written_def)

lemma to_u16_column_int:
  "select_documented S V \<Longrightarrow> to_u16 (sqlite3_column_int S (SInt v)) = to_u16 v"
proof -
  assume "select_documented S V"
  then have "sqlite3_column_int S (SInt v) = sint (word_of_int v :: 32 word)"
    by (simp add: select_documented_def)
  moreover have "(word_of_int (sint (word_of_int v :: 32 word)) :: u16) = word_of_int v"
    by (simp add: signed_of_int word_of_int_eq_iff take_bit_signed_take_bit)
  ultimately show ?thesis by (simp add: to_u16_def)
qed

lemma open_registry_keeps:
  assumes "sqlite_documented S V" and "open_registry S p db = (ok, db')"
  shows "durable V db' = durable V db \<and>
    (ok \<longrightarrow> visible V db' = durable V db \<and> \<not> in_transaction V db')"
  using assms
  by (auto simp: open_registry_def sqlite_documented_def open_close_documented_def Let_def
      split: prod.splits open_rc.splits if_splits)

lemma open_registry_working: "opens_work S V \<Longrightarrow> open_registry S p db = (ok, db') \<Longrightarrow> ok"
  unfolding opens_work_def open_registry_def Let_def
  by (auto split: prod.splits open_rc.splits) (metis fst_conv open_rc.distinct(1))

lemma close_keeps: "sqlite_documented S V \<Longrightarrow> durable V (sqlite3_close S db) = durable V db"
  by (simp add: sqlite_documented_def open_close_documented_def)

lemma exec_keeps:
  assumes "sqlite_documented S V"
  shows "ExecSql S kCreateTablesSql db = (ok, db') \<Longrightarrow> \<not> in_transaction V db \<Longrightarrow>
      durable V db' = durable V db \<and>
      (ok \<longrightarrow> visible V db' = visible V db \<and> \<not> in_transaction V db')"
    and "ExecSql S kBeginSql db = (ok, db') \<Longrightarrow> \<not> in_transaction V db \<Longrightarrow>
      durable V db' = durable V db \<and>
      (ok \<longrightarrow> visible V db' = durable V db \<and> in_transaction V db')"
    and "ExecSql S kCommitSql db = (ok, db') \<Longrightarrow>
      durable V db' = (if ok \<and> in_transaction V db then visible V db else durable V db)"
    and "ExecSql S kRollbackSql db = (ok, db') \<Longrightarrow> durable V db' = durable V db"
  using assms unfolding sqlite_documented_def exec_documented_def ExecSql_def by blast+

lemma prepare_keeps:
  "sqlite_documented S V \<Longrightarrow> sqlite3_prepare S sql db = (ok, db') \<Longrightarrow>
   if ok then unchanged V db db' else failed V db db'"
  unfolding sqlite_documented_def prepare_documented_def by blast

lemma bound_cases: "bound S sql i v db = v \<or> bound S sql i v db = SNull \<and> \<not> binds_succeed S"
  by (auto simp: bound_def binds_succeed_def)

lemma bound_text [simp]: "text_param (bound S sql i (SText u) db)"
  by (simp add: bound_def text_param_def)

lemma select_endpoint_step:
  assumes "sqlite_documented S V" and "sqlite3_step S kSelectEndpointSql [p] db = (rc, db')" and "text_param p"
  shows "if rc = StepError then failed V db db' else unchanged V db db'"
    and "rc = StepRow cols \<Longrightarrow>
      \<exists>u v. p = SText u \<and> column cols 0 = SInt v \<and> endpoint_map (visible V db) u = Some v"
    and "rc = StepDone \<Longrightarrow> p = SText u \<Longrightarrow> endpoint_map (visible V db) u = None"
proof -
  have "select_documented S V" using assms(1) by (simp add: sqlite_documented_def)
  note d = this [unfolded select_documented_def, THEN conjunct1, rule_format, OF assms(2,3)]
  show "if rc = StepError then failed V db db' else unchanged V db db'" using d by blast
  show "rc = StepRow cols \<Longrightarrow>
      \<exists>u v. p = SText u \<and> column cols 0 = SInt v \<and> endpoint_map (visible V db) u = Some v"
    using d by blast
  show "rc = StepDone \<Longrightarrow> p = SText u \<Longrightarrow> endpoint_map (visible V db) u = None" using d by blast
qed

lemma select_next_step:
  assumes "sqlite_documented S V" and "sqlite3_step S kSelectNextSql [] db = (rc, db')"
  shows "if rc = StepError then failed V db db' else unchanged V db db'"
    and "rc = StepRow cols \<Longrightarrow>
      \<exists>s. column cols 0 = SText s \<and> bridge_meta (visible V db) kNextKey = Some s"
    and "rc = StepDone \<Longrightarrow> bridge_meta (visible V db) kNextKey = None"
proof -
  have "select_documented S V" using assms(1) by (simp add: sqlite_documented_def)
  note d = this [unfolded select_documented_def, THEN conjunct2, THEN conjunct1, rule_format, OF assms(2)]
  show "if rc = StepError then failed V db db' else unchanged V db db'" using d by blast
  show "rc = StepRow cols \<Longrightarrow>
      \<exists>s. column cols 0 = SText s \<and> bridge_meta (visible V db) kNextKey = Some s"
    using d by blast
  show "rc = StepDone \<Longrightarrow> bridge_meta (visible V db) kNextKey = None" using d by blast
qed

lemma QueryEndpointId_keeps:
  assumes doc: "sqlite_documented S V" and q: "QueryEndpointId S db udn = (r, db')"
  shows "failed V db db' \<and> (\<forall>e. r = Some e \<longrightarrow> assigned_id (visible V db) udn = Some e)"
proof -
  have sd: "select_documented S V" using doc by (simp add: sqlite_documented_def)
  obtain ok db1 where p: "sqlite3_prepare S kSelectEndpointSql db = (ok, db1)" by fastforce
  note k1 = prepare_keeps [OF doc p]
  show ?thesis
  proof (cases ok)
    case False
    then show ?thesis using q p k1 by (simp add: QueryEndpointId_def)
  next
    case True
    let ?p = "bound S kSelectEndpointSql 1 (SText (cstr udn)) db1"
    obtain rc db2 where st: "sqlite3_step S kSelectEndpointSql [?p] db1 = (rc, db2)" by fastforce
    note k2 = select_endpoint_step [OF doc st bound_text]
    have same: "visible V db1 = visible V db" using k1 True by (simp add: unchanged_def)
    have "db' = db2" and r: "r = (case rc of StepRow cols \<Rightarrow> Some (to_u16 (sqlite3_column_int S (column cols 0)))
        | _ \<Rightarrow> None)"
      using q p True st by (auto simp: QueryEndpointId_def split: step_rc.splits)
    moreover have "failed V db db2"
      using k1 k2(1) True failed_trans [of V db db1 db2] unchanged_trans [of V db db1 db2]
      by (auto simp: failed_def split: if_splits)
    moreover have "assigned_id (visible V db) udn = Some e" if "r = Some e" for e
    proof -
      from that r obtain cols where c: "rc = StepRow cols" "e = to_u16 (sqlite3_column_int S (column cols 0))"
        by (auto split: step_rc.splits)
      from k2(2) [OF this(1)] obtain u v where v: "?p = SText u" "column cols 0 = SInt v"
        "endpoint_map (visible V db) u = Some v" using same by auto
      moreover from this(1) have "u = cstr udn" by (auto simp: bound_def split: if_splits)
      ultimately show ?thesis using c(2) to_u16_column_int [OF sd, of v] by (simp add: assigned_id_def)
    qed
    ultimately show ?thesis by blast
  qed
qed

lemma QueryNextEndpointId_keeps:
  assumes doc: "sqlite_documented S V" and q: "QueryNextEndpointId S db = (r, db')"
  shows "failed V db db' \<and> (r = next_counter (visible V db) \<or> r = Inr kFirstDynamicEndpointId)"
proof -
  obtain ok db1 where p: "sqlite3_prepare S kSelectNextSql db = (ok, db1)" by fastforce
  note k1 = prepare_keeps [OF doc p]
  show ?thesis
  proof (cases ok)
    case False
    then show ?thesis using q p k1 by (simp add: QueryNextEndpointId_def)
  next
    case True
    obtain rc db2 where st: "sqlite3_step S kSelectNextSql [] db1 = (rc, db2)" by fastforce
    note k2 = select_next_step [OF doc st]
    have same: "visible V db1 = visible V db" using k1 True by (simp add: unchanged_def)
    have f: "failed V db db2"
      using k1 k2(1) True failed_trans [of V db db1 db2] unchanged_trans [of V db db1 db2]
      by (auto simp: failed_def split: if_splits)
    have sd: "select_documented S V" using doc by (simp add: sqlite_documented_def)
    show ?thesis
    proof (cases rc)
      case (StepRow cols)
      from k2(2) [OF this] obtain s where s: "column cols 0 = SText s"
        "bridge_meta (visible V db) kNextKey = Some s" using same by auto
      have "sqlite3_column_text S (SText s) \<in> {None, Some s}"
        using sd unfolding select_documented_def by blast
      then show ?thesis
        using q p True st StepRow f s
        by (auto simp: QueryNextEndpointId_def next_counter_def split: sum.splits)
    qed (use q p True st f in \<open>auto simp: QueryNextEndpointId_def\<close>)
  qed
qed

text \<open>The row an insert stores: under the UDN, or under no name when its bind failed.\<close>

definition row_of :: "'db sqlite \<Rightarrow> string \<Rightarrow> sqlval \<Rightarrow> bool" where
  "row_of S udn p \<longleftrightarrow> p = SText (cstr udn) \<or> p = SNull \<and> \<not> binds_succeed S"

definition insertable :: "reg_tables \<Rightarrow> sqlval \<Rightarrow> int \<Rightarrow> bool" where
  "insertable T p v \<longleftrightarrow> v \<notin> used_ids T \<and> (\<forall>u. p = SText u \<longrightarrow> endpoint_map T u = None)"

lemma InsertMapping_keeps:
  assumes doc: "sqlite_documented S V" and i: "InsertMapping S db udn e = (ok, db')"
  shows "if ok then \<exists>p. row_of S udn p \<and> insertable (visible V db) p (uint e) \<and>
      written V (insert_row p (uint e)) db db' else failed V db db'"
proof -
  have w: "write_documented S V" using doc by (simp add: sqlite_documented_def)
  obtain ok1 db1 where p: "sqlite3_prepare S kInsertMappingSql db = (ok1, db1)" by fastforce
  note k1 = prepare_keeps [OF doc p]
  show ?thesis
  proof (cases ok1)
    case False
    then show ?thesis using i p k1 by (simp add: InsertMapping_def)
  next
    case True
    let ?p = "bound S kInsertMappingSql 1 (SText (cstr udn)) db1"
    let ?q = "bound S kInsertMappingSql 2 (SInt (uint e)) db1"
    obtain rc db2 where st: "sqlite3_step S kInsertMappingSql [?p, ?q] db1 = (rc, db2)" by fastforce
    note k2 = w [unfolded write_documented_def, THEN conjunct1, rule_format, OF st bound_text]
    have o: "ok = (rc = StepDone)" "db' = db2" using i p True st by (auto simp: InsertMapping_def)
    have u: "unchanged V db db1" using k1 True by simp
    show ?thesis
    proof (cases "rc = StepDone")
      case True
      with k2 obtain v where v: "?q = SInt v" "v \<notin> used_ids (visible V db1)"
        "\<forall>u. ?p = SText u \<longrightarrow> endpoint_map (visible V db1) u = None" "written V (insert_row ?p v) db1 db2"
        by auto
      have "v = uint e" using v(1) by (auto simp: bound_def split: if_splits)
      then have "insertable (visible V db) ?p (uint e)" "written V (insert_row ?p (uint e)) db db2"
        using v u written_trans [OF u] by (auto simp: insertable_def unchanged_def)
      moreover have "row_of S udn ?p" using bound_cases by (simp add: row_of_def)
      ultimately show ?thesis using o True by auto
    next
      case False
      then show ?thesis using k2 o failed_trans [OF u] by simp
    qed
  qed
qed

lemma UpsertNextEndpointId_keeps:
  assumes doc: "sqlite_documented S V" and i: "UpsertNextEndpointId S db n = (ok, db')"
  shows "if ok then written V (set_counter (to_string (unat n))) db db' else failed V db db'"
proof -
  have w: "write_documented S V" using doc by (simp add: sqlite_documented_def)
  obtain ok1 db1 where p: "sqlite3_prepare S kUpsertNextSql db = (ok1, db1)" by fastforce
  note k1 = prepare_keeps [OF doc p]
  show ?thesis
  proof (cases ok1)
    case False
    then show ?thesis using i p k1 by (simp add: UpsertNextEndpointId_def)
  next
    case True
    let ?p = "bound S kUpsertNextSql 1 (SText (cstr (to_string (unat n)))) db1"
    obtain rc db2 where st: "sqlite3_step S kUpsertNextSql [?p] db1 = (rc, db2)" by fastforce
    note k2 = w [unfolded write_documented_def, THEN conjunct2, rule_format, OF st bound_text]
    have o: "ok = (rc = StepDone)" "db' = db2"
      using i p True st by (auto simp: UpsertNextEndpointId_def Let_def)
    have u: "unchanged V db db1" using k1 True by simp
    show ?thesis
    proof (cases "rc = StepDone")
      case True
      with k2 obtain s where s: "?p = SText s" "written V (set_counter s) db1 db2" by auto
      have "s = to_string (unat n)" using s(1) by (auto simp: bound_def split: if_splits)
      then show ?thesis using o True s(2) written_trans [OF u] by simp
    next
      case False
      then show ?thesis using k2 o failed_trans [OF u] by simp
    qed
  qed
qed

text \<open>Without automatic rollbacks the queries leave the transaction active.\<close>

lemma query_transaction:
  assumes "transactions_last S V"
  shows "QueryEndpointId S db udn = (r, db') \<Longrightarrow> in_transaction V db' = in_transaction V db"
    and "QueryNextEndpointId S db = (x, db') \<Longrightarrow> in_transaction V db' = in_transaction V db"
proof -
  have p: "in_transaction V db1 = in_transaction V db" if "sqlite3_prepare S sql db = (ok, db1)" for sql ok db db1
    using assms that unfolding transactions_last_def by (metis snd_conv)
  have q: "in_transaction V db1 = in_transaction V db" if "sqlite3_step S sql ps db = (rc, db1)" for sql ps rc db db1
    using assms that unfolding transactions_last_def by (metis snd_conv)
  show "QueryEndpointId S db udn = (r, db') \<Longrightarrow> in_transaction V db' = in_transaction V db"
    by (auto simp: QueryEndpointId_def dest!: p q split: prod.splits bool.splits step_rc.splits)
  show "QueryNextEndpointId S db = (x, db') \<Longrightarrow> in_transaction V db' = in_transaction V db"
    by (auto simp: QueryNextEndpointId_def dest!: p q
        split: prod.splits bool.splits step_rc.splits option.splits sum.splits)
qed

section \<open>The outcomes of an assignment\<close>

text \<open>
  A row that \<open>assign_new\<close> may store: its id is unused, and either the recorded counter or, when
  the counter could not be read, the first dynamic id.
\<close>

definition fresh_row :: "reg_tables \<Rightarrow> sqlval \<Rightarrow> u16 \<Rightarrow> bool" where
  "fresh_row T p e \<longleftrightarrow>
     (next_counter T = Inr e \<or> e = kFirstDynamicEndpointId) \<and> insertable T p (uint e)"

definition assign_row :: "sqlval \<Rightarrow> u16 \<Rightarrow> reg_tables \<Rightarrow> reg_tables" where
  "assign_row p e T = set_counter (to_string (unat (e + 1))) (insert_row p (uint e) T)"

lemma assign_row_named: "assign_row (SText (cstr udn)) e T = assign T udn e"
  by (simp add: assign_row_def assign_def set_counter_def insert_row_def)

text \<open>
  After a successful insert and update: in the transaction, or already committed when the
  transaction had been lost before.
\<close>

lemma both_written:
  assumes "written V (insert_row p (uint e)) db1 db2"
    and "written V (set_counter (to_string (unat (e + 1)))) db2 db3" and "clean V T db1"
  shows "visible V db3 = assign_row p e T \<and> durable V db3 \<in> {T, assign_row p e T}"
  using assms by (auto simp: written_def clean_def assign_row_def)

lemma assign_new_cases:
  assumes doc: "sqlite_documented S V" and run: "assign_new S udn db = (r, db')" and cl: "clean V T db"
  shows "durable V db' = T \<and> (\<forall>e. r \<noteq> Inr (Some e)) \<or>
    (\<exists>e p. row_of S udn p \<and> fresh_row T p e \<and>
       (r = Inr None \<and> durable V db' = insert_row p (uint e) T \<and>
          \<not> (transactions_last S V \<and> in_transaction V db) \<or>
        r = Inr (Some e) \<and> durable V db' \<in> {T, assign_row p e T}))"
proof -
  obtain q db1 where q: "QueryNextEndpointId S db = (q, db1)" by fastforce
  have cl1: "clean V T db1" and cnt: "q = next_counter T \<or> q = Inr kFirstDynamicEndpointId"
    using QueryNextEndpointId_keeps [OF doc q] clean_kept(1) [OF cl] cl by (auto simp: clean_def)
  have tx1: "in_transaction V db1" if "transactions_last S V" "in_transaction V db"
    using query_transaction(2) [OF that(1) q] that(2) by simp
  show ?thesis
  proof (cases q)
    case (Inl x)
    then show ?thesis using run q cl1 by (auto simp: assign_new_def clean_def)
  next
    case (Inr e)
    obtain ok2 db2 where i: "InsertMapping S db1 udn e = (ok2, db2)" by fastforce
    note k2 = InsertMapping_keeps [OF doc i]
    show ?thesis
    proof (cases ok2)
      case False
      obtain ok4 db4 where c: "ExecSql S kRollbackSql db2 = (ok4, db4)" by fastforce
      have "r = Inr None" "db' = sqlite3_close S db4"
        using run q Inr i False c by (simp_all add: assign_new_def)
      then show ?thesis
        using exec_keeps(4) [OF doc c] k2 failed_durable [of V db1 db2] cl1 False
        by (simp add: close_keeps [OF doc] clean_def)
    next
      case ok2: True
      with k2 obtain p where p: "row_of S udn p" "insertable (visible V db1) p (uint e)"
        "written V (insert_row p (uint e)) db1 db2" by auto
      have fr: "fresh_row T p e" using p(2) cnt Inr cl1 by (auto simp: fresh_row_def clean_def)
      obtain ok3 db3 where u: "UpsertNextEndpointId S db2 (e + 1) = (ok3, db3)" by fastforce
      note k3 = UpsertNextEndpointId_keeps [OF doc u]
      show ?thesis
      proof (cases ok3)
        case True
        obtain ok4 db4 where c: "ExecSql S kCommitSql db3 = (ok4, db4)" by fastforce
        have "visible V db3 = assign_row p e T \<and> durable V db3 \<in> {T, assign_row p e T}"
          using both_written [OF p(3) _ cl1] k3 True by simp
        then have "durable V db4 \<in> {T, assign_row p e T}"
          using exec_keeps(3) [OF doc c] by (auto split: if_splits)
        moreover have "r = Inr (Some e)" "db' = sqlite3_close S db4"
          using run q Inr i ok2 u True c by (simp_all add: assign_new_def)
        ultimately show ?thesis using p(1) fr by (auto simp: close_keeps [OF doc])
      next
        case False
        obtain ok4 db4 where c: "ExecSql S kRollbackSql db3 = (ok4, db4)" by fastforce
        have r: "r = Inr None" "db' = sqlite3_close S db4"
          using run q Inr i ok2 u False c by (simp_all add: assign_new_def)
        have "durable V db' = durable V db2"
          using exec_keeps(4) [OF doc c] k3 False failed_durable [of V db2 db3] r
          by (simp add: close_keeps [OF doc])
        then have "durable V db' = (if in_transaction V db1 then T else insert_row p (uint e) T)"
          using p(3) cl1 by (simp add: written_def clean_def)
        then show ?thesis using r(1) p(1) fr tx1 by (auto split: if_splits)
      qed
    qed
  qed
qed

lemma GetOrAssign_begin:
  assumes doc: "sqlite_documented S V" and run: "GetOrAssign S mPath udn db = (r, db')"
  obtains (failed) "r = Inr None" "durable V db' = durable V db" "\<not> opens_work S V"
  | (known) e db2 db3 where "r = Inr (Some e)" "assigned_id (durable V db) udn = Some e"
      "durable V db' = durable V db" "QueryEndpointId S db2 udn = (Some e, db3)"
  | (new) db2 db3 where "visible V db2 = durable V db" "in_transaction V db2"
      "QueryEndpointId S db2 udn = (None, db3)" "clean V (durable V db) db3"
      "transactions_last S V \<Longrightarrow> in_transaction V db3" "assign_new S udn db3 = (r, db')"
proof -
  let ?T = "durable V db"
  obtain ok0 db0 where o: "open_registry S mPath db = (ok0, db0)" by fastforce
  note k0 = open_registry_keeps [OF doc o]
  note w0 = open_registry_working [OF _ o]
  show thesis
  proof (cases ok0)
    case False
    then have "r = Inr None" "db' = db0" using run o by (simp_all add: GetOrAssign_def)
    then show thesis using failed k0 w0 False by blast
  next
    case True
    obtain ok1 db1 where c1: "ExecSql S kCreateTablesSql db0 = (ok1, db1)" by fastforce
    note k1 = exec_keeps(1) [OF doc c1]
    obtain ok2 db2 where
      b: "(if ok1 then ExecSql S kBeginSql db1 else (False, db1)) = (ok2, db2)" by fastforce
    have k2: "durable V db2 = ?T \<and> (ok2 \<longrightarrow> visible V db2 = ?T \<and> in_transaction V db2)"
      using b k0 k1 True exec_keeps(2) [OF doc, of db1] by (auto split: if_splits)
    show thesis
    proof (cases ok2)
      case False
      then have "r = Inr None" "db' = sqlite3_close S db2"
        using run o True c1 b by (simp_all add: GetOrAssign_def)
      moreover have "\<not> opens_work S V"
      proof
        assume w: "opens_work S V"
        then have "ok1" using c1 unfolding opens_work_def ExecSql_def by (metis fst_conv)
        moreover have "\<not> in_transaction V db1" using k0 k1 True calculation by simp
        ultimately have "ok2" using w b unfolding opens_work_def ExecSql_def by (metis fst_conv)
        then show False using False by simp
      qed
      ultimately show thesis using failed k2 by (simp add: close_keeps [OF doc])
    next
      case ok2: True
      obtain q db3 where q: "QueryEndpointId S db2 udn = (q, db3)" by fastforce
      note k3 = QueryEndpointId_keeps [OF doc q]
      have cl3: "clean V ?T db3" using k2 k3 ok2 clean_kept(1) [of V ?T db2 db3] by (simp add: clean_def)
      have st: "GetOrAssign S mPath udn db =
          (case q of Some e \<Rightarrow> (Inr (Some e), sqlite3_close S (snd (ExecSql S kCommitSql db3)))
           | None \<Rightarrow> assign_new S udn db3)"
        using o True c1 b ok2 q by (simp add: GetOrAssign_def)
      show thesis
      proof (cases q)
        case None
        then show thesis
          using new [of db2 db3] k2 ok2 q cl3 query_transaction(1) [OF _ q] run st by simp
      next
        case (Some e)
        obtain ok4 db4 where c: "ExecSql S kCommitSql db3 = (ok4, db4)" by fastforce
        have "durable V db4 = ?T" using exec_keeps(3) [OF doc c] cl3 by (simp add: clean_def)
        moreover have "r = Inr (Some e)" "db' = sqlite3_close S db4" using run st Some c by auto
        moreover have "assigned_id ?T udn = Some e" using k2 k3 ok2 Some by simp
        ultimately show thesis using known [of e db2 db3] q Some by (simp add: close_keeps [OF doc])
      qed
    qed
  qed
qed

lemma GetOrAssign_cases:
  assumes doc: "sqlite_documented S V" and run: "GetOrAssign S mPath udn db = (r, db')"
  shows "durable V db' = durable V db \<and> (\<forall>e. r \<noteq> Inr (Some e)) \<or>
    (\<exists>e. r = Inr (Some e) \<and> assigned_id (durable V db) udn = Some e \<and> durable V db' = durable V db) \<or>
    (\<exists>e p. row_of S udn p \<and> fresh_row (durable V db) p e \<and>
       (r = Inr None \<and> durable V db' = insert_row p (uint e) (durable V db) \<and> \<not> transactions_last S V \<or>
        r = Inr (Some e) \<and> durable V db' \<in> {durable V db, assign_row p e (durable V db)}))"
  using doc run
proof (cases rule: GetOrAssign_begin)
  case (new db2 db3)
  from assign_new_cases [OF doc new(6,4)] show ?thesis using new(5) by blast
qed blast+

section \<open>Refinement: the registry without faults\<close>

lemma prepare_ok:
  "opens_work S V \<Longrightarrow> sql \<in> {kSelectEndpointSql, kSelectNextSql, kInsertMappingSql, kUpsertNextSql} \<Longrightarrow>
   sqlite3_prepare S sql db = (ok, db') \<Longrightarrow> ok"
  unfolding opens_work_def by (metis fst_conv)

lemma step_ok:
  "queries_work S \<Longrightarrow> sqlite3_step S kSelectEndpointSql [p] db = (rc, db') \<Longrightarrow> text_param p \<Longrightarrow> rc \<noteq> StepError"
  "counter_queries_work S \<Longrightarrow> sqlite3_step S kSelectNextSql [] db = (rc, db') \<Longrightarrow> rc \<noteq> StepError"
  "counter_queries_work S \<Longrightarrow> sqlite3_column_text S (SText s) = Some s"
  "inserts_work S V \<Longrightarrow> sqlite3_step S kInsertMappingSql [p, SInt v] db = (rc, db') \<Longrightarrow> text_param p \<Longrightarrow>
     insertable (visible V db) p v \<Longrightarrow> rc = StepDone"
  "updates_work S \<Longrightarrow> sqlite3_step S kUpsertNextSql [SText s] db = (rc, db') \<Longrightarrow> rc = StepDone"
  unfolding queries_work_def counter_queries_work_def inserts_work_def updates_work_def insertable_def
  by (metis fst_conv)+

lemma bound_ok: "binds_succeed S \<Longrightarrow> bound S sql i x db = x"
  by (simp add: bound_def binds_succeed_def)

lemma QueryEndpointId_working:
  assumes doc: "sqlite_documented S V" and w: "opens_work S V" "queries_work S"
    and p: "\<And>db. bound S kSelectEndpointSql 1 (SText (cstr udn)) db = p"
    and q: "QueryEndpointId S db udn = (r, db')"
  shows "r = (if p = SNull then None else assigned_id (visible V db) udn) \<and> unchanged V db db'"
proof -
  have sd: "select_documented S V" using doc by (simp add: sqlite_documented_def)
  obtain ok db1 where pr: "sqlite3_prepare S kSelectEndpointSql db = (ok, db1)" by fastforce
  have ok: "ok" using prepare_ok [OF w(1) _ pr] by simp
  have u: "unchanged V db db1" using prepare_keeps [OF doc pr] ok by simp
  have tp: "text_param p" using bound_text p by metis
  have pc: "p = SText (cstr udn) \<or> p = SNull" using p bound_cases by metis
  obtain rc db2 where st: "sqlite3_step S kSelectEndpointSql [p] db1 = (rc, db2)" by fastforce
  have ne: "rc \<noteq> StepError" by (rule step_ok(1) [OF w(2) st tp])
  have u2: "unchanged V db db2" using select_endpoint_step(1) [OF doc st tp] ne unchanged_trans [OF u] by simp
  have same: "visible V db1 = visible V db" using u by (simp add: unchanged_def)
  have run: "db' = db2" "r = (case rc of StepRow cols \<Rightarrow> Some (to_u16 (sqlite3_column_int S (column cols 0)))
      | _ \<Rightarrow> None)"
    using q pr ok st by (auto simp: QueryEndpointId_def p [unfolded One_nat_def] split: step_rc.splits)
  show ?thesis
  proof (cases rc)
    case (StepRow cols)
    from select_endpoint_step(2) [OF doc st tp this] show ?thesis
      using run u2 same StepRow pc to_u16_column_int [OF sd] by (auto simp: assigned_id_def)
  next
    case StepDone
    from select_endpoint_step(3) [OF doc st tp this] show ?thesis
      using run u2 same StepDone pc by (auto simp: assigned_id_def)
  qed (use ne in simp)
qed

lemma QueryNextEndpointId_working:
  assumes doc: "sqlite_documented S V" and w: "opens_work S V" "counter_queries_work S"
    and q: "QueryNextEndpointId S db = (r, db')"
  shows "r = next_counter (visible V db) \<and> unchanged V db db'"
proof -
  obtain ok db1 where p: "sqlite3_prepare S kSelectNextSql db = (ok, db1)" by fastforce
  have ok: "ok" using prepare_ok [OF w(1) _ p] by simp
  have u: "unchanged V db db1" using prepare_keeps [OF doc p] ok by simp
  obtain rc db2 where st: "sqlite3_step S kSelectNextSql [] db1 = (rc, db2)" by fastforce
  have ne: "rc \<noteq> StepError" by (rule step_ok(2) [OF w(2) st])
  have u2: "unchanged V db db2" using select_next_step(1) [OF doc st] ne unchanged_trans [OF u] by simp
  have same: "visible V db1 = visible V db" using u by (simp add: unchanged_def)
  show ?thesis
  proof (cases rc)
    case (StepRow cols)
    from select_next_step(2) [OF doc st this] show ?thesis
      using q p ok st StepRow u2 same
      by (auto simp: QueryNextEndpointId_def next_counter_def step_ok(3) [OF w(2)] split: sum.splits)
  next
    case StepDone
    from select_next_step(3) [OF doc st this] show ?thesis
      using q p ok st StepDone u2 same by (simp add: QueryNextEndpointId_def next_counter_def)
  qed (use ne in simp)
qed

text \<open>The binds of an assignment: the UDN is bound as \<open>p\<close>, the rest as it should.\<close>

definition binds_as :: "'db sqlite \<Rightarrow> string \<Rightarrow> sqlval \<Rightarrow> bool" where
  "binds_as S udn p \<longleftrightarrow>
     (\<forall>db. bound S kSelectEndpointSql 1 (SText (cstr udn)) db = p) \<and>
     (\<forall>db. bound S kInsertMappingSql 1 (SText (cstr udn)) db = p) \<and>
     (\<forall>x db. bound S kInsertMappingSql 2 x db = x) \<and> (\<forall>x db. bound S kUpsertNextSql 1 x db = x)"

lemma binds_as_ok: "binds_succeed S \<Longrightarrow> binds_as S udn (SText (cstr udn))"
  by (simp add: binds_as_def bound_ok)

lemma InsertMapping_working:
  assumes doc: "sqlite_documented S V" and w: "opens_work S V" "inserts_work S V" and b: "binds_as S udn p"
    and i: "InsertMapping S db udn e = (ok, db')"
  shows "if ok then insertable (visible V db) p (uint e) \<and> written V (insert_row p (uint e)) db db'
    else \<not> insertable (visible V db) p (uint e) \<and> durable V db' = durable V db"
proof -
  have wd: "write_documented S V" using doc by (simp add: sqlite_documented_def)
  obtain ok1 db1 where pr: "sqlite3_prepare S kInsertMappingSql db = (ok1, db1)" by fastforce
  have ok1: "ok1" using prepare_ok [OF w(1) _ pr] by simp
  have u: "unchanged V db db1" using prepare_keeps [OF doc pr] ok1 by simp
  then have same: "visible V db1 = visible V db" "durable V db1 = durable V db" by (simp_all add: unchanged_def)
  have tp: "text_param p" using bound_text b unfolding binds_as_def by metis
  obtain rc db2 where st: "sqlite3_step S kInsertMappingSql [p, SInt (uint e)] db1 = (rc, db2)" by fastforce
  note k2 = wd [unfolded write_documented_def, THEN conjunct1, rule_format, OF st tp]
  have run: "ok = (rc = StepDone)" "db' = db2"
    using i pr ok1 st b by (auto simp: InsertMapping_def binds_as_def)
  show ?thesis
  proof (cases "rc = StepDone")
    case True
    then show ?thesis using k2 run same written_trans [OF u] by (auto simp: insertable_def)
  next
    case False
    then have "\<not> insertable (visible V db1) p (uint e)" using step_ok(4) [OF w(2) st tp] by blast
    then show ?thesis using k2 run same False failed_durable [of V db1 db2] by simp
  qed
qed

lemma UpsertNextEndpointId_working:
  assumes w: "opens_work S V" "updates_work S" and b: "binds_as S udn p" and u: "UpsertNextEndpointId S db n = (ok, db')"
  shows ok
proof -
  obtain ok1 db1 where pr: "sqlite3_prepare S kUpsertNextSql db = (ok1, db1)" by fastforce
  have ok1: "ok1" using prepare_ok [OF w(1) _ pr] by simp
  obtain rc db2 where st: "sqlite3_step S kUpsertNextSql [SText (cstr (to_string (unat n)))] db1 = (rc, db2)"
    by fastforce
  have "rc = StepDone" by (rule step_ok(5) [OF w(2) st])
  then show ?thesis using u pr ok1 st b by (auto simp: UpsertNextEndpointId_def binds_as_def Let_def)
qed

text \<open>
  A new row either is refused as the tables say without a change, or is about to be stored
  when the commit runs.
\<close>

definition about_to_store :: "'db sqlite \<Rightarrow> 'db sql_view \<Rightarrow> reg_tables \<Rightarrow> reg_tables \<Rightarrow> 'db \<Rightarrow> bool" where
  "about_to_store S V T T' db' \<longleftrightarrow>
     (\<exists>db3. in_transaction V db3 \<and> visible V db3 = T' \<and> durable V db3 = T \<and>
        db' = sqlite3_close S (snd (ExecSql S kCommitSql db3)))"

lemma stored:
  assumes "sqlite_documented S V" and "about_to_store S V T T' db'"
  shows "commits_succeed S V \<Longrightarrow> durable V db' = T'"
    and "(\<And>db. \<not> fst (sqlite3_exec S kCommitSql db)) \<Longrightarrow> durable V db' = T"
proof -
  from assms(2) obtain db3 where d: "in_transaction V db3" "visible V db3 = T'" "durable V db3 = T"
    "db' = sqlite3_close S (snd (ExecSql S kCommitSql db3))" unfolding about_to_store_def by blast
  obtain ok db4 where c: "ExecSql S kCommitSql db3 = (ok, db4)" by fastforce
  have k: "durable V db' = (if ok then T' else T)"
    using exec_keeps(3) [OF assms(1) c] d c by (simp add: close_keeps [OF assms(1)])
  have "ok = fst (sqlite3_exec S kCommitSql db3)" using c by (simp add: ExecSql_def)
  then show "commits_succeed S V \<Longrightarrow> durable V db' = T'"
    "(\<And>db. \<not> fst (sqlite3_exec S kCommitSql db)) \<Longrightarrow> durable V db' = T"
    using k d(1) by (auto simp: commits_succeed_def)
qed

lemma assign_new_working:
  assumes doc: "sqlite_documented S V" and work: "sqlite_working S V" and b: "binds_as S udn p"
    and run: "assign_new S udn db = (r, db')" and cl: "clean V T db" and tx: "in_transaction V db"
    and new: "\<forall>u. p = SText u \<longrightarrow> endpoint_map T u = None"
  shows "case next_counter T of
      Inl err \<Rightarrow> r = Inl err \<and> durable V db' = T
    | Inr e \<Rightarrow> if uint e \<in> used_ids T then r = Inr None \<and> durable V db' = T
        else r = Inr (Some e) \<and> about_to_store S V T (assign_row p e T) db'"
proof -
  have w: "opens_work S V" "counter_queries_work S" "inserts_work S V" "updates_work S" 
    using work by (simp_all add: sqlite_working_def)
  obtain q db1 where q: "QueryNextEndpointId S db = (q, db1)" by fastforce
  note k1 = QueryNextEndpointId_working [OF doc w(1,2) q]
  have c1: "clean V T db1" "in_transaction V db1" "next_counter T = q"
    using k1 cl tx clean_kept(2) [OF cl] by (auto simp: unchanged_def clean_def)
  show ?thesis
  proof (cases q)
    case (Inl x)
    then show ?thesis using run q c1 by (auto simp: assign_new_def clean_def)
  next
    case (Inr e)
    obtain ok2 db2 where i: "InsertMapping S db1 udn e = (ok2, db2)" by fastforce
    note k2 = InsertMapping_working [OF doc w(1,3) b i]
    have free: "insertable (visible V db1) p (uint e) \<longleftrightarrow> uint e \<notin> used_ids T"
      using c1(1) new by (simp add: insertable_def clean_def)
    show ?thesis
    proof (cases ok2)
      case False
      obtain ok4 db4 where c: "ExecSql S kRollbackSql db2 = (ok4, db4)" by fastforce
      have "durable V db4 = T"
        using exec_keeps(4) [OF doc c] k2 False c1(1) by (simp add: clean_def)
      moreover have "r = Inr None" "db' = sqlite3_close S db4"
        using run q Inr i False c by (simp_all add: assign_new_def)
      ultimately show ?thesis
        using c1(3) Inr free k2 False by (simp add: close_keeps [OF doc])
    next
      case True
      obtain ok3 db3 where u: "UpsertNextEndpointId S db2 (e + 1) = (ok3, db3)" by fastforce
      have ok3: "ok3" by (rule UpsertNextEndpointId_working [OF w(1,4) b u])
      have w2: "written V (insert_row p (uint e)) db1 db2" using k2 True by simp
      have w3: "written V (set_counter (to_string (unat (e + 1)))) db2 db3"
        using UpsertNextEndpointId_keeps [OF doc u] ok3 by simp
      have "visible V db3 = assign_row p e T" using both_written [OF w2 w3 c1(1)] by simp
      moreover have "in_transaction V db3" "durable V db3 = T"
        using w2 w3 c1(1,2) by (simp_all add: written_def clean_def)
      moreover have "r = Inr (Some e)" "db' = sqlite3_close S (snd (ExecSql S kCommitSql db3))"
        using run q Inr i True u ok3 by (simp_all add: assign_new_def)
      ultimately show ?thesis
        using c1(3) Inr free k2 True by (auto simp: about_to_store_def)
    qed
  qed
qed

text \<open>
  The whole operation: a UDN that is found is answered from the tables; one that is not found,
  be it new or its bind failed, is answered and stored as the next row.
\<close>

lemma GetOrAssign_working:
  assumes doc: "sqlite_documented S V" and w: "sqlite_working S V" and b: "binds_as S udn p"
    and run: "GetOrAssign S mPath udn db = (r, db')" and T: "durable V db = T"
  shows "(\<exists>e. p \<noteq> SNull \<and> assigned_id T udn = Some e \<and> r = Inr (Some e) \<and> durable V db' = T) \<or>
    ((p = SNull \<or> assigned_id T udn = None) \<and>
     (case next_counter T of
        Inl err \<Rightarrow> r = Inl err \<and> durable V db' = T
      | Inr e \<Rightarrow> if uint e \<in> used_ids T then r = Inr None \<and> durable V db' = T
          else r = Inr (Some e) \<and> about_to_store S V T (assign_row p e T) db'))"
  using doc run
proof (cases rule: GetOrAssign_begin)
  case failed
  then show ?thesis using w by (simp add: sqlite_working_def)
next
  case (new db2 db3)
  have q: "\<And>db. bound S kSelectEndpointSql 1 (SText (cstr udn)) db = p" using b by (simp add: binds_as_def)
  have k: "None = (if p = SNull then None else assigned_id (visible V db2) udn) \<and> unchanged V db2 db3"
    using QueryEndpointId_working [OF doc _ _ q new(3)] w by (simp add: sqlite_working_def)
  then have tx: "in_transaction V db3" using new(2) by (simp add: unchanged_def)
  have pc: "p = SText (cstr udn) \<or> p = SNull" using q bound_cases by metis
  have n: "p = SNull \<or> assigned_id T udn = None" using k new(1) T by (auto split: if_splits)
  then have "\<forall>u. p = SText u \<longrightarrow> endpoint_map T u = None" using pc by (auto simp: assigned_id_def)
  from assign_new_working [OF doc w b new(6) _ tx this] new(4) T n show ?thesis by simp
next
  case (known e db2 db3)
  have q: "\<And>db. bound S kSelectEndpointSql 1 (SText (cstr udn)) db = p" using b by (simp add: binds_as_def)
  have "p \<noteq> SNull" using QueryEndpointId_working [OF doc _ _ q known(4)] w by (auto simp: sqlite_working_def)
  then show ?thesis using known T by blast
qed

lemma GetOrAssign_refines_spec:
  assumes doc: "sqlite_documented S V" and ff: "sqlite_faultless S V"
    and run: "GetOrAssign S mPath udn db = (r, db')"
  shows "(r, durable V db') = get_or_assign_spec (durable V db) udn"
proof -
  have w: "sqlite_working S V" and b: "binds_as S udn (SText (cstr udn))" and c: "commits_succeed S V"
    using ff by (simp_all add: sqlite_faultless_def binds_as_ok)
  from GetOrAssign_working [OF doc w b run refl] show ?thesis
    using stored(1) [OF doc _ c]
    by (auto simp: get_or_assign_spec_def assign_row_named split: sum.splits if_splits)
qed

text \<open>A transaction lost in the first query, and what an assignment does after that.\<close>

lemma lost_query:
  assumes doc: "sqlite_documented S V" and w: "opens_work S V"
    and lost: "\<And>p db rc db'. sqlite3_step S kSelectEndpointSql [p] db = (rc, db') \<Longrightarrow> in_transaction V db \<Longrightarrow>
      rc = StepError \<and> \<not> in_transaction V db'"
    and tx: "in_transaction V db" and q: "QueryEndpointId S db udn = (r, db')"
  shows "\<not> in_transaction V db'"
proof -
  obtain ok db1 where pr: "sqlite3_prepare S kSelectEndpointSql db = (ok, db1)" by fastforce
  have ok: "ok" using prepare_ok [OF w _ pr] by simp
  have "in_transaction V db1" using prepare_keeps [OF doc pr] ok tx by (simp add: unchanged_def)
  then show ?thesis
    using q pr ok lost by (auto simp: QueryEndpointId_def split: prod.splits step_rc.splits)
qed

lemma lost_transaction:
  assumes doc: "sqlite_documented S V" and w: "opens_work S V" "counter_queries_work S" "inserts_work S V"
    and b: "binds_succeed S" and up: "\<And>p db. fst (sqlite3_step S kUpsertNextSql [p] db) \<noteq> StepDone"
    and tx: "\<not> in_transaction V db" and cl: "clean V T db" and run: "assign_new S udn db = (r, db')"
    and n: "next_counter T = Inr e" "uint e \<notin> used_ids T" "assigned_id T udn = None"
  shows "r = Inr None \<and> durable V db' = insert_row (SText (cstr udn)) (uint e) T"
proof -
  obtain q db1 where q: "QueryNextEndpointId S db = (q, db1)" by fastforce
  have c1: "clean V T db1" "\<not> in_transaction V db1" "q = Inr e"
    using QueryNextEndpointId_working [OF doc w(1,2) q] cl tx n(1) by (auto simp: unchanged_def clean_def)
  obtain ok2 db2 where i: "InsertMapping S db1 udn e = (ok2, db2)" by fastforce
  have "insertable (visible V db1) (SText (cstr udn)) (uint e)"
    using c1(1) n(2,3) by (simp add: insertable_def clean_def assigned_id_def)
  then have ok2: "ok2" and w2: "written V (insert_row (SText (cstr udn)) (uint e)) db1 db2"
    using InsertMapping_working [OF doc w(1,3) binds_as_ok [OF b] i] by (auto split: if_splits)
  have d2: "durable V db2 = insert_row (SText (cstr udn)) (uint e) T"
    using w2 c1(1,2) by (simp add: written_def clean_def)
  obtain ok3 db3 where u: "UpsertNextEndpointId S db2 (e + 1) = (ok3, db3)" by fastforce
  have nok: "\<not> ok3"
    using u up by (auto simp: UpsertNextEndpointId_def Let_def split: prod.splits bool.splits) (metis fst_conv)
  then have d3: "durable V db3 = durable V db2"
    using UpsertNextEndpointId_keeps [OF doc u] failed_durable [of V db2 db3] by simp
  obtain ok4 db4 where c: "ExecSql S kRollbackSql db3 = (ok4, db4)" by fastforce
  have "r = Inr None" "db' = sqlite3_close S db4"
    using run q c1(3) i ok2 u nok c by (simp_all add: assign_new_def)
  then show ?thesis using exec_keeps(4) [OF doc c] d2 d3 by (simp add: close_keeps [OF doc])
qed

lemma Lookup_keeps:
  assumes doc: "sqlite_documented S V" and run: "Lookup S mPath udn db = (r, db')"
  shows "durable V db' = durable V db \<and>
    (\<forall>e. r = Some e \<longrightarrow> assigned_id (durable V db) udn = Some e) \<and>
    (sqlite_working S V \<and> binds_succeed S \<longrightarrow> r = assigned_id (durable V db) udn)"
proof -
  obtain ok0 db0 where o: "open_registry S mPath db = (ok0, db0)" by fastforce
  note k0 = open_registry_keeps [OF doc o]
  note w0 = open_registry_working [OF _ o]
  obtain ok1 db1 where c1: "ExecSql S kCreateTablesSql db0 = (ok1, db1)" by fastforce
  note k1 = exec_keeps(1) [OF doc c1]
  have w1: "opens_work S V \<Longrightarrow> ok1"
    using c1 unfolding opens_work_def ExecSql_def by (metis fst_conv)
  obtain q db3 where q: "QueryEndpointId S db1 udn = (q, db3)" by fastforce
  note k3 = QueryEndpointId_keeps [OF doc q]
  show ?thesis
  proof (cases "ok0 \<and> ok1")
    case False
    have "r = None" "db' = (if ok0 then sqlite3_close S db1 else db0)"
      using False run o c1 by (cases ok0; cases ok1; auto simp: Lookup_def)+
    then show ?thesis using False k0 k1 w0 w1 by (auto simp: close_keeps [OF doc] sqlite_working_def)
  next
    case True
    then have r: "r = q" "db' = sqlite3_close S db3" using run o c1 q by (auto simp: Lookup_def)
    have v: "visible V db1 = durable V db" and d: "durable V db1 = durable V db" using True k0 k1 by simp_all
    have "durable V db3 = durable V db" using k3 failed_durable [of V db1 db3] d by simp
    then have "durable V db' = durable V db" using close_keeps [OF doc, of db3] r(2) by metis
    moreover have "\<forall>e. q = Some e \<longrightarrow> assigned_id (durable V db) udn = Some e" using k3 v by simp
    moreover have "q = assigned_id (durable V db) udn" if "sqlite_working S V \<and> binds_succeed S"
      using QueryEndpointId_working [OF doc _ _ bound_ok q] that v by (simp add: sqlite_working_def)
    ultimately show ?thesis unfolding r(1) by (intro conjI impI)
  qed
qed

end
