(* ===== verification/Registry_Contract.thy ===== *)
theory Registry_Contract
  imports Registry
begin

text \<open>
  What the endpoint registry promises to its clients: the contract \<open>endpoint_registry\<close>
  that holds whatever SQLite call fails, the contract \<open>reliable_registry\<close> of a registry
  whose database works, their interpretations on the model of
  \<^verbatim>\<open>src/matter/endpoint_registry.cpp\<close>, and the numbering of endpoints. An in-memory
  database, with an optional fault in its commit, shows that the hypotheses about SQLite
  can hold.
\<close>

section \<open>Invariants of the tables\<close>

text \<open>What survives every fault: ids are 16-bit and no two rows share one.\<close>

definition reg_ok :: "reg_tables \<Rightarrow> bool" where
  "reg_ok T \<longleftrightarrow> inj_on (endpoint_map T) (dom (endpoint_map T)) \<and> used_ids T \<subseteq> {0..65535} \<and>
     ran (endpoint_map T) \<inter> unnamed_ids T = {}"

text \<open>The numbering while the counter has not wrapped: exactly 2, ..., n - 1 are in use.\<close>

definition numbered :: "reg_tables \<Rightarrow> u16 \<Rightarrow> bool" where
  "numbered T n \<longleftrightarrow> next_counter T = Inr n \<and> 2 \<le> uint n \<and>
     used_ids T = {2..<uint n} \<and> inj_on (endpoint_map T) (dom (endpoint_map T))"

lemma reg_ok_counter: "reg_ok (set_counter s T) = reg_ok T"
  by (simp add: reg_ok_def set_counter_def used_ids_def)

lemma reg_ok_insert:
  assumes "reg_ok T" and "insertable T p (uint (e :: u16))"
  shows "reg_ok (insert_row p (uint e) T)"
proof -
  have e: "uint e \<in> {0..65535}" "uint e \<notin> ran (endpoint_map T)" "uint e \<notin> unnamed_ids T"
    using uint_u16_bounds [of e] assms(2) by (simp_all add: insertable_def used_ids_def)
  have i: "inj_on (endpoint_map T) (dom (endpoint_map T))" "ran (endpoint_map T) \<subseteq> {0..65535}"
    "unnamed_ids T \<subseteq> {0..65535}" "ran (endpoint_map T) \<inter> unnamed_ids T = {}"
    using assms(1) by (simp_all add: reg_ok_def used_ids_def)
  show ?thesis
  proof (cases "\<exists>u. p = SText u")
    case True
    then obtain u where u: "p = SText u" by blast
    then have n: "endpoint_map T u = None" using assms(2) by (simp add: insertable_def)
    have "inj_on ((endpoint_map T)(u \<mapsto> uint e)) (insert u (dom (endpoint_map T)))"
      using i(1) e(2) by (auto simp: inj_on_def ran_def)
    then show ?thesis using u n i e by (simp add: insert_row_def reg_ok_def used_ids_def)
  next
    case False
    then have "insert_row p (uint e) T = T\<lparr>unnamed_ids := insert (uint e) (unnamed_ids T)\<rparr>"
      by (cases p) (simp_all add: insert_row_def)
    then show ?thesis using i e by (simp add: reg_ok_def used_ids_def)
  qed
qed

lemma assigned_id_counter [simp]: "assigned_id (set_counter s T) u = assigned_id T u"
  by (simp add: assigned_id_def set_counter_def)

lemma assigned_id_insert:
  "assigned_id (insert_row p (uint e) T) u = (if p = SText (cstr u) then Some e else assigned_id T u)"
  by (cases p) (auto simp: assigned_id_def insert_row_def)

lemma assigned_id_assign:
  "assigned_id (assign T udn e) v = (if cstr v = cstr udn then Some e else assigned_id T v)"
  by (simp add: assigned_id_def assign_def)

lemma assigned_id_used:
  assumes "reg_ok T" and "assigned_id T u = Some e"
  shows "uint e \<in> used_ids T"
proof -
  obtain i where i: "endpoint_map T (cstr u) = Some i" "e = to_u16 i"
    using assms(2) by (auto simp: assigned_id_def)
  then have "i \<in> used_ids T" by (auto simp: used_ids_def ran_def)
  moreover from this have "i \<in> {0..65535}" using assms(1) by (auto simp: reg_ok_def)
  ultimately show ?thesis using i(2) uint_to_u16_id [of i] by simp
qed

lemma assigned_id_inj:
  assumes ok: "reg_ok T" and u: "assigned_id T u = Some e" and v: "assigned_id T v = Some e"
  shows "cstr u = cstr v"
proof -
  from u v obtain i j where ij: "endpoint_map T (cstr u) = Some i" "endpoint_map T (cstr v) = Some j"
    and e: "e = to_u16 i" "e = to_u16 j"
    by (auto simp: assigned_id_def)
  then have "i \<in> used_ids T" "j \<in> used_ids T" by (auto simp: used_ids_def ran_def)
  then have "{i, j} \<subseteq> {0..65535}" using ok by (auto simp: reg_ok_def)
  then have "i = j" using e uint_to_u16_id [of i] uint_to_u16_id [of j] by auto
  then show ?thesis using ok ij by (auto simp: reg_ok_def inj_on_def dom_def)
qed

section \<open>The contract\<close>

locale endpoint_registry =
  fixes lookup :: "'r \<Rightarrow> string \<Rightarrow> u16 option \<times> 'r"
    and get_or_assign :: "'r \<Rightarrow> string \<Rightarrow> (stoi_error + u16 option) \<times> 'r"
    and assigned :: "'r \<Rightarrow> string \<Rightarrow> u16 option"
    and invar :: "'r \<Rightarrow> bool"
  assumes lookup_law: "invar r \<Longrightarrow> lookup r u = (y, r') \<Longrightarrow>
      invar r' \<and> assigned r' = assigned r \<and> (\<forall>e. y = Some e \<longrightarrow> assigned r u = Some e)"
    and assign_invar: "invar r \<Longrightarrow> get_or_assign r u = (x, r') \<Longrightarrow> invar r'"
    and assign_keeps: "invar r \<Longrightarrow> get_or_assign r u = (x, r') \<Longrightarrow>
      assigned r v = Some e \<Longrightarrow> assigned r' v = Some e"
    and assign_fresh: "invar r \<Longrightarrow> get_or_assign r u = (Inr (Some e), r') \<Longrightarrow>
      assigned r u = Some e \<or> assigned r v \<noteq> Some e"
    and assign_only: "invar r \<Longrightarrow> get_or_assign r u = (x, r') \<Longrightarrow>
      assigned r v = None \<Longrightarrow> assigned r' v = Some e \<Longrightarrow> cstr v = cstr u \<and> assigned r w \<noteq> Some e"
    and assigned_unique: "invar r \<Longrightarrow> assigned r u = Some e \<Longrightarrow> assigned r v = Some e \<Longrightarrow>
      cstr u = cstr v"

locale reliable_registry = endpoint_registry +
  assumes lookup_complete: "invar r \<Longrightarrow> fst (lookup r u) = assigned r u"
    and assign_known: "invar r \<Longrightarrow> get_or_assign r u = (Inr (Some e'), r') \<Longrightarrow>
      assigned r u = Some e \<Longrightarrow> e' = e"
    and assign_committed: "invar r \<Longrightarrow> get_or_assign r u = (Inr (Some e), r') \<Longrightarrow>
      assigned r' u = Some e"

text \<open>
  The client of the registry in the repository is the \<open>list\<close> command, which asks for the
  endpoint of every discovered device in turn; an exception ends the program.
\<close>

fun assign_all ::
    "('r \<Rightarrow> string \<Rightarrow> (stoi_error + u16 option) \<times> 'r) \<Rightarrow> 'r \<Rightarrow> string list \<Rightarrow>
     (stoi_error + u16 option list) \<times> 'r" where
  "assign_all goa r [] = (Inr [], r)"
| "assign_all goa r (u # us) =
     (case goa r u of
        (Inl err, r') \<Rightarrow> (Inl err, r')
      | (Inr x, r') \<Rightarrow>
          (case assign_all goa r' us of
             (Inl err, r'') \<Rightarrow> (Inl err, r'')
           | (Inr xs, r'') \<Rightarrow> (Inr (x # xs), r'')))"

context endpoint_registry
begin

lemma assign_all_keeps:
  assumes "invar r" and "assign_all get_or_assign r us = (x, r')"
  shows "invar r' \<and> (\<forall>v e. assigned r v = Some e \<longrightarrow> assigned r' v = Some e)"
  using assms
proof (induction us arbitrary: r x r')
  case (Cons u us)
  obtain y r1 where g: "get_or_assign r u = (y, r1)" by fastforce
  have inv1: "invar r1" using assign_invar [OF Cons.prems(1) g] .
  have kept: "\<forall>v e. assigned r v = Some e \<longrightarrow> assigned r1 v = Some e"
    using assign_keeps [OF Cons.prems(1) g] by blast
  show ?case
  proof (cases y)
    case (Inl err)
    then show ?thesis using Cons.prems(2) g inv1 kept by simp
  next
    case (Inr z)
    obtain w r2 where rest: "assign_all get_or_assign r1 us = (w, r2)" by fastforce
    with Cons.prems(2) g Inr have "r' = r2" by (auto split: sum.splits)
    then show ?thesis using Cons.IH [OF inv1 rest] kept by blast
  qed
qed auto

end

context reliable_registry
begin

lemma assign_all_known:
  assumes "invar r" and "assign_all get_or_assign r us = (Inr xs, r')"
    and "i < length us" and "assigned r (us ! i) = Some e"
  shows "xs ! i = Some e \<or> xs ! i = None"
  using assms
proof (induction us arbitrary: r xs i)
  case (Cons u us)
  obtain y r1 where g: "get_or_assign r u = (y, r1)" by fastforce
  from Cons.prems(2) g obtain z ws where y: "y = Inr z"
    and rest: "assign_all get_or_assign r1 us = (Inr ws, r')" and xs: "xs = z # ws"
    by (auto split: sum.splits prod.splits)
  show ?case
  proof (cases i)
    case 0
    then show ?thesis
      using assign_known [OF Cons.prems(1), of u] g y xs Cons.prems(4) by (cases z) auto
  next
    case (Suc j)
    have "assigned r1 (us ! j) = Some e"
      using assign_keeps [OF Cons.prems(1) g] Cons.prems(4) Suc by simp
    then show ?thesis
      using Cons.IH [OF assign_invar [OF Cons.prems(1) g] rest, of j] Cons.prems(3) Suc xs by simp
  qed
qed simp

lemma assign_then_lookup:
  assumes "invar r" and g: "get_or_assign r u = (Inr (Some e), r')"
  shows "fst (lookup r' u) = Some e"
  using assign_invar [OF assms] assign_committed [OF assms] by (simp add: lookup_complete)

lemma assign_all_committed:
  assumes "invar r" and "assign_all get_or_assign r us = (Inr xs, r')"
    and "i < length us" and "xs ! i = Some e"
  shows "assigned r' (us ! i) = Some e"
  using assms
proof (induction us arbitrary: r xs i)
  case (Cons u us)
  obtain y r1 where g: "get_or_assign r u = (y, r1)" by fastforce
  from Cons.prems(2) g obtain z ws where y: "y = Inr z"
    and rest: "assign_all get_or_assign r1 us = (Inr ws, r')" and xs: "xs = z # ws"
    by (auto split: sum.splits prod.splits)
  have inv1: "invar r1" using assign_invar [OF Cons.prems(1) g] .
  show ?case
  proof (cases i)
    case 0
    then have "assigned r1 u = Some e"
      using assign_committed [OF Cons.prems(1), of u e r1] g y xs Cons.prems(4) by simp
    then show ?thesis using assign_all_keeps [OF inv1 rest] 0 by simp
  next
    case (Suc j)
    then show ?thesis using Cons.IH [OF inv1 rest, of j] Cons.prems(3,4) xs by simp
  qed
qed simp

text \<open>Within one listing, two names never get the same endpoint.\<close>

lemma assign_all_distinct:
  assumes inv: "invar r" and run: "assign_all get_or_assign r us = (Inr xs, r')"
    and ij: "i < length us" "j < length us" and same: "xs ! i = Some e" "xs ! j = Some e"
  shows "cstr (us ! i) = cstr (us ! j)"
proof -
  have "invar r'" using assign_all_keeps [OF inv run] by simp
  then show ?thesis
    using assigned_unique assign_all_committed [OF inv run] ij same by blast
qed

end

section \<open>The registry of the bridge keeps the contract\<close>

text \<open>
  A registry object together with the database it works on and the view of that database;
  \<open>registry_ok\<close> is its invariant.
\<close>

type_synonym 'db registry_handle = "'db sqlite \<times> 'db sql_view \<times> string \<times> 'db"

definition registry_lookup :: "'db registry_handle \<Rightarrow> string \<Rightarrow> u16 option \<times> 'db registry_handle" where
  "registry_lookup h udn =
     (case h of (S, V, mPath, db) \<Rightarrow>
        (case Lookup S mPath udn db of (x, db') \<Rightarrow> (x, (S, V, mPath, db'))))"

definition registry_get_or_assign ::
    "'db registry_handle \<Rightarrow> string \<Rightarrow> (stoi_error + u16 option) \<times> 'db registry_handle" where
  "registry_get_or_assign h udn =
     (case h of (S, V, mPath, db) \<Rightarrow>
        (case GetOrAssign S mPath udn db of (x, db') \<Rightarrow> (x, (S, V, mPath, db'))))"

definition registry_assigned :: "'db registry_handle \<Rightarrow> string \<Rightarrow> u16 option" where
  "registry_assigned h udn = (case h of (S, V, mPath, db) \<Rightarrow> assigned_id (durable V db) udn)"

definition registry_ok :: "'db registry_handle \<Rightarrow> bool" where
  "registry_ok h = (case h of (S, V, mPath, db) \<Rightarrow> sqlite_documented S V \<and> reg_ok (durable V db))"

definition registry_reliable :: "'db registry_handle \<Rightarrow> bool" where
  "registry_reliable h =
     (registry_ok h \<and> (case h of (S, V, mPath, db) \<Rightarrow> sqlite_faultless S V))"

lemmas registry_defs = registry_lookup_def registry_get_or_assign_def registry_assigned_def
  registry_ok_def registry_reliable_def

text \<open>What an assignment does to the stored tables, whatever fails.\<close>

lemma GetOrAssign_tables:
  assumes doc: "sqlite_documented S V" and ok: "reg_ok (durable V db)" and run: "GetOrAssign S mPath udn db = (x, db')"
  shows "reg_ok (durable V db')"
    and "assigned_id (durable V db) v = Some e \<Longrightarrow> assigned_id (durable V db') v = Some e"
    and "x = Inr (Some e) \<Longrightarrow> assigned_id (durable V db) udn = Some e \<or> uint e \<notin> used_ids (durable V db)"
    and "assigned_id (durable V db) v = None \<Longrightarrow> assigned_id (durable V db') v = Some e \<Longrightarrow>
      cstr v = cstr udn \<and> uint e \<notin> used_ids (durable V db)"
    and "binds_succeed S \<Longrightarrow> x = Inr (Some e) \<Longrightarrow> assigned_id (durable V db) udn \<in> {None, Some e}"
    and "binds_succeed S \<Longrightarrow> unnamed_ids (durable V db') = unnamed_ids (durable V db)"
    and "transactions_last S V \<Longrightarrow> \<forall>e. x \<noteq> Inr (Some e) \<Longrightarrow> durable V db' = durable V db"
proof -
  let ?T = "durable V db" and ?T' = "durable V db'"
  consider (same) "?T' = ?T" "\<forall>e. x \<noteq> Inr (Some e)"
    | (known) e where "x = Inr (Some e)" "assigned_id ?T udn = Some e" "?T' = ?T"
    | (row) e p where "row_of S udn p" "fresh_row ?T p e"
        "x = Inr None \<and> \<not> transactions_last S V \<and> ?T' = insert_row p (uint e) ?T \<or>
         x = Inr (Some e) \<and> (?T' = ?T \<or> ?T' = assign_row p e ?T)"
    using GetOrAssign_cases [OF doc run] by blast
  then have "reg_ok ?T' \<and> (\<forall>v e. assigned_id ?T v = Some e \<longrightarrow> assigned_id ?T' v = Some e) \<and>
    (\<forall>e. x = Inr (Some e) \<longrightarrow> assigned_id ?T udn = Some e \<or> uint e \<notin> used_ids ?T) \<and>
    (\<forall>v e. assigned_id ?T v = None \<longrightarrow> assigned_id ?T' v = Some e \<longrightarrow>
       cstr v = cstr udn \<and> uint e \<notin> used_ids ?T) \<and>
    (binds_succeed S \<longrightarrow> (\<forall>e. x = Inr (Some e) \<longrightarrow> assigned_id ?T udn \<in> {None, Some e}) \<and>
       unnamed_ids ?T' = unnamed_ids ?T) \<and>
    (transactions_last S V \<longrightarrow> (\<forall>e. x \<noteq> Inr (Some e)) \<longrightarrow> ?T' = ?T)"
  proof cases
    case (row e p)
    have ins: "insertable ?T p (uint e)" using row(2) by (simp add: fresh_row_def)
    then have fresh: "uint e \<notin> used_ids ?T" by (simp add: insertable_def)
    have none: "assigned_id ?T v = None" if "p = SText (cstr v)" for v
      using ins that by (simp add: insertable_def assigned_id_def)
    have named: "p = SText (cstr udn)" if "binds_succeed S" using row(1) that by (simp add: row_of_def)
    have key: "cstr v = cstr udn" if "p = SText (cstr v)" for v using row(1) that by (auto simp: row_of_def)
    have oks: "reg_ok (insert_row p (uint e) ?T)" "reg_ok (assign_row p e ?T)"
      using reg_ok_insert [OF ok ins] by (simp_all add: assign_row_def reg_ok_counter)
    have new: "?T' = ?T \<or> (\<forall>v. assigned_id ?T' v = (if p = SText (cstr v) then Some e else assigned_id ?T v))"
      using row(3) by (auto simp: assign_row_def assigned_id_insert)
    have un: "unnamed_ids ?T' = unnamed_ids ?T" if "binds_succeed S"
      using row(3) named [OF that] by (auto simp: assign_row_def insert_row_def set_counter_def)
    have r: "reg_ok ?T'" using row(3) oks ok by auto
    have x: "x = Inr (Some e') \<Longrightarrow> e' = e" for e' using row(3) by auto
    have keep: "assigned_id ?T' v = Some a" if "assigned_id ?T v = Some a" for v a
    proof -
      have "p \<noteq> SText (cstr v)" using none that by auto
      then show ?thesis using new that by auto
    qed
    have only: "cstr v = cstr udn \<and> uint a \<notin> used_ids ?T"
      if "assigned_id ?T v = None" "assigned_id ?T' v = Some a" for v a
    proof -
      have "?T' = ?T \<or> assigned_id ?T' v = (if p = SText (cstr v) then Some e else assigned_id ?T v)"
        using new by blast
      then have "p = SText (cstr v) \<and> a = e" using that by (auto split: if_splits)
      then show ?thesis using key fresh by simp
    qed
    have "assigned_id ?T udn = None" if "binds_succeed S" using none named [OF that] by simp
    moreover have "?T' = ?T" if "transactions_last S V" "\<forall>e. x \<noteq> Inr (Some e)" using row(3) that by auto
    ultimately show ?thesis using r keep only un x fresh by blast
  qed (use ok in auto)
  then show "reg_ok ?T'" "assigned_id ?T v = Some e \<Longrightarrow> assigned_id ?T' v = Some e"
    "x = Inr (Some e) \<Longrightarrow> assigned_id ?T udn = Some e \<or> uint e \<notin> used_ids ?T"
    "assigned_id ?T v = None \<Longrightarrow> assigned_id ?T' v = Some e \<Longrightarrow>
      cstr v = cstr udn \<and> uint e \<notin> used_ids ?T"
    "binds_succeed S \<Longrightarrow> x = Inr (Some e) \<Longrightarrow> assigned_id ?T udn \<in> {None, Some e}"
    "binds_succeed S \<Longrightarrow> unnamed_ids ?T' = unnamed_ids ?T"
    "transactions_last S V \<Longrightarrow> \<forall>e. x \<noteq> Inr (Some e) \<Longrightarrow> ?T' = ?T"
    by blast+
qed

lemma registry_lookup_step:
  assumes "registry_ok h" and "registry_lookup h u = (y, h')"
  shows "registry_ok h' \<and> registry_assigned h' = registry_assigned h \<and>
    (\<forall>e. y = Some e \<longrightarrow> registry_assigned h u = Some e)"
proof -
  obtain S V mPath db where h: "h = (S, V, mPath, db)" by (cases h)
  obtain db' where l: "Lookup S mPath u db = (y, db')" and h': "h' = (S, V, mPath, db')"
    using assms(2) h by (auto simp: registry_defs split: prod.splits)
  have "sqlite_documented S V" "reg_ok (durable V db)" using assms(1) h by (simp_all add: registry_defs)
  with Lookup_keeps [OF this(1) l] show ?thesis
    using h h' by (auto simp: registry_defs fun_eq_iff)
qed

lemma registry_assign_step:
  assumes "registry_ok h" and "registry_get_or_assign h u = (x, h')"
  shows "registry_ok h'"
    and "registry_assigned h v = Some e \<Longrightarrow> registry_assigned h' v = Some e"
    and "x = Inr (Some e) \<Longrightarrow> registry_assigned h u = Some e \<or> registry_assigned h v \<noteq> Some e"
    and "registry_assigned h v = None \<Longrightarrow> registry_assigned h' v = Some e \<Longrightarrow>
      cstr v = cstr u \<and> registry_assigned h w \<noteq> Some e"
    and "registry_reliable h \<Longrightarrow> x = Inr (Some e') \<Longrightarrow> registry_assigned h u = Some e \<Longrightarrow> e' = e"
proof -
  obtain S V mPath db where h: "h = (S, V, mPath, db)" by (cases h)
  obtain db' where g: "GetOrAssign S mPath u db = (x, db')" and h': "h' = (S, V, mPath, db')"
    using assms(2) h by (auto simp: registry_defs split: prod.splits)
  have ok: "sqlite_documented S V" "reg_ok (durable V db)"
    using assms(1) h by (simp_all add: registry_defs)
  note t = GetOrAssign_tables [OF ok g] and used = assigned_id_used [OF ok(2)]
  show "registry_ok h'" using t(1) ok(1) h' by (simp add: registry_defs)
  show "registry_assigned h v = Some e \<Longrightarrow> registry_assigned h' v = Some e"
    using t(2) h h' by (simp add: registry_defs)
  show "x = Inr (Some e) \<Longrightarrow> registry_assigned h u = Some e \<or> registry_assigned h v \<noteq> Some e"
    using t(3) used [of v] h by (auto simp: registry_defs)
  show "registry_assigned h v = None \<Longrightarrow> registry_assigned h' v = Some e \<Longrightarrow>
      cstr v = cstr u \<and> registry_assigned h w \<noteq> Some e"
    using t(4) used [of w] h h' by (auto simp: registry_defs)
  show "registry_reliable h \<Longrightarrow> x = Inr (Some e') \<Longrightarrow> registry_assigned h u = Some e \<Longrightarrow> e' = e"
    using t(5) h by (auto simp: registry_defs sqlite_faultless_def)
qed

lemma registry_assigned_unique:
  "registry_ok h \<Longrightarrow> registry_assigned h u = Some e \<Longrightarrow> registry_assigned h v = Some e \<Longrightarrow>
   cstr u = cstr v"
  by (auto simp: registry_defs dest: assigned_id_inj split: prod.splits)

interpretation bridge_registry: endpoint_registry
  registry_lookup registry_get_or_assign registry_assigned registry_ok
proof (unfold_locales, goal_cases)
  case 1 then show ?case by (rule registry_lookup_step)
next
  case 2 then show ?case by (rule registry_assign_step(1))
next
  case 3 then show ?case by (rule registry_assign_step(2))
next
  case 4 then show ?case by (intro registry_assign_step(3)) simp_all
next
  case 5 then show ?case by (rule registry_assign_step(4))
next
  case 6 then show ?case by (rule registry_assigned_unique)
qed

lemma get_or_assign_spec_committed:
  "get_or_assign_spec T udn = (Inr (Some e), T') \<Longrightarrow> assigned_id T' udn = Some e"
  by (auto simp: get_or_assign_spec_def assigned_id_assign split: option.splits sum.splits if_splits)

lemma registry_reliable_ok: "registry_reliable h \<Longrightarrow> registry_ok h"
  by (simp add: registry_reliable_def)

lemma registry_faultless_kept:
  "registry_get_or_assign h u = (x, h') \<Longrightarrow> registry_reliable h \<Longrightarrow> registry_ok h' \<Longrightarrow>
   registry_reliable h'"
  "registry_lookup h u = (y, h') \<Longrightarrow> registry_reliable h \<Longrightarrow> registry_ok h' \<Longrightarrow>
   registry_reliable h'"
  by (auto simp: registry_defs split: prod.splits)

interpretation bridge_registry_reliable: reliable_registry
  registry_lookup registry_get_or_assign registry_assigned registry_reliable
proof (unfold_locales, goal_cases)
  case (1 h u y h')
  from registry_lookup_step [OF registry_reliable_ok [OF 1(1)] 1(2)]
    registry_faultless_kept(2) [OF 1(2,1)]
  show ?case by blast
next
  case (2 h u x h')
  from registry_assign_step(1) [OF registry_reliable_ok [OF 2(1)] 2(2)]
    registry_faultless_kept(1) [OF 2(2,1)]
  show ?case by blast
next
  case (3 h u x h' v e)
  from registry_assign_step(2) [OF registry_reliable_ok [OF 3(1)] 3(2,3)] show ?case .
next
  case (4 h u e h' v)
  from registry_assign_step(3) [OF registry_reliable_ok [OF 4(1)] 4(2) refl] show ?case .
next
  case (5 h u x h' v e w)
  from registry_assign_step(4) [OF registry_reliable_ok [OF 5(1)] 5(2-4)] show ?case .
next
  case (6 h u e v)
  from registry_assigned_unique [OF registry_reliable_ok [OF 6(1)] 6(2,3)] show ?case .
next
  case (7 h u)
  then show ?case
    using Lookup_keeps by (fastforce simp: registry_defs sqlite_faultless_def split: prod.splits)
next
  case (8 h u e' h' e)
  from registry_assign_step(5) [OF registry_reliable_ok [OF 8(1)] 8(2,1) refl 8(3)] show ?case .
next
  case (9 h u e h')
  then show ?case
    using GetOrAssign_refines_spec get_or_assign_spec_committed
    by (fastforce simp: registry_defs split: prod.splits)
qed

section \<open>An in-memory database\<close>

text \<open>
  A concrete database that keeps the documented behaviour, used to show that the
  hypotheses about SQLite can hold together. Its faults are chosen by the argument: a commit
  that fails, binds of the UDN that fail, a query that fails and rolls back the transaction
  around it, an update of the counter that fails.
\<close>

record mem_faults =
  commit_fails :: bool
  udn_bind_fails :: bool
  query_aborts :: bool
  counter_fails :: bool

definition no_faults :: mem_faults where
  "no_faults = \<lparr>commit_fails = False, udn_bind_fails = False, query_aborts = False, counter_fails = False\<rparr>"

record memdb =
  md_visible :: reg_tables
  md_durable :: reg_tables
  md_tx :: bool

definition mem_undo :: "memdb \<Rightarrow> memdb" where
  "mem_undo db = db\<lparr>md_visible := md_durable db, md_tx := False\<rparr>"

definition mem_write :: "(reg_tables \<Rightarrow> reg_tables) \<Rightarrow> memdb \<Rightarrow> memdb" where
  "mem_write f db = db\<lparr>md_visible := f (md_visible db),
     md_durable := (if md_tx db then md_durable db else f (md_visible db))\<rparr>"

definition mem_exec :: "mem_faults \<Rightarrow> string \<Rightarrow> memdb \<Rightarrow> bool \<times> memdb" where
  "mem_exec F sql db =
     (if sql = kBeginSql then (True, db\<lparr>md_visible := md_durable db, md_tx := True\<rparr>)
      else if sql = kCommitSql
        then if \<not> commit_fails F \<and> md_tx db then (True, db\<lparr>md_durable := md_visible db, md_tx := False\<rparr>)
             else (False, db)
      else if sql = kRollbackSql then (md_tx db, mem_undo db)
      else (True, db))"

definition mem_step :: "mem_faults \<Rightarrow> string \<Rightarrow> sqlval list \<Rightarrow> memdb \<Rightarrow> step_rc \<times> memdb" where
  "mem_step F sql args db =
     (let T = md_visible db
      in if sql = kSelectEndpointSql then
           if query_aborts F \<and> md_tx db then (StepError, mem_undo db)
           else (case args of
              [SText u] \<Rightarrow>
                (case endpoint_map T u of None \<Rightarrow> (StepDone, db) | Some v \<Rightarrow> (StepRow [SInt v], db))
            | [SNull] \<Rightarrow> (StepDone, db)
            | _ \<Rightarrow> (StepError, db))
         else if sql = kSelectNextSql then
           (case bridge_meta T kNextKey of None \<Rightarrow> (StepDone, db) | Some t \<Rightarrow> (StepRow [SText t], db))
         else if sql = kInsertMappingSql then
           (case args of
              [p, SInt v] \<Rightarrow> if insertable T p v then (StepDone, mem_write (insert_row p v) db) else (StepError, db)
            | _ \<Rightarrow> (StepError, db))
         else if sql = kUpsertNextSql \<and> \<not> counter_fails F then
           (case args of [SText t] \<Rightarrow> (StepDone, mem_write (set_counter t) db) | _ \<Rightarrow> (StepError, db))
         else (StepError, db))"

definition mem_sqlite :: "mem_faults \<Rightarrow> memdb sqlite" where
  "mem_sqlite F =
     \<lparr>create_parent_directories = (\<lambda>p db. db),
      sqlite3_open = (\<lambda>p db. (OpenOk, mem_undo db)),
      sqlite3_close = mem_undo,
      sqlite3_exec = mem_exec F,
      sqlite3_prepare = (\<lambda>sql db. (True, db)),
      sqlite3_bind = (\<lambda>sql i v db. \<not> (udn_bind_fails F \<and> i = 1 \<and> sql \<noteq> kUpsertNextSql)),
      sqlite3_step = mem_step F,
      sqlite3_column_int = (\<lambda>v. case v of SInt i \<Rightarrow> sint (word_of_int i :: 32 word) | _ \<Rightarrow> 0),
      sqlite3_column_text = (\<lambda>v. case v of SText t \<Rightarrow> Some t | _ \<Rightarrow> None)\<rparr>"

definition mem_view :: "memdb sql_view" where
  "mem_view = \<lparr>visible = md_visible, durable = md_durable, in_transaction = md_tx\<rparr>"

definition mem_db :: "reg_tables \<Rightarrow> memdb" where
  "mem_db T = \<lparr>md_visible = T, md_durable = T, md_tx = False\<rparr>"

definition empty_tables :: reg_tables where
  "empty_tables = \<lparr>endpoint_map = Map.empty, unnamed_ids = {}, bridge_meta = Map.empty\<rparr>"

lemmas sql_texts = kCreateTablesSql_def kBeginSql_def kCommitSql_def kRollbackSql_def
  kSelectEndpointSql_def kSelectNextSql_def kUpsertNextSql_def kInsertMappingSql_def

lemma exec_texts_distinct:
  "distinct [kCreateTablesSql, kBeginSql, kCommitSql, kRollbackSql]"
  by (simp add: sql_texts)

lemma step_texts_distinct:
  "distinct [kSelectEndpointSql, kSelectNextSql, kInsertMappingSql, kUpsertNextSql]"
  by (simp add: sql_texts)

lemma mem_step_simps:
  "mem_step F kSelectEndpointSql [p] db =
     (if query_aborts F \<and> md_tx db then (StepError, mem_undo db)
      else (case p of
          SText u \<Rightarrow> (case endpoint_map (md_visible db) u of None \<Rightarrow> (StepDone, db) | Some v \<Rightarrow> (StepRow [SInt v], db))
        | SNull \<Rightarrow> (StepDone, db) | SInt i \<Rightarrow> (StepError, db)))"
  "mem_step F kSelectNextSql [] db =
     (case bridge_meta (md_visible db) kNextKey of
        None \<Rightarrow> (StepDone, db) | Some t \<Rightarrow> (StepRow [SText t], db))"
  "mem_step F kInsertMappingSql [p, q] db =
     (case q of SInt v \<Rightarrow> if insertable (md_visible db) p v then (StepDone, mem_write (insert_row p v) db) else (StepError, db)
      | _ \<Rightarrow> (StepError, db))"
  "mem_step F kUpsertNextSql [p] db =
     (case p of SText t \<Rightarrow> if counter_fails F then (StepError, db) else (StepDone, mem_write (set_counter t) db)
      | _ \<Rightarrow> (StepError, db))"
  using step_texts_distinct by (auto simp: mem_step_def Let_def split: sqlval.splits)

lemma mem_exec_simps:
  "mem_exec F kCreateTablesSql db = (True, db)"
  "mem_exec F kBeginSql db = (True, db\<lparr>md_visible := md_durable db, md_tx := True\<rparr>)"
  "mem_exec F kCommitSql db =
     (if \<not> commit_fails F \<and> md_tx db then (True, db\<lparr>md_durable := md_visible db, md_tx := False\<rparr>) else (False, db))"
  "mem_exec F kRollbackSql db = (md_tx db, mem_undo db)"
  using exec_texts_distinct by (auto simp: mem_exec_def)

lemma mem_sqlite_fields:
  "create_parent_directories (mem_sqlite F) p db = db" "sqlite3_open (mem_sqlite F) p db = (OpenOk, mem_undo db)"
  "sqlite3_close (mem_sqlite F) db = mem_undo db" "sqlite3_exec (mem_sqlite F) = mem_exec F"
  "sqlite3_prepare (mem_sqlite F) sql db = (True, db)"
  "sqlite3_bind (mem_sqlite F) sql i v db = (\<not> (udn_bind_fails F \<and> i = 1 \<and> sql \<noteq> kUpsertNextSql))"
  "sqlite3_step (mem_sqlite F) = mem_step F"
  "sqlite3_column_int (mem_sqlite F) (SInt x) = sint (word_of_int x :: 32 word)"
  "sqlite3_column_text (mem_sqlite F) (SText t) = Some t"
  "visible mem_view = md_visible" "durable mem_view = md_durable" "in_transaction mem_view = md_tx"
  by (simp_all add: mem_sqlite_def mem_view_def)

lemma mem_failed: "failed mem_view db db" "failed mem_view db (mem_undo db)"
  by (simp_all add: failed_def unchanged_def rolled_back_def mem_sqlite_fields mem_undo_def)

lemma mem_written: "written mem_view f db (mem_write f db)"
  by (simp add: written_def mem_write_def mem_sqlite_fields)

lemma mem_select_documented: "select_documented (mem_sqlite F) mem_view"
  unfolding select_documented_def
  by (auto simp: mem_sqlite_fields mem_step_simps column_def mem_failed unchanged_def text_param_def
      split: option.splits if_splits sqlval.splits)

lemma mem_write_documented: "write_documented (mem_sqlite F) mem_view"
  unfolding write_documented_def
  by (auto simp: mem_sqlite_fields mem_step_simps mem_failed mem_written insertable_def
      split: if_splits sqlval.splits)

lemma mem_sqlite_documented: "sqlite_documented (mem_sqlite F) mem_view"
  unfolding sqlite_documented_def open_close_documented_def exec_documented_def prepare_documented_def
  using mem_select_documented mem_write_documented
  by (auto simp: mem_sqlite_fields mem_exec_simps mem_undo_def unchanged_def split: if_splits)

lemma mem_opens_work: "opens_work (mem_sqlite F) mem_view"
  by (simp add: opens_work_def mem_sqlite_fields mem_exec_simps)

lemma mem_counter_queries_work: "counter_queries_work (mem_sqlite F)"
  by (simp add: counter_queries_work_def mem_sqlite_fields mem_step_simps split: option.splits)

lemma mem_inserts_work: "inserts_work (mem_sqlite F) mem_view"
  by (auto simp: inserts_work_def mem_sqlite_fields mem_step_simps insertable_def)

lemma mem_working:
  "\<not> query_aborts F \<Longrightarrow> \<not> counter_fails F \<Longrightarrow> sqlite_working (mem_sqlite F) mem_view"
  using mem_opens_work mem_counter_queries_work mem_inserts_work
  by (auto simp: sqlite_working_def queries_work_def updates_work_def mem_sqlite_fields mem_step_simps text_param_def
      split: option.splits sqlval.splits)

lemma mem_binds_succeed: "\<not> udn_bind_fails F \<Longrightarrow> binds_succeed (mem_sqlite F)"
  by (simp add: binds_succeed_def mem_sqlite_fields)

lemma mem_commits_succeed: "\<not> commit_fails F \<Longrightarrow> commits_succeed (mem_sqlite F) mem_view"
  by (simp add: commits_succeed_def mem_sqlite_fields mem_exec_simps)

lemma mem_sqlite_faultless: "sqlite_faultless (mem_sqlite no_faults) mem_view"
  using mem_working mem_binds_succeed mem_commits_succeed by (simp add: sqlite_faultless_def no_faults_def)

lemma empty_reg_ok: "reg_ok empty_tables"
  by (simp add: reg_ok_def empty_tables_def used_ids_def)

lemma mem_handle_ok: "registry_ok (mem_sqlite F, mem_view, p, mem_db empty_tables)"
  by (simp add: registry_ok_def mem_sqlite_documented) (simp add: mem_view_def mem_db_def empty_reg_ok)

lemma mem_handle_reliable: "registry_reliable (mem_sqlite no_faults, mem_view, p, mem_db empty_tables)"
  using mem_handle_ok by (simp add: registry_reliable_def mem_sqlite_faultless)

section \<open>The numbering of endpoints\<close>

lemma next_counter_row: "next_counter (assign_row p e T) = Inr (e + 1)"
proof -
  have "int (unat (e + 1)) \<le> INT_MAX"
    using uint_u16_bounds [of "e + 1"] by (simp add: INT_MAX_def)
  then show ?thesis
    by (simp add: next_counter_def assign_row_def set_counter_def stoi_to_string to_u16_def)
qed

lemma next_counter_assign: "next_counter (assign T udn e) = Inr (e + 1)"
  using next_counter_row [of "SText (cstr udn)"] by (simp add: assign_row_named)

lemma numbered_empty: "numbered empty_tables 2"
  by (simp add: numbered_def next_counter_def empty_tables_def kFirstDynamicEndpointId_def used_ids_def)

lemma used_assign:
  "endpoint_map T (cstr udn) = None \<Longrightarrow>
   used_ids (assign T udn e) = insert (uint e) (used_ids T)"
  by (simp add: assign_def used_ids_def)

lemma numbered_step:
  assumes "numbered T n" and "assigned_id T udn = None"
  shows "get_or_assign_spec T udn = (Inr (Some n), assign T udn n)"
  using assms by (simp add: get_or_assign_spec_def numbered_def)

lemma uint_Suc_u16: "uint (n :: u16) < 65535 \<Longrightarrow> uint (n + 1) = uint n + 1"
  by (simp add: uint_word_ariths)

lemma numbered_assign:
  assumes "numbered T n" and "assigned_id T udn = None" and "uint n < 65535"
  shows "numbered (assign T udn n) (n + 1)"
proof -
  have none: "endpoint_map T (cstr udn) = None" using assms(2) by (simp add: assigned_id_def)
  have "inj_on (endpoint_map (assign T udn n)) (dom (endpoint_map (assign T udn n)))"
    using assms(1) none by (auto simp: numbered_def assign_def inj_on_def dom_def ran_def used_ids_def)
  then show ?thesis
    using assms(1) none uint_Suc_u16 [OF assms(3)]
    by (auto simp: numbered_def next_counter_assign used_assign)
qed

text \<open>A table with every dynamic id in use.\<close>

definition full_tables :: reg_tables where
  "full_tables =
     \<lparr>endpoint_map = (\<lambda>s. let i = fst (strtol s)
        in if 2 \<le> i \<and> i < 65535 \<and> s = to_string (nat i) then Some i else None),
      unnamed_ids = {}, bridge_meta = [kNextKey \<mapsto> to_string 65535]\<rparr>"

lemma full_map: "2 \<le> i \<Longrightarrow> i < 65535 \<Longrightarrow> endpoint_map full_tables (to_string (nat i)) = Some i"
  using strtol_to_string [of "nat i"] by (simp add: full_tables_def LONG_MAX_def)

lemma full_map_Some: "endpoint_map full_tables s = Some i \<Longrightarrow> 2 \<le> i \<and> i < 65535 \<and> s = to_string (nat i)"
  by (auto simp: full_tables_def Let_def split: if_splits)

lemma numbered_full: "numbered full_tables 65535"
proof -
  have "stoi (to_string 65535) = Inr 65535"
    using stoi_to_string [of 65535] by (simp add: INT_MAX_def)
  then have "next_counter full_tables = Inr 65535"
    by (simp add: next_counter_def full_tables_def to_u16_def)
  moreover have "ran (endpoint_map full_tables) = {2..<65535}"
  proof
    show "ran (endpoint_map full_tables) \<subseteq> {2..<65535}"
      by (auto simp: ran_def dest: full_map_Some)
    show "{2..<65535} \<subseteq> ran (endpoint_map full_tables)"
    proof
      fix i :: int
      assume "i \<in> {2..<65535}"
      then have "endpoint_map full_tables (to_string (nat i)) = Some i"
        by (intro full_map) simp_all
      then show "i \<in> ran (endpoint_map full_tables)" by (rule ranI)
    qed
  qed
  moreover have "inj_on (endpoint_map full_tables) (dom (endpoint_map full_tables))"
  proof (rule inj_onI)
    fix s t
    assume st: "s \<in> dom (endpoint_map full_tables)"
      and eq: "endpoint_map full_tables s = endpoint_map full_tables t"
    from st obtain i where "endpoint_map full_tables s = Some i" by blast
    with eq show "s = t" using full_map_Some by metis
  qed
  moreover have "unnamed_ids full_tables = {}" by (simp add: full_tables_def)
  ultimately show ?thesis by (simp add: numbered_def used_ids_def)
qed

lemma max_u16_Suc: "(65536 :: u16) = 0"
  by (rule word_uint_eqI) simp

section \<open>Properties of the registry\<close>

text \<open>
  C19. When no SQLite call fails, \<open>GetOrAssign\<close> is the assignment on tables: it returns a
  known id unchanged, otherwise stores and returns the recorded counter and advances it,
  and reports a conflict or an unreadable counter without changing the stored tables.
\<close>

theorem registry_refines_spec:
  assumes "sqlite_documented S V" and "sqlite_faultless S V"
    and "GetOrAssign S mPath udn db = (r, db')"
  shows "(r, durable V db') = get_or_assign_spec (durable V db) udn"
  using assms by (rule GetOrAssign_refines_spec)

theorem registry_refines_spec_witness:
  "case GetOrAssign (mem_sqlite no_faults) ''./var/r.db'' ''uuid:a'' (mem_db empty_tables) of
     (r, db') \<Rightarrow> (r, durable mem_view db') =
       get_or_assign_spec (durable mem_view (mem_db empty_tables)) ''uuid:a''"
proof -
  obtain r db' where
    g: "GetOrAssign (mem_sqlite no_faults) ''./var/r.db'' ''uuid:a'' (mem_db empty_tables) = (r, db')"
    by fastforce
  show ?thesis
    using registry_refines_spec [OF mem_sqlite_documented mem_sqlite_faultless g] g by simp
qed

text \<open>
  C20. Whatever call of SQLite fails on the way, ignored binds and lost transactions included,
  \<open>GetOrAssign\<close> never changes or drops a stored assignment, never returns the endpoint of
  another device, stores nothing but a so far unused id under the UDN that was asked for, and
  keeps the stored ids pairwise different. As long as no bind fails, a known UDN is never given
  another id than its own; as long as no failing call ends the transaction, an operation that
  returns no endpoint has stored nothing.
\<close>

theorem registry_safe_under_faults:
  assumes "sqlite_documented S V" and "reg_ok (durable V db)"
    and "GetOrAssign S mPath udn db = (r, db')"
  shows "reg_ok (durable V db') \<and>
    (\<forall>v. assigned_id (durable V db) v \<noteq> None \<longrightarrow>
       assigned_id (durable V db') v = assigned_id (durable V db) v) \<and>
    (\<forall>e. r = Inr (Some e) \<longrightarrow>
       assigned_id (durable V db) udn = Some e \<or> uint e \<notin> used_ids (durable V db)) \<and>
    (\<forall>v. assigned_id (durable V db') v \<noteq> assigned_id (durable V db) v \<longrightarrow>
       cstr v = cstr udn \<and> (\<exists>e. assigned_id (durable V db') v = Some e \<and> uint e \<notin> used_ids (durable V db))) \<and>
    (binds_succeed S \<longrightarrow> unnamed_ids (durable V db') = unnamed_ids (durable V db) \<and>
       (\<forall>e. r = Inr (Some e) \<longrightarrow> assigned_id (durable V db) udn \<in> {None, Some e})) \<and>
    (transactions_last S V \<longrightarrow> (\<forall>e. r \<noteq> Inr (Some e)) \<longrightarrow> durable V db' = durable V db)"
proof -
  note t = GetOrAssign_tables [OF assms]
  have b: "\<forall>v. assigned_id (durable V db) v \<noteq> None \<longrightarrow>
      assigned_id (durable V db') v = assigned_id (durable V db) v"
    using t(2) by fastforce
  have c: "\<forall>v. assigned_id (durable V db') v \<noteq> assigned_id (durable V db) v \<longrightarrow>
      cstr v = cstr udn \<and> (\<exists>e. assigned_id (durable V db') v = Some e \<and> uint e \<notin> used_ids (durable V db))"
  proof (intro allI impI)
    fix v
    assume ne: "assigned_id (durable V db') v \<noteq> assigned_id (durable V db) v"
    with b have none: "assigned_id (durable V db) v = None" by metis
    with ne obtain e where "assigned_id (durable V db') v = Some e" by force
    with t(4) [OF none this] show "cstr v = cstr udn \<and>
        (\<exists>e. assigned_id (durable V db') v = Some e \<and> uint e \<notin> used_ids (durable V db))" by blast
  qed
  show ?thesis using t(1) b c t(3) t(5,6,7) by blast
qed

theorem registry_safe_under_faults_witness:
  "case GetOrAssign (mem_sqlite (no_faults\<lparr>udn_bind_fails := True\<rparr>)) ''./var/r.db'' ''uuid:a'' (mem_db empty_tables) of
     (r, db') \<Rightarrow> reg_ok (durable mem_view db') \<and> assigned_id (durable mem_view db') ''uuid:b'' = None"
proof -
  let ?S = "mem_sqlite (no_faults\<lparr>udn_bind_fails := True\<rparr>)"
  obtain r db' where g: "GetOrAssign ?S ''./var/r.db'' ''uuid:a'' (mem_db empty_tables) = (r, db')"
    by fastforce
  have ok: "reg_ok (durable mem_view (mem_db empty_tables))"
    by (simp add: mem_view_def mem_db_def empty_reg_ok)
  have "assigned_id (durable mem_view (mem_db empty_tables)) ''uuid:b'' = None"
    "cstr ''uuid:b'' \<noteq> cstr ''uuid:a''"
    by (simp_all add: mem_view_def mem_db_def assigned_id_def empty_tables_def cstr_def)
  with registry_safe_under_faults [OF mem_sqlite_documented ok g]
  have "reg_ok (durable mem_view db') \<and> assigned_id (durable mem_view db') ''uuid:b'' = None" by metis
  then show ?thesis using g by simp
qed

text \<open>
  On a working database one pass over the discovered devices gives pairwise different
  UDNs pairwise different endpoints, and each id it returns is the one a later lookup finds.
\<close>

theorem registry_listing_distinct:
  assumes "sqlite_documented S V" and "sqlite_faultless S V" and "reg_ok (durable V db)"
    and "assign_all registry_get_or_assign (S, V, mPath, db) us = (Inr xs, h')"
    and "i < length us" and "j < length us" and "xs ! i = Some e" and "xs ! j = Some e'"
  shows "fst (registry_lookup h' (us ! i)) = Some e \<and> (e = e' \<longrightarrow> cstr (us ! i) = cstr (us ! j))"
proof -
  have rel: "registry_reliable (S, V, mPath, db)"
    using assms(1-3) by (simp add: registry_defs)
  have "registry_reliable h'"
    using bridge_registry_reliable.assign_all_keeps [OF rel assms(4)] by simp
  then have "fst (registry_lookup h' (us ! i)) = Some e"
    using bridge_registry_reliable.assign_all_committed [OF rel assms(4,5,7)]
    by (simp add: bridge_registry_reliable.lookup_complete)
  moreover have "e = e' \<Longrightarrow> cstr (us ! i) = cstr (us ! j)"
    using bridge_registry_reliable.assign_all_distinct [OF rel assms(4,5,6,7)] assms(8) by simp
  ultimately show ?thesis by blast
qed

text \<open>
  While the counter has not reached the end of the 16-bit range, a new UDN gets exactly
  the next number: the dynamic endpoints in use are 2, 3, ... without gaps, and none below 2.
\<close>

theorem registry_numbering:
  assumes "sqlite_documented S V" and "sqlite_faultless S V"
    and "numbered (durable V db) n" and "uint n < 65535"
    and "assigned_id (durable V db) udn = None"
    and "GetOrAssign S mPath udn db = (r, db')"
  shows "r = Inr (Some n) \<and> 2 \<le> uint n \<and> numbered (durable V db') (n + 1)"
proof -
  have "(r, durable V db') = (Inr (Some n), assign (durable V db) udn n)"
    using GetOrAssign_refines_spec [OF assms(1,2,6)] numbered_step [OF assms(3,5)] by simp
  moreover have "2 \<le> uint n" using assms(3) by (simp add: numbered_def)
  ultimately show ?thesis using numbered_assign [OF assms(3,5,4)] by simp
qed

text \<open>
  C34. At the end of the range the counter wraps: after id 65535 the next new device is given
  endpoint 0, the root endpoint of the node, below the first dynamic endpoint.
\<close>

theorem registry_counter_wraps:
  assumes "sqlite_documented S V" and "sqlite_faultless S V"
    and "numbered (durable V db) 65535"
    and "assigned_id (durable V db) u = None" and "assigned_id (durable V db) v = None"
    and "cstr v \<noteq> cstr u"
    and "GetOrAssign S mPath u db = (r, db')" and "GetOrAssign S mPath v db' = (r', db'')"
  shows "r = Inr (Some 65535) \<and> r' = Inr (Some 0)"
proof -
  let ?T = "assign (durable V db) u 65535"
  have 1: "(r, durable V db') = (Inr (Some 65535), ?T)"
    using GetOrAssign_refines_spec [OF assms(1,2,7)] numbered_step [OF assms(3,4)] by simp
  have "used_ids ?T = insert 65535 {2..<65535}"
    using assms(3,4) by (simp add: used_assign assigned_id_def numbered_def)
  then have "(0::int) \<notin> used_ids ?T" by simp
  moreover have "assigned_id ?T v = None" using assms(5,6) by (simp add: assigned_id_assign)
  ultimately have "get_or_assign_spec ?T v = (Inr (Some 0), assign ?T v 0)"
    by (simp add: get_or_assign_spec_def next_counter_assign max_u16_Suc)
  then show ?thesis using GetOrAssign_refines_spec [OF assms(1,2,8)] 1 by simp
qed

text \<open>
  C35. The result of the commit is not looked at. When commits fail and nothing else does,
  \<open>GetOrAssign\<close> returns the next endpoint for any new UDN although nothing is stored: a lookup
  does not find it, and the next new UDN is given the same endpoint.
\<close>

theorem registry_commit_unchecked:
  assumes "sqlite_documented S V" and "sqlite_working S V" and "binds_succeed S"
    and "\<And>db. \<not> fst (sqlite3_exec S kCommitSql db)"
    and "next_counter (durable V db) = Inr n" and "uint n \<notin> used_ids (durable V db)"
    and "assigned_id (durable V db) u = None" and "assigned_id (durable V db) v = None"
    and "GetOrAssign S mPath u db = (r, db1)" and "Lookup S mPath u db1 = (l, db2)"
    and "GetOrAssign S mPath v db2 = (r', db3)"
  shows "r = Inr (Some n) \<and> l = None \<and> r' = Inr (Some n) \<and> durable V db3 = durable V db"
proof -
  have one: "x = Inr (Some n) \<and> durable V d' = durable V db"
    if "GetOrAssign S mPath w d = (x, d')" "durable V d = durable V db" "assigned_id (durable V db) w = None"
    for w d x d'
    using GetOrAssign_working [OF assms(1,2) binds_as_ok [OF assms(3)] that(1,2)] that(3) assms(5,6)
      stored(2) [OF assms(1) _ assms(4)] by auto
  note a = one [OF assms(9) refl assms(7)]
  note k = Lookup_keeps [OF assms(1,10)]
  have "l = None" "durable V db2 = durable V db" using k a assms(2,3,7) by simp_all
  with a one [OF assms(11) _ assms(8)] show ?thesis by simp
qed

text \<open>
  C36. The results of the binds are not looked at either. When the binds of a UDN fail and nothing else does,
  \<open>GetOrAssign\<close> returns a fresh endpoint for it, also when the UDN has another one, uses that
  endpoint up and advances the counter, but stores nothing under the UDN: every call takes one
  more endpoint.
\<close>

theorem registry_binds_unchecked:
  assumes "sqlite_documented S V" and "sqlite_working S V" and "commits_succeed S V" and "binds_as S u SNull"
    and "reg_ok (durable V db)"
    and "next_counter (durable V db) = Inr n" and "uint n \<notin> used_ids (durable V db)"
    and "GetOrAssign S mPath u db = (r, db1)"
  shows "r = Inr (Some n) \<and> assigned_id (durable V db) u \<noteq> Some n \<and>
    assigned_id (durable V db1) = assigned_id (durable V db) \<and>
    used_ids (durable V db1) = insert (uint n) (used_ids (durable V db)) \<and>
    next_counter (durable V db1) = Inr (n + 1)"
proof -
  have "r = Inr (Some n)" and d: "durable V db1 = assign_row SNull n (durable V db)"
    using GetOrAssign_working [OF assms(1,2,4,8) refl] assms(6,7) stored(1) [OF assms(1) _ assms(3)] by auto
  moreover have "assigned_id (durable V db) u \<noteq> Some n" using assigned_id_used [OF assms(5)] assms(7) by blast
  moreover have "assigned_id (durable V db1) = assigned_id (durable V db)"
    by (simp add: d assign_row_def assigned_id_insert fun_eq_iff)
  moreover have "used_ids (durable V db1) = insert (uint n) (used_ids (durable V db))"
    by (simp add: d assign_row_def set_counter_def insert_row_def used_ids_def)
  moreover have "next_counter (durable V db1) = Inr (n + 1)" by (simp add: d next_counter_row)
  ultimately show ?thesis by blast
qed

text \<open>
  C37. A transaction that SQLite ends by itself is not noticed. When the first query of an
  assignment fails that way, the insert is committed on its own; if the counter cannot be
  advanced after it, the operation reports failure with the endpoint stored, and the counter
  names an endpoint in use. From then on no new device gets an endpoint, even when the
  database has no fault any more.
\<close>

theorem registry_lost_transaction_blocks:
  assumes "sqlite_documented S V" and "opens_work S V" and "counter_queries_work S" and "inserts_work S V"
    and "binds_succeed S" and "\<And>p db. fst (sqlite3_step S kUpsertNextSql [p] db) \<noteq> StepDone"
    and "\<And>p db rc db'. sqlite3_step S kSelectEndpointSql [p] db = (rc, db') \<Longrightarrow> in_transaction V db \<Longrightarrow>
      rc = StepError \<and> \<not> in_transaction V db'"
    and "next_counter (durable V db) = Inr n" and "uint n \<notin> used_ids (durable V db)"
    and "assigned_id (durable V db) u = None" and "GetOrAssign S mPath u db = (r, db1)"
    and "sqlite_documented S' V" and "sqlite_faultless S' V" and "assigned_id (durable V db1) v = None"
    and "GetOrAssign S' mPath v db1 = (r', db2)"
  shows "r = Inr None \<and> assigned_id (durable V db1) u = Some n \<and> r' = Inr None \<and> durable V db2 = durable V db1"
proof -
  let ?T = "durable V db"
  have half: "r = Inr None \<and> durable V db1 = insert_row (SText (cstr u)) (uint n) ?T"
    using assms(1,11)
  proof (cases rule: GetOrAssign_begin)
    case (new d2 d3)
    show ?thesis by (rule lost_transaction [OF assms(1-6) _ new(4,6) assms(8-10)])
      (use lost_query [OF assms(1,2,7) new(2,3)] in simp)
  qed (use assms(2,10) in simp_all)
  then have id: "assigned_id (durable V db1) u = Some n" by (simp add: assigned_id_insert)
  have "next_counter (durable V db1) = Inr n" "uint n \<in> used_ids (durable V db1)"
    using half assms(8) by (auto simp: next_counter_def insert_row_def used_ids_def ran_def)
  then have "get_or_assign_spec (durable V db1) v = (Inr None, durable V db1)"
    using assms(14) by (simp add: get_or_assign_spec_def)
  then show ?thesis using GetOrAssign_refines_spec [OF assms(12,13,15)] half id by simp
qed

text \<open>
  \<open>GetOrAssign\<close> followed by \<open>Lookup\<close> on a working database gives the assigned id back,
  and asking again gives the same id and stores nothing new.
\<close>

theorem registry_roundtrip:
  assumes "sqlite_documented S V" and "sqlite_faultless S V"
    and "GetOrAssign S mPath udn db = (Inr (Some e), db')"
    and "Lookup S mPath udn db' = (l, db1)" and "GetOrAssign S mPath udn db' = (r, db2)"
  shows "l = Some e \<and> r = Inr (Some e) \<and> durable V db2 = durable V db'"
proof -
  have a: "assigned_id (durable V db') udn = Some e"
    using GetOrAssign_refines_spec [OF assms(1-3), symmetric]
    by (rule get_or_assign_spec_committed)
  have "sqlite_working S V \<and> binds_succeed S" using assms(2) by (simp add: sqlite_faultless_def)
  then have "l = Some e" using Lookup_keeps [OF assms(1,4)] a by metis
  moreover have "(r, durable V db2) = (Inr (Some e), durable V db')"
    using GetOrAssign_refines_spec [OF assms(1,2,5)] a by (simp add: get_or_assign_spec_def)
  ultimately show ?thesis by simp
qed

section \<open>Witnesses\<close>

lemma mem_durable: "durable mem_view (mem_db T) = T"
  by (simp add: mem_view_def mem_db_def)

lemma mem_assign_run:
  "\<exists>db'. GetOrAssign (mem_sqlite no_faults) p u (mem_db empty_tables) = (Inr (Some 2), db')"
proof -
  obtain r db' where g: "GetOrAssign (mem_sqlite no_faults) p u (mem_db empty_tables) = (r, db')"
    by fastforce
  have "assigned_id empty_tables u = None" by (simp add: assigned_id_def empty_tables_def)
  from numbered_step [OF numbered_empty this] GetOrAssign_refines_spec
    [OF mem_sqlite_documented mem_sqlite_faultless g]
  have "r = Inr (Some 2)" by (simp add: mem_durable)
  with g show ?thesis by blast
qed

theorem registry_listing_distinct_witness:
  "\<exists>h' :: memdb registry_handle. fst (registry_lookup h' ''uuid:a'') = Some 2"
proof -
  obtain db' where
    g: "GetOrAssign (mem_sqlite no_faults) ''./r.db'' ''uuid:a'' (mem_db empty_tables) = (Inr (Some 2), db')"
    using mem_assign_run by blast
  have ok: "reg_ok (durable mem_view (mem_db empty_tables))" by (simp add: mem_durable empty_reg_ok)
  have run: "assign_all registry_get_or_assign (mem_sqlite no_faults, mem_view, ''./r.db'', mem_db empty_tables)
      [''uuid:a''] = (Inr [Some 2], (mem_sqlite no_faults, mem_view, ''./r.db'', db'))"
    by (simp add: registry_get_or_assign_def g)
  have i: "0 < length [''uuid:a'']" and x: "[Some (2 :: u16)] ! 0 = Some 2" by simp_all
  note registry_listing_distinct [OF mem_sqlite_documented mem_sqlite_faultless ok run i i x x]
  then have "fst (registry_lookup (mem_sqlite no_faults, mem_view, ''./r.db'', db') ([''uuid:a''] ! 0)) = Some 2"
    by (rule conjunct1)
  then have "fst (registry_lookup (mem_sqlite no_faults, mem_view, ''./r.db'', db') ''uuid:a'') = Some 2"
    by simp
  then show ?thesis by blast
qed

theorem registry_numbering_witness:
  "\<exists>db'. GetOrAssign (mem_sqlite no_faults) ''./r.db'' ''uuid:a'' (mem_db empty_tables) =
     (Inr (Some 2), db') \<and> numbered (durable mem_view db') 3"
proof -
  obtain db' where
    g: "GetOrAssign (mem_sqlite no_faults) ''./r.db'' ''uuid:a'' (mem_db empty_tables) = (Inr (Some 2), db')"
    using mem_assign_run by blast
  have "numbered (durable mem_view (mem_db empty_tables)) 2"
    "assigned_id (durable mem_view (mem_db empty_tables)) ''uuid:a'' = None"
    by (simp_all add: mem_durable numbered_empty) (simp add: assigned_id_def empty_tables_def)
  from registry_numbering [OF mem_sqlite_documented mem_sqlite_faultless this(1) _ this(2) g] g
  show ?thesis by simp
qed

theorem registry_counter_wraps_witness:
  "fst (GetOrAssign (mem_sqlite no_faults) ''./r.db'' ''uuid:a'' (mem_db full_tables)) = Inr (Some 65535)"
proof -
  obtain r db' where
    1: "GetOrAssign (mem_sqlite no_faults) ''./r.db'' ''uuid:a'' (mem_db full_tables) = (r, db')"
    by fastforce
  obtain r' db'' where 2: "GetOrAssign (mem_sqlite no_faults) ''./r.db'' ''uuid:b'' db' = (r', db'')"
    by fastforce
  have "\<not> starts_digit ''uuid:a''" "\<not> starts_digit ''uuid:b''"
    by (simp_all add: starts_digit_def is_digit_def)
  then have "endpoint_map full_tables ''uuid:a'' = None" "endpoint_map full_tables ''uuid:b'' = None"
    using full_map_Some to_string_starts_digit by (metis not_None_eq)+
  then have new: "assigned_id (durable mem_view (mem_db full_tables)) ''uuid:a'' = None"
      "assigned_id (durable mem_view (mem_db full_tables)) ''uuid:b'' = None"
    by (simp_all add: mem_durable assigned_id_def cstr_def)
  have "numbered (durable mem_view (mem_db full_tables)) 65535"
    by (simp add: mem_durable numbered_full)
  from registry_counter_wraps [OF mem_sqlite_documented mem_sqlite_faultless this new _ 1 2]
  show ?thesis by (simp add: 1 cstr_def)
qed

theorem registry_roundtrip_witness:
  "\<exists>db'. GetOrAssign (mem_sqlite no_faults) ''./r.db'' ''uuid:a'' (mem_db empty_tables) =
      (Inr (Some 2), db') \<and>
    fst (Lookup (mem_sqlite no_faults) ''./r.db'' ''uuid:a'' db') = Some 2"
proof -
  obtain db' where
    g: "GetOrAssign (mem_sqlite no_faults) ''./r.db'' ''uuid:a'' (mem_db empty_tables) = (Inr (Some 2), db')"
    using mem_assign_run by blast
  obtain l db1 where l: "Lookup (mem_sqlite no_faults) ''./r.db'' ''uuid:a'' db' = (l, db1)" by fastforce
  obtain r db2 where r: "GetOrAssign (mem_sqlite no_faults) ''./r.db'' ''uuid:a'' db' = (r, db2)"
    by fastforce
  from registry_roundtrip [OF mem_sqlite_documented mem_sqlite_faultless g l r] g l
  show ?thesis by simp
qed

text \<open>An empty database, and the three faults at work on it.\<close>

lemma mem_empty_facts:
  "next_counter (durable mem_view (mem_db empty_tables)) = Inr 2"
  "uint (2 :: u16) \<notin> used_ids (durable mem_view (mem_db empty_tables))"
  "assigned_id (durable mem_view (mem_db empty_tables)) u = None"
  using numbered_empty by (simp_all add: mem_durable numbered_def) (simp add: assigned_id_def empty_tables_def)

theorem registry_commit_unchecked_witness:
  "\<exists>db1 db2 db3 :: memdb.
     GetOrAssign (mem_sqlite (no_faults\<lparr>commit_fails := True\<rparr>)) ''./r.db'' ''uuid:a'' (mem_db empty_tables) =
       (Inr (Some 2), db1) \<and>
     Lookup (mem_sqlite (no_faults\<lparr>commit_fails := True\<rparr>)) ''./r.db'' ''uuid:a'' db1 = (None, db2) \<and>
     GetOrAssign (mem_sqlite (no_faults\<lparr>commit_fails := True\<rparr>)) ''./r.db'' ''uuid:b'' db2 = (Inr (Some 2), db3)"
proof -
  let ?S = "mem_sqlite (no_faults\<lparr>commit_fails := True\<rparr>)"
  obtain r db1 where 1: "GetOrAssign ?S ''./r.db'' ''uuid:a'' (mem_db empty_tables) = (r, db1)" by fastforce
  obtain l db2 where 2: "Lookup ?S ''./r.db'' ''uuid:a'' db1 = (l, db2)" by fastforce
  obtain r' db3 where 3: "GetOrAssign ?S ''./r.db'' ''uuid:b'' db2 = (r', db3)" by fastforce
  have w: "sqlite_working ?S mem_view" "binds_succeed ?S"
    by (rule mem_working mem_binds_succeed; simp add: no_faults_def)+
  have c: "\<not> fst (sqlite3_exec ?S kCommitSql db)" for db by (simp add: mem_sqlite_fields mem_exec_simps)
  from registry_commit_unchecked [OF mem_sqlite_documented w c mem_empty_facts(1,2,3,3) 1 2 3] 1 2 3
  show ?thesis by blast
qed

theorem registry_binds_unchecked_witness:
  "\<exists>db1 :: memdb.
     GetOrAssign (mem_sqlite (no_faults\<lparr>udn_bind_fails := True\<rparr>)) ''./r.db'' ''uuid:a'' (mem_db empty_tables) =
       (Inr (Some 2), db1) \<and> assigned_id (durable mem_view db1) ''uuid:a'' = None \<and>
     next_counter (durable mem_view db1) = Inr 3"
proof -
  let ?S = "mem_sqlite (no_faults\<lparr>udn_bind_fails := True\<rparr>)"
  obtain r db1 where 1: "GetOrAssign ?S ''./r.db'' ''uuid:a'' (mem_db empty_tables) = (r, db1)" by fastforce
  have w: "sqlite_working ?S mem_view" "commits_succeed ?S mem_view"
    by (rule mem_working mem_commits_succeed; simp add: no_faults_def)+
  have b: "binds_as ?S ''uuid:a'' SNull"
    using step_texts_distinct by (simp add: binds_as_def bound_def mem_sqlite_fields)
  have ok: "reg_ok (durable mem_view (mem_db empty_tables))" by (simp add: mem_durable empty_reg_ok)
  from registry_binds_unchecked [OF mem_sqlite_documented w b ok mem_empty_facts(1,2) 1] 1
  show ?thesis using mem_empty_facts(3) [of "''uuid:a''"] by simp
qed

theorem registry_lost_transaction_blocks_witness:
  "\<exists>db1 db2 :: memdb.
     GetOrAssign (mem_sqlite (no_faults\<lparr>query_aborts := True, counter_fails := True\<rparr>)) ''./r.db'' ''uuid:a''
       (mem_db empty_tables) = (Inr None, db1) \<and>
     assigned_id (durable mem_view db1) ''uuid:a'' = Some 2 \<and>
     GetOrAssign (mem_sqlite no_faults) ''./r.db'' ''uuid:b'' db1 = (Inr None, db2)"
proof -
  let ?S = "mem_sqlite (no_faults\<lparr>query_aborts := True, counter_fails := True\<rparr>)"
  obtain r db1 where 1: "GetOrAssign ?S ''./r.db'' ''uuid:a'' (mem_db empty_tables) = (r, db1)" by fastforce
  obtain r' db2 where 2: "GetOrAssign (mem_sqlite no_faults) ''./r.db'' ''uuid:b'' db1 = (r', db2)" by fastforce
  have b: "binds_succeed ?S" by (rule mem_binds_succeed) (simp add: no_faults_def)
  have u: "fst (sqlite3_step ?S kUpsertNextSql [p] db) \<noteq> StepDone" for p db
    by (simp add: mem_sqlite_fields mem_step_simps split: sqlval.splits)
  have q: "rc = StepError \<and> \<not> in_transaction mem_view db'"
    if "sqlite3_step ?S kSelectEndpointSql [p] db = (rc, db')" "in_transaction mem_view db" for p db rc db'
    using that by (auto simp: mem_sqlite_fields mem_step_simps mem_undo_def)
  note safe = GetOrAssign_tables(4) [OF mem_sqlite_documented _ 1, where v = "''uuid:b''"]
  have "assigned_id (durable mem_view db1) ''uuid:b'' = None"
    using safe mem_empty_facts(3) [of "''uuid:b''"] by (force simp: mem_durable empty_reg_ok cstr_def)
  from registry_lost_transaction_blocks [OF mem_sqlite_documented mem_opens_work mem_counter_queries_work
      mem_inserts_work b u q mem_empty_facts(1,2,3) 1 mem_sqlite_documented mem_sqlite_faultless this 2] 1 2
  show ?thesis by simp
qed

end
