(* ===== verification/Cli.thy ===== *)
theory Cli
  imports Adapter_Contract Registry_Contract
begin

text \<open>
  The smoke-test command line of \<^verbatim>\<open>src/main.cpp\<close>: argument parsing, the \<open>list\<close>,
  \<open>set-on\<close>, \<open>set-off\<close> and \<open>set-level\<close> commands over the engine adapter and the endpoint
  registry. Output is the list of lines written to each stream.
\<close>

section \<open>Parsing\<close>

definition ParsePercent :: "string \<Rightarrow> int option" where
  "ParsePercent value =
     (let (parsed, end_ptr) = strtol (cstr value)
      in if end_ptr \<noteq> '''' \<or> parsed < 0 \<or> parsed > 100 then None else Some parsed)"

definition usage_lines :: "string \<Rightarrow> string list" where
  "usage_lines bin =
     [''Usage:'',
      ''  '' @ bin @ '' list'',
      ''  '' @ bin @ '' set-on <udn>'',
      ''  '' @ bin @ '' set-off <udn>'',
      ''  '' @ bin @ '' set-level <udn> <0-100>'']"

section \<open>The program\<close>

datatype exit_status = Exit int | UncaughtException stoi_error

record ('e, 'c, 'db) cli_state =
  cli_adapter :: "('e, 'c) adapter"
  cli_db :: 'db
  cli_out :: "string list"
  cli_err :: "string list"

definition kRegistryPath :: string where
  "kRegistryPath = ''./var/endpoint-map.sqlite3''"

definition kEngineSocket :: string where
  "kEngineSocket = ''127.0.0.1:49153''"

definition out_line :: "string \<Rightarrow> ('e, 'c, 'db) cli_state \<Rightarrow> ('e, 'c, 'db) cli_state" where
  "out_line l s = s\<lparr>cli_out := cli_out s @ [l]\<rparr>"

definition err_line :: "string \<Rightarrow> ('e, 'c, 'db) cli_state \<Rightarrow> ('e, 'c, 'db) cli_state" where
  "err_line l s = s\<lparr>cli_err := cli_err s @ [l]\<rparr>"

definition flag :: "bool \<Rightarrow> string" where
  "flag b = (if b then ''1'' else ''0'')"

definition device_line :: "wemo_device \<Rightarrow> u16 option \<Rightarrow> string" where
  "device_line device endpoint_id =
     ''udn='' @ wd_udn device @ '' wemo_id='' @ int_to_string (wd_wemo_id device) @
     '' endpoint='' @ (case endpoint_id of Some e \<Rightarrow> to_string (unat e) | None \<Rightarrow> ''n/a'') @
     '' online='' @ flag (wd_is_online device) @
     '' onoff='' @ int_to_string (uint (wd_onoff device)) @
     '' level='' @ int_to_string (uint (wd_level_percent device)) @
     '' supports_level='' @ flag (wd_supports_level device) @
     '' name='' @ [CHR 0x22] @ wd_friendly_name device @ [CHR 0x22]"

text \<open>The loop of \<open>list\<close>; an exception of the registry ends the program.\<close>

fun list_loop ::
    "'db sqlite \<Rightarrow> wemo_device list \<Rightarrow> ('e, 'c, 'db) cli_state \<Rightarrow>
     exit_status \<times> ('e, 'c, 'db) cli_state" where
  "list_loop S [] s = (Exit 0, s)"
| "list_loop S (device # devices) s =
     (case GetOrAssign S kRegistryPath (wd_udn device) (cli_db s) of
        (Inl err, db) \<Rightarrow> (UncaughtException err, s\<lparr>cli_db := db\<rparr>)
      | (Inr endpoint_id, db) \<Rightarrow>
          list_loop S devices (out_line (device_line device endpoint_id) (s\<lparr>cli_db := db\<rparr>)))"

definition run_list ::
    "'e engine \<Rightarrow> 'db sqlite \<Rightarrow> ('e, 'c, 'db) cli_state \<Rightarrow> exit_status \<times> ('e, 'c, 'db) cli_state" where
  "run_list E S s =
     (let (devices, a) = Discover E (cli_adapter s);
          s = out_line (''discovered_devices='' @ to_string (length devices)) (s\<lparr>cli_adapter := a\<rparr>)
      in list_loop S devices s)"

definition run_set_onoff ::
    "'e engine \<Rightarrow> string \<Rightarrow> string \<Rightarrow> ('e, 'c, 'db) cli_state \<Rightarrow>
     exit_status \<times> ('e, 'c, 'db) cli_state" where
  "run_set_onoff E cmd udn s =
     (let on = (cmd = ''set-on'');
          (ok, a) = SetOnOff E udn on (cli_adapter s);
          s = s\<lparr>cli_adapter := a\<rparr>
      in if \<not> ok then (Exit 1, err_line (''failed: '' @ cmd @ '' udn='' @ udn) s)
         else (Exit 0, out_line (''ok: '' @ cmd @ '' udn='' @ udn) s))"

definition run_set_level ::
    "'e engine \<Rightarrow> string \<Rightarrow> string \<Rightarrow> ('e, 'c, 'db) cli_state \<Rightarrow>
     exit_status \<times> ('e, 'c, 'db) cli_state" where
  "run_set_level E udn arg s =
     (case ParsePercent arg of
        None \<Rightarrow> (Exit 1, err_line (''invalid level percent: '' @ arg) s)
      | Some percent \<Rightarrow>
          (let (ok, a) = SetLevelPercent E udn (to_u8 percent) (cli_adapter s);
               s = s\<lparr>cli_adapter := a\<rparr>;
               what = ''set-level udn='' @ udn @ '' percent='' @ int_to_string percent
           in if \<not> ok then (Exit 1, err_line (''failed: '' @ what) s)
              else (Exit 0, out_line (''ok: '' @ what) s)))"

text \<open>\<open>main\<close>, on the argument vector (with the program name, when there is one, first).\<close>

definition cli_main ::
    "'e engine \<Rightarrow> 'db sqlite \<Rightarrow> string list \<Rightarrow> ('e, 'c, 'db) cli_state \<Rightarrow>
     exit_status \<times> ('e, 'c, 'db) cli_state" where
  "cli_main E S argv s =
     (let argc = length argv
      in if argc \<le> 1 \<or> argv ! 1 = ''list'' then run_list E S s
         else let cmd = argv ! 1
              in if (cmd = ''set-on'' \<or> cmd = ''set-off'') \<and> argc = 3
                 then run_set_onoff E cmd (argv ! 2) s
                 else if cmd = ''set-level'' \<and> argc = 4
                 then run_set_level E (argv ! 2) (argv ! 3) s
                 else (Exit 1, s\<lparr>cli_out := cli_out s @ usage_lines (argv ! 0)\<rparr>))"

definition cli_init :: "'e \<Rightarrow> 'db \<Rightarrow> ('e, 'c, 'db) cli_state" where
  "cli_init e db =
     \<lparr>cli_adapter = new_adapter kEngineSocket e, cli_db = db, cli_out = [], cli_err = []\<rparr>"

section \<open>Facts\<close>

lemma ParsePercent_range: "ParsePercent v = Some p \<Longrightarrow> 0 \<le> p \<and> p \<le> 100"
  by (auto simp: ParsePercent_def split: prod.splits if_splits)

lemma ParsePercent_int:
  "LONG_MIN < i \<Longrightarrow> i \<le> LONG_MAX \<Longrightarrow>
   ParsePercent (int_to_string i) = (if 0 \<le> i \<and> i \<le> 100 then Some i else None)"
proof -
  assume i: "LONG_MIN < i" "i \<le> LONG_MAX"
  have "CHR 0x00 \<notin> set (int_to_string i)"
    using to_string_no_nul by (simp add: int_to_string_def)
  then show ?thesis
    using strtol_int_to_string [OF i] by (simp add: ParsePercent_def cstr_id)
qed

lemma list_loop_frame:
  "list_loop S devices s = (x, s') \<Longrightarrow>
   cli_adapter s' = cli_adapter s \<and> cli_err s' = cli_err s \<and>
   (\<exists>ls. cli_out s' = cli_out s @ ls \<and> length ls \<le> length devices \<and>
      (x = Exit 0 \<longrightarrow> length ls = length devices)) \<and> (x = Exit 0 \<or> (\<exists>e. x = UncaughtException e))"
proof (induction S devices s arbitrary: x s' rule: list_loop.induct)
  case (2 S device devices s)
  show ?case
  proof (cases "GetOrAssign S kRegistryPath (wd_udn device) (cli_db s)")
    case (Pair r db)
    show ?thesis
    proof (cases r)
      case (Inl err)
      then show ?thesis using 2 Pair by auto
    next
      case (Inr e)
      let ?s1 = "out_line (device_line device e) (s\<lparr>cli_db := db\<rparr>)"
      have "list_loop S devices ?s1 = (x, s')" using 2(2) Pair Inr by simp
      from 2(1) [OF Pair [symmetric] Inr this] show ?thesis
        by (force simp: out_line_def)
    qed
  qed
qed auto

text \<open>The endpoints the loop prints are the ones one pass of the registry assigns.\<close>

lemma list_loop_assign_all:
  assumes "list_loop S devices s = (Exit 0, s')"
  shows "\<exists>xs. assign_all registry_get_or_assign (S, V, kRegistryPath, cli_db s) (map wd_udn devices) =
      (Inr xs, (S, V, kRegistryPath, cli_db s')) \<and> length xs = length devices \<and>
      cli_out s' = cli_out s @ map2 device_line devices xs"
  using assms
proof (induction S devices s rule: list_loop.induct)
  case (2 S device devices s)
  obtain r db where g: "GetOrAssign S kRegistryPath (wd_udn device) (cli_db s) = (r, db)"
    by (rule prod.exhaust)
  with 2(2) obtain e where r: "r = Inr e" by (cases r) auto
  let ?s1 = "out_line (device_line device e) (s\<lparr>cli_db := db\<rparr>)"
  have "list_loop S devices ?s1 = (Exit 0, s')" using 2(2) g r by simp
  from 2(1) [OF g [symmetric] r this] obtain xs where
    "assign_all registry_get_or_assign (S, V, kRegistryPath, db) (map wd_udn devices) =
      (Inr xs, (S, V, kRegistryPath, cli_db s'))" "length xs = length devices"
    "cli_out s' = (cli_out s @ [device_line device e]) @ map2 device_line devices xs"
    by (auto simp: out_line_def)
  moreover have "registry_get_or_assign (S, V, kRegistryPath, cli_db s) (wd_udn device) =
      (Inr e, (S, V, kRegistryPath, db))"
    using g r by (simp add: registry_get_or_assign_def)
  ultimately show ?case
    by (intro exI [of _ "e # xs"]) simp
qed simp


section \<open>Properties\<close>

text \<open>
  C40. A percentage printed in decimal is parsed back exactly; every other number is rejected,
  whatever its size within \<open>long\<close>, and nothing outside 0..100 is ever accepted. The empty
  argument, though, is accepted as 0.
\<close>

theorem percent_roundtrip:
  assumes "LONG_MIN < i" and "i \<le> LONG_MAX"
  shows "ParsePercent (int_to_string i) = (if 0 \<le> i \<and> i \<le> 100 then Some i else None) \<and>
    (\<forall>v p. ParsePercent v = Some p \<longrightarrow> 0 \<le> p \<and> p \<le> 100) \<and> ParsePercent '''' = Some 0"
proof -
  have "ParsePercent '''' = Some 0"
    by (simp add: ParsePercent_def strtol_def starts_digit_def)
  then show ?thesis using ParsePercent_int [OF assms] ParsePercent_range by simp
qed

theorem percent_roundtrip_witness:
  "ParsePercent (int_to_string 101) = None \<and> ParsePercent (int_to_string 100) = Some 100"
proof -
  have "LONG_MIN < 101" "101 \<le> LONG_MAX" "LONG_MIN < 100" "100 \<le> LONG_MAX"
    by (simp_all add: LONG_MIN_def LONG_MAX_def)
  from percent_roundtrip [OF this(1,2)] percent_roundtrip [OF this(3,4)] show ?thesis by simp
qed

lemma cli_set_level:
  "cli_main E S [bin, ''set-level'', udn, arg] s = run_set_level E udn arg s"
  by (simp add: cli_main_def Let_def)

text \<open>
  C32. The exit status tells the truth and errors have no effect. \<open>set-level\<close> with a number in
  range commands exactly that percentage and exits 0 when the adapter accepted it, 1 when
  not; with an argument that is no percentage it exits 1 and neither the adapter nor the
  database is touched. \<open>set-on\<close> and \<open>set-off\<close> command exactly that state. A wrong command or
  a wrong number of arguments only prints the usage and exits 1.
\<close>

theorem cli_commands:
  assumes "0 \<le> p" and "p \<le> 100" and "SetLevelPercent E udn (to_u8 p) (cli_adapter s) = (ok, a)"
    and "SetOnOff E udn on (cli_adapter s) = (ok', a')" and "ParsePercent bad = None"
    and "length argv > 1" and "argv ! 1 \<noteq> ''list''"
    and "length argv \<noteq> 3 \<or> argv ! 1 \<notin> {''set-on'', ''set-off''}" and "length argv \<noteq> 4 \<or> argv ! 1 \<noteq> ''set-level''"
  shows "uint (to_u8 p) = p \<and>
    fst (cli_main E S [bin, ''set-level'', udn, int_to_string p] s) = Exit (if ok then 0 else 1) \<and>
    cli_adapter (snd (cli_main E S [bin, ''set-level'', udn, int_to_string p] s)) = a \<and>
    cli_db (snd (cli_main E S [bin, ''set-level'', udn, int_to_string p] s)) = cli_db s \<and>
    fst (cli_main E S [bin, if on then ''set-on'' else ''set-off'', udn] s) = Exit (if ok' then 0 else 1) \<and>
    cli_adapter (snd (cli_main E S [bin, if on then ''set-on'' else ''set-off'', udn] s)) = a' \<and>
    cli_main E S [bin, ''set-level'', udn, bad] s =
      (Exit 1, s\<lparr>cli_err := cli_err s @ [''invalid level percent: '' @ bad]\<rparr>) \<and>
    cli_main E S argv s = (Exit 1, s\<lparr>cli_out := cli_out s @ usage_lines (argv ! 0)\<rparr>)"
proof -
  have p: "ParsePercent (int_to_string p) = Some p"
    using ParsePercent_int [of p] assms(1,2) by (simp add: LONG_MIN_def LONG_MAX_def)
  have "uint (to_u8 p) = p" using assms(1,2) by (simp add: uint_to_u8_id)
  moreover have "fst (cli_main E S [bin, ''set-level'', udn, int_to_string p] s) = Exit (if ok then 0 else 1)"
    "cli_adapter (snd (cli_main E S [bin, ''set-level'', udn, int_to_string p] s)) = a"
    "cli_db (snd (cli_main E S [bin, ''set-level'', udn, int_to_string p] s)) = cli_db s"
    by (simp_all add: cli_set_level run_set_level_def p Let_def assms(3) out_line_def err_line_def)
  moreover have "fst (cli_main E S [bin, if on then ''set-on'' else ''set-off'', udn] s) = Exit (if ok' then 0 else 1)"
    "cli_adapter (snd (cli_main E S [bin, if on then ''set-on'' else ''set-off'', udn] s)) = a'"
    using assms(4) by (cases on; simp add: cli_main_def run_set_onoff_def Let_def out_line_def err_line_def)+
  moreover have "cli_main E S [bin, ''set-level'', udn, bad] s =
      (Exit 1, s\<lparr>cli_err := cli_err s @ [''invalid level percent: '' @ bad]\<rparr>)"
    by (simp add: cli_set_level run_set_level_def assms(5) err_line_def)
  moreover have "cli_main E S argv s = (Exit 1, s\<lparr>cli_out := cli_out s @ usage_lines (argv ! 0)\<rparr>)"
    using assms(6-9) by (auto simp: cli_main_def Let_def)
  ultimately show ?thesis by blast
qed

theorem cli_commands_witness:
  "cli_main (list_engine [lamp_info]) (mem_sqlite no_faults) [''bin'', ''set-level'', ''uuid:lamp'', ''101'']
     (cli_init () (mem_db empty_tables) :: (unit, unit, memdb) cli_state) =
   (Exit 1, cli_init () (mem_db empty_tables)\<lparr>cli_err := [''invalid level percent: 101'']\<rparr>)"
proof -
  let ?s = "cli_init () (mem_db empty_tables) :: (unit, unit, memdb) cli_state"
  let ?E = "list_engine [lamp_info]"
  obtain ok a where l: "SetLevelPercent ?E ''uuid:lamp'' (to_u8 40) (cli_adapter ?s) = (ok, a)" by (rule prod.exhaust)
  obtain ok' a' where o: "SetOnOff ?E ''uuid:lamp'' True (cli_adapter ?s) = (ok', a')" by (rule prod.exhaust)
  have "ParsePercent (int_to_string 101) = None"
    by (subst ParsePercent_int) (simp_all add: LONG_MIN_def LONG_MAX_def)
  moreover have "int_to_string 101 = ''101''"
    by (simp add: int_to_string_def to_string.simps digit_char_def char_of_def bit_0)
  ultimately have bad: "ParsePercent ''101'' = None" by simp
  have p: "(0 :: int) \<le> 40" "(40 :: int) \<le> 100" by simp_all
  have g: "1 < length [''bin'', ''help'']" "[''bin'', ''help''] ! 1 \<noteq> ''list''"
    "length [''bin'', ''help''] \<noteq> 3 \<or> [''bin'', ''help''] ! 1 \<notin> {''set-on'', ''set-off''}"
    "length [''bin'', ''help''] \<noteq> 4 \<or> [''bin'', ''help''] ! 1 \<noteq> ''set-level''"
    by simp_all
  have e: "cli_err ?s = []" by (simp add: cli_init_def)
  from cli_commands [OF p l o bad g, of "mem_sqlite no_faults" "''bin''"] e show ?thesis by simp
qed

text \<open>
  A successful \<open>list\<close> on a working database prints the number of discovered devices and
  then one line for each, in order, with its endpoint id from the registry; devices with
  different UDNs never show the same id. Nothing is written to the error stream.
\<close>

theorem cli_list_lines:
  assumes "sqlite_documented S V" and "sqlite_faultless S V" and "reg_ok (durable V (cli_db s))"
    and "Discover E (cli_adapter s) = (ds, a)" and "length argv \<le> 1 \<or> argv ! 1 = ''list''"
    and "cli_main E S argv s = (Exit 0, s')"
  shows "\<exists>xs. length xs = length ds \<and>
    cli_out s' = cli_out s @ [''discovered_devices='' @ to_string (length ds)] @ map2 device_line ds xs \<and>
    cli_err s' = cli_err s \<and> cli_adapter s' = a \<and>
    (\<forall>i<length ds. \<forall>j<length ds. \<forall>e. xs ! i = Some e \<longrightarrow> xs ! j = Some e \<longrightarrow>
       cstr (wd_udn (ds ! i)) = cstr (wd_udn (ds ! j)))"
proof -
  let ?s = "out_line (''discovered_devices='' @ to_string (length ds)) (s\<lparr>cli_adapter := a\<rparr>)"
  have run: "list_loop S ds ?s = (Exit 0, s')"
    using assms(4-6) by (auto simp: cli_main_def run_list_def Let_def)
  have f: "cli_out ?s = cli_out s @ [''discovered_devices='' @ to_string (length ds)]" "cli_db ?s = cli_db s"
    "cli_err ?s = cli_err s" "cli_adapter ?s = a"
    by (simp_all add: out_line_def)
  obtain xs where xs: "assign_all registry_get_or_assign (S, V, kRegistryPath, cli_db s) (map wd_udn ds) =
      (Inr xs, (S, V, kRegistryPath, cli_db s'))" "length xs = length ds"
    "cli_out s' = cli_out ?s @ map2 device_line ds xs"
    using list_loop_assign_all [OF run, of V] unfolding f(2) by blast
  have rel: "registry_reliable (S, V, kRegistryPath, cli_db s)"
    using assms(1-3) by (simp add: registry_defs)
  have "cstr (wd_udn (ds ! i)) = cstr (wd_udn (ds ! j))"
    if "i < length ds" "j < length ds" "xs ! i = Some e" "xs ! j = Some e" for i j e
    using bridge_registry_reliable.assign_all_distinct [OF rel xs(1), of i j e] that by simp
  then show ?thesis using xs f list_loop_frame [OF run] by auto
qed


theorem cli_list_lines_witness:
  "\<exists>s'. cli_main (list_engine [lamp_info]) (mem_sqlite no_faults) [''bin''] (cli_init () (mem_db empty_tables)) =
      (Exit 0, s' :: (unit, unit, memdb) cli_state) \<and>
     cli_out s' = [''discovered_devices=1'', device_line (device_of_info lamp_info) (Some 2)]"
proof -
  let ?s = "cli_init () (mem_db empty_tables) :: (unit, unit, memdb) cli_state"
  let ?E = "list_engine [lamp_info]"
  have i: "cli_adapter ?s = new_adapter kEngineSocket ()" "cli_db ?s = mem_db empty_tables" "cli_out ?s = []"
    by (simp_all add: cli_init_def)
  obtain a where d: "Discover ?E (cli_adapter ?s) = (map device_of_info [lamp_info], a)"
    unfolding i using list_engine_discover [of "[lamp_info]"] by auto
  obtain db where g: "GetOrAssign (mem_sqlite no_faults) kRegistryPath (wi_udn lamp_info) (mem_db empty_tables) = (Inr (Some 2), db)"
    using mem_assign_run by blast
  have r: "reg_ok (durable mem_view (cli_db ?s))" by (simp add: i mem_durable empty_reg_ok)
  have l: "length [''bin''] \<le> 1 \<or> [''bin''] ! 1 = ''list''" by simp
  have one: "to_string (length (map device_of_info [lamp_info])) = ''1''"
    by (simp add: to_string.simps digit_char_def char_of_def bit_0)
  obtain s' where run: "cli_main ?E (mem_sqlite no_faults) [''bin''] ?s = (Exit 0, s')"
    and out: "cli_out s' = [''discovered_devices=1'', device_line (device_of_info lamp_info) (Some 2)]"
    using d g one by (auto simp: cli_main_def run_list_def Let_def i out_line_def)
  from cli_list_lines [OF mem_sqlite_documented mem_sqlite_faultless r d l run] run out show ?thesis by blast
qed

end
