(* ===== verification/Chip.thy ===== *)
theory Chip
  imports Prelude
begin

unbundle bit_operations_syntax

text \<open>
  What the bridge application uses of the Matter SDK, which is not part of the repository:
  the example classes \<open>Device\<close> and \<open>DeviceOnOff\<close>, the generated cluster and attribute ids,
  the dynamic endpoint storage of the ember layer, the ZCL string functions and the work
  queue. Each is a field of a parameter record; the \<open>_documented\<close> predicates state the
  behaviour the code relies on, and are named hypotheses of the theorems that need it.
\<close>

section \<open>Ids and masks\<close>

record chip_ids =
  kChanged_Reachable :: u32
  kChanged_Location :: u32
  kChanged_Name :: u32
  kChanged_OnOff :: u32
  OnOff_Id :: u32
  LevelControl_Id :: u32
  BridgedDeviceBasicInformation_Id :: u32
  TemperatureMeasurement_Id :: u32
  Descriptor_Id :: u32
  ClusterRevision_Id :: u32
  FeatureMap_Id :: u32
  Reachable_Id :: u32
  NodeLabel_Id :: u32
  UniqueID_Id :: u32
  ConfigurationVersion_Id :: u32
  OnOff_OnOff_Id :: u32
  CurrentLevel_Id :: u32
  MinLevel_Id :: u32
  MaxLevel_Id :: u32
  MeasuredValue_Id :: u32
  MinMeasuredValue_Id :: u32
  MaxMeasuredValue_Id :: u32

text \<open>
  The change masks are single bits, and the on/off bit is above the bits of the base class;
  the clusters, and the attributes of one cluster, have different ids.
\<close>

definition ids_documented :: "chip_ids \<Rightarrow> bool" where
  "ids_documented I \<longleftrightarrow>
     (\<exists>r l n on. kChanged_Reachable I = push_bit r 1 \<and> kChanged_Location I = push_bit l 1 \<and>
        kChanged_Name I = push_bit n 1 \<and> kChanged_OnOff I = push_bit on 1 \<and>
        distinct [r, l, n] \<and> r < on \<and> l < on \<and> n < on \<and> on < 31) \<and>
     distinct [OnOff_Id I, LevelControl_Id I, BridgedDeviceBasicInformation_Id I,
       TemperatureMeasurement_Id I, Descriptor_Id I] \<and>
     distinct [ClusterRevision_Id I, FeatureMap_Id I, Reachable_Id I, NodeLabel_Id I, UniqueID_Id I,
       ConfigurationVersion_Id I] \<and>
     distinct [ClusterRevision_Id I, FeatureMap_Id I, OnOff_OnOff_Id I] \<and>
     distinct [ClusterRevision_Id I, FeatureMap_Id I, CurrentLevel_Id I, MinLevel_Id I, MaxLevel_Id I] \<and>
     distinct [ClusterRevision_Id I, FeatureMap_Id I, MeasuredValue_Id I, MinMeasuredValue_Id I,
       MaxMeasuredValue_Id I]"

lemma bit_mask_iff: "i < 32 \<Longrightarrow> j < 32 \<Longrightarrow> (push_bit i 1 :: u32) AND push_bit j 1 \<noteq> 0 \<longleftrightarrow> i = j"
  by (auto simp: bit_eq_iff bit_simps)

text \<open>\<open>DeviceDimmable::kChanged_Level = kChanged_OnOff << 1\<close>.\<close>

definition kChanged_Level :: "chip_ids \<Rightarrow> u32" where
  "kChanged_Level I = push_bit 1 (kChanged_OnOff I)"

lemma masks_disjoint:
  assumes "ids_documented I"
  shows "kChanged_Reachable I AND kChanged_Reachable I \<noteq> 0"
    "kChanged_Name I AND kChanged_Name I \<noteq> 0"
    "kChanged_Location I AND kChanged_Location I \<noteq> 0"
    "kChanged_OnOff I AND kChanged_OnOff I \<noteq> 0"
    "kChanged_Level I AND kChanged_Level I \<noteq> 0"
    "kChanged_Reachable I AND kChanged_Name I = 0" "kChanged_Name I AND kChanged_Reachable I = 0"
    "kChanged_Reachable I AND kChanged_OnOff I = 0" "kChanged_OnOff I AND kChanged_Reachable I = 0"
    "kChanged_Name I AND kChanged_OnOff I = 0" "kChanged_OnOff I AND kChanged_Name I = 0"
    "kChanged_Location I AND kChanged_OnOff I = 0" "kChanged_OnOff I AND kChanged_Location I = 0"
    "kChanged_Reachable I AND kChanged_Level I = 0" "kChanged_Level I AND kChanged_Reachable I = 0"
    "kChanged_Name I AND kChanged_Level I = 0" "kChanged_Level I AND kChanged_Name I = 0"
    "kChanged_OnOff I AND kChanged_Level I = 0" "kChanged_Level I AND kChanged_OnOff I = 0"
proof -
  obtain r l n on where m: "kChanged_Reachable I = push_bit r 1" "kChanged_Location I = push_bit l 1"
      "kChanged_Name I = push_bit n 1" "kChanged_OnOff I = push_bit on 1"
    and d: "distinct [r, l, n]" "r < on" "l < on" "n < on" "on < 31"
    using assms unfolding ids_documented_def by blast
  have lv: "kChanged_Level I = push_bit (Suc on) 1" by (simp add: kChanged_Level_def m)
  have b: "r < 32" "l < 32" "n < 32" "on < 32" "Suc on < 32" using d by simp_all
  have same: "(push_bit i 1 :: u32) AND push_bit i 1 \<noteq> 0" if "i < 32" for i
    using bit_mask_iff [OF that that] by simp
  have other: "(push_bit i 1 :: u32) AND push_bit j 1 = 0" if "i < 32" "j < 32" "i \<noteq> j" for i j
    using bit_mask_iff [OF that(1,2)] that(3) by simp
  show "kChanged_Reachable I AND kChanged_Reachable I \<noteq> 0"
    "kChanged_Name I AND kChanged_Name I \<noteq> 0"
    "kChanged_Location I AND kChanged_Location I \<noteq> 0"
    "kChanged_OnOff I AND kChanged_OnOff I \<noteq> 0"
    "kChanged_Level I AND kChanged_Level I \<noteq> 0"
    unfolding m lv by (rule same [OF b(1)] same [OF b(3)] same [OF b(2)] same [OF b(4)] same [OF b(5)])+
  show "kChanged_Reachable I AND kChanged_Name I = 0" "kChanged_Name I AND kChanged_Reachable I = 0"
    "kChanged_Reachable I AND kChanged_OnOff I = 0" "kChanged_OnOff I AND kChanged_Reachable I = 0"
    "kChanged_Name I AND kChanged_OnOff I = 0" "kChanged_OnOff I AND kChanged_Name I = 0"
    "kChanged_Location I AND kChanged_OnOff I = 0" "kChanged_OnOff I AND kChanged_Location I = 0"
    "kChanged_Reachable I AND kChanged_Level I = 0" "kChanged_Level I AND kChanged_Reachable I = 0"
    "kChanged_Name I AND kChanged_Level I = 0" "kChanged_Level I AND kChanged_Name I = 0"
    "kChanged_OnOff I AND kChanged_Level I = 0" "kChanged_Level I AND kChanged_OnOff I = 0"
    unfolding m lv by (rule other; use b d in simp)+
qed

section \<open>The classes Device and DeviceOnOff\<close>

text \<open>
  A setter of the base classes may notify a change: through the virtual \<open>HandleDeviceChange\<close>,
  or by calling the callback stored by \<open>DeviceOnOff::SetChangeCallback\<close> directly, which is
  what \<open>DeviceOnOff::SetOnOff\<close> does. \<open>DeviceOnOff::HandleDeviceChange\<close> is listed by the masks
  it passes to that callback.
\<close>

datatype notice = VirtualChange u32 | DirectChange u32

record 'd device_api =
  new_DeviceOnOff :: "string \<Rightarrow> string \<Rightarrow> 'd"
  base_IsReachable :: "'d \<Rightarrow> bool"
  base_SetReachable :: "bool \<Rightarrow> 'd \<Rightarrow> 'd \<times> notice list"
  base_IsOn :: "'d \<Rightarrow> bool"
  base_SetOnOff :: "bool \<Rightarrow> 'd \<Rightarrow> 'd \<times> notice list"
  base_GetName :: "'d \<Rightarrow> string"
  base_SetName :: "string \<Rightarrow> 'd \<Rightarrow> 'd \<times> notice list"
  base_GetUniqueId :: "'d \<Rightarrow> string"
  base_GenerateUniqueId :: "'d \<Rightarrow> 'd"
  base_GetConfigurationVersion :: "'d \<Rightarrow> u32"
  base_GetEndpointId :: "'d \<Rightarrow> u16"
  base_SetEndpointId :: "u16 \<Rightarrow> 'd \<Rightarrow> 'd"
  base_SetParentEndpointId :: "u16 \<Rightarrow> 'd \<Rightarrow> 'd"
  base_HandleDeviceChange :: "u32 \<Rightarrow> 'd \<Rightarrow> 'd \<times> u32 list"
  temp_GetMeasuredValue :: "'d \<Rightarrow> u16"
  temp_mMin :: "'d \<Rightarrow> u16"
  temp_mMax :: "'d \<Rightarrow> u16"

text \<open>What the getters show of an object; the setters are documented as updates of it.\<close>

record device_view =
  view_reachable :: bool
  view_on :: bool
  view_name :: string
  view_unique_id :: string
  view_config_version :: u32
  view_endpoint :: u16

definition look :: "'d device_api \<Rightarrow> 'd \<Rightarrow> device_view" where
  "look D d =
     \<lparr>view_reachable = base_IsReachable D d, view_on = base_IsOn D d, view_name = base_GetName D d,
      view_unique_id = base_GetUniqueId D d,
      view_config_version = base_GetConfigurationVersion D d,
      view_endpoint = base_GetEndpointId D d\<rparr>"

definition device_documented :: "chip_ids \<Rightarrow> 'd device_api \<Rightarrow> bool" where
  "device_documented I D \<longleftrightarrow>
     (\<forall>n l. view_name (look D (new_DeviceOnOff D n l)) = take 31 n) \<and>
     (\<forall>b d. look D (fst (base_SetReachable D b d)) = (look D d)\<lparr>view_reachable := b\<rparr> \<and>
        snd (base_SetReachable D b d) =
          (if base_IsReachable D d \<noteq> b then [VirtualChange (kChanged_Reachable I)] else [])) \<and>
     (\<forall>b d. look D (fst (base_SetOnOff D b d)) = (look D d)\<lparr>view_on := b\<rparr> \<and>
        snd (base_SetOnOff D b d) =
          (if base_IsOn D d \<noteq> b then [DirectChange (kChanged_OnOff I)] else [])) \<and>
     (\<forall>n d. look D (fst (base_SetName D n d)) = (look D d)\<lparr>view_name := take 31 n\<rparr> \<and>
        snd (base_SetName D n d) =
          (if base_GetName D d \<noteq> n then [VirtualChange (kChanged_Name I)] else [])) \<and>
     (\<forall>d. look D (base_GenerateUniqueId D d) =
        (look D d)\<lparr>view_unique_id := view_unique_id (look D (base_GenerateUniqueId D d))\<rparr>) \<and>
     (\<forall>e d. look D (base_SetEndpointId D e d) = (look D d)\<lparr>view_endpoint := e\<rparr>) \<and>
     (\<forall>e d. look D (base_SetParentEndpointId D e d) = look D d) \<and>
     (\<forall>m d. look D (fst (base_HandleDeviceChange D m d)) = look D d \<and>
        snd (base_HandleDeviceChange D m d) = [m])"

lemma look_simps:
  "base_IsReachable D d = view_reachable (look D d)" "base_IsOn D d = view_on (look D d)"
  "base_GetName D d = view_name (look D d)" "base_GetUniqueId D d = view_unique_id (look D d)"
  "base_GetConfigurationVersion D d = view_config_version (look D d)"
  "base_GetEndpointId D d = view_endpoint (look D d)"
  by (simp_all add: look_def)

lemma device_laws:
  assumes "device_documented I D"
  shows "look D (fst (base_SetReachable D b d)) = (look D d)\<lparr>view_reachable := b\<rparr>"
    "snd (base_SetReachable D b d) =
      (if base_IsReachable D d \<noteq> b then [VirtualChange (kChanged_Reachable I)] else [])"
    "look D (fst (base_SetOnOff D b d)) = (look D d)\<lparr>view_on := b\<rparr>"
    "snd (base_SetOnOff D b d) =
      (if base_IsOn D d \<noteq> b then [DirectChange (kChanged_OnOff I)] else [])"
    "look D (fst (base_SetName D n d)) = (look D d)\<lparr>view_name := take 31 n\<rparr>"
    "snd (base_SetName D n d) =
      (if base_GetName D d \<noteq> n then [VirtualChange (kChanged_Name I)] else [])"
    "look D (base_SetEndpointId D e d) = (look D d)\<lparr>view_endpoint := e\<rparr>"
    "look D (base_SetParentEndpointId D e d) = look D d"
    "look D (fst (base_HandleDeviceChange D m d)) = look D d"
    "snd (base_HandleDeviceChange D m d) = [m]"
    "view_reachable (look D (base_GenerateUniqueId D d)) = view_reachable (look D d)"
    "view_on (look D (base_GenerateUniqueId D d)) = view_on (look D d)"
    "view_name (look D (base_GenerateUniqueId D d)) = view_name (look D d)"
    "view_endpoint (look D (base_GenerateUniqueId D d)) = view_endpoint (look D d)"
    "view_name (look D (new_DeviceOnOff D n l)) = take 31 n"
proof -
  note doc = assms [unfolded device_documented_def]
  have g: "look D (base_GenerateUniqueId D d) =
      (look D d)\<lparr>view_unique_id := view_unique_id (look D (base_GenerateUniqueId D d))\<rparr>"
    using doc by blast
  show "view_reachable (look D (base_GenerateUniqueId D d)) = view_reachable (look D d)"
    "view_on (look D (base_GenerateUniqueId D d)) = view_on (look D d)"
    "view_name (look D (base_GenerateUniqueId D d)) = view_name (look D d)"
    "view_endpoint (look D (base_GenerateUniqueId D d)) = view_endpoint (look D d)"
    by (subst g, simp)+
qed (use assms [unfolded device_documented_def] in blast)+

section \<open>Endpoint storage, strings and the work queue\<close>

datatype endpoint_type = bridgedLightEndpoint | bridgedDimmableLightEndpoint

record 'e ember_api =
  CHIP_NO_ERROR :: u32
  CHIP_ERROR_ENDPOINT_EXISTS :: u32
  emberAfSetDynamicEndpoint ::
    "u16 \<Rightarrow> u16 \<Rightarrow> endpoint_type \<Rightarrow> nat \<Rightarrow> (u32 \<times> u8) list \<Rightarrow> u16 \<Rightarrow> 'e \<Rightarrow> u32 \<times> 'e"
  emberAfClearDynamicEndpoint :: "u16 \<Rightarrow> 'e \<Rightarrow> u16 \<times> 'e"
  emberAfFixedEndpointCount :: "'e \<Rightarrow> u16"
  emberAfEndpointFromIndex :: "u16 \<Rightarrow> 'e \<Rightarrow> u16"
  emberAfEndpointEnableDisable :: "u16 \<Rightarrow> bool \<Rightarrow> 'e \<Rightarrow> 'e"
  emberAfGetDynamicIndexFromEndpoint :: "u16 \<Rightarrow> 'e \<Rightarrow> u16"
  emberAfLevelControlClusterServerInitCallback :: "u16 \<Rightarrow> 'e \<Rightarrow> 'e"
  MakeZclCharString :: "u8 list \<Rightarrow> string \<Rightarrow> u8 list"
  fromZclString :: "u8 list \<Rightarrow> string"
  work_queue_accepts :: "nat \<Rightarrow> bool"

text \<open>
  The storage as a view: the dynamic slots, each with the endpoint and type it holds, as many
  as the configured count. A dynamic endpoint is refused with \<open>ENDPOINT_EXISTS\<close> only when its
  id is in a slot, and it is never added twice; any error leaves the slots as they were.
\<close>

definition CHIP_DEVICE_CONFIG_DYNAMIC_ENDPOINT_COUNT :: nat where
  "CHIP_DEVICE_CONFIG_DYNAMIC_ENDPOINT_COUNT = 16"

type_synonym 'e ember_view = "'e \<Rightarrow> nat \<Rightarrow> (u16 \<times> endpoint_type) option"

definition in_use :: "'e ember_view \<Rightarrow> 'e \<Rightarrow> u16 \<Rightarrow> bool" where
  "in_use V e ep \<longleftrightarrow> (\<exists>i t. V e i = Some (ep, t))"

definition set_endpoint_documented :: "'e ember_api \<Rightarrow> 'e ember_view \<Rightarrow> bool" where
  "set_endpoint_documented M V \<longleftrightarrow>
     CHIP_NO_ERROR M \<noteq> CHIP_ERROR_ENDPOINT_EXISTS M \<and>
     (\<forall>e i. CHIP_DEVICE_CONFIG_DYNAMIC_ENDPOINT_COUNT \<le> i \<longrightarrow> V e i = None) \<and>
     (\<forall>i ep t n ts p e err e'. emberAfSetDynamicEndpoint M i ep t n ts p e = (err, e') \<longrightarrow>
        (err = CHIP_ERROR_ENDPOINT_EXISTS M \<longrightarrow> in_use V e ep) \<and>
        (err = CHIP_NO_ERROR M \<longrightarrow> \<not> in_use V e ep) \<and>
        V e' = (if err = CHIP_NO_ERROR M then (V e)(unat i := Some (ep, t)) else V e))"

definition ember_documented :: "'e ember_api \<Rightarrow> 'e ember_view \<Rightarrow> bool" where
  "ember_documented M V \<longleftrightarrow> set_endpoint_documented M V \<and>
     (\<forall>i e. V (snd (emberAfClearDynamicEndpoint M i e)) = (V e)(unat i := None)) \<and>
     (\<forall>ep b e. V (emberAfEndpointEnableDisable M ep b e) = V e) \<and>
     (\<forall>ep e. V (emberAfLevelControlClusterServerInitCallback M ep e) = V e) \<and>
     (\<forall>ep e i t. V e i = Some (ep, t) \<longrightarrow> (\<forall>j t'. V e j = Some (ep, t') \<longrightarrow> j = i) \<longrightarrow>
        unat (emberAfGetDynamicIndexFromEndpoint M ep e) = i) \<and>
     (\<forall>ep e. \<not> in_use V e ep \<longrightarrow> emberAfGetDynamicIndexFromEndpoint M ep e = 0xFFFF)"

lemma ember_laws:
  assumes "ember_documented M V"
  shows "CHIP_NO_ERROR M \<noteq> CHIP_ERROR_ENDPOINT_EXISTS M"
    "V (snd (emberAfClearDynamicEndpoint M i e)) = (V e)(unat i := None)"
    "V (emberAfEndpointEnableDisable M ep b e) = V e"
    "V (emberAfLevelControlClusterServerInitCallback M ep e) = V e"
    "\<not> in_use V e ep \<Longrightarrow> emberAfGetDynamicIndexFromEndpoint M ep e = 0xFFFF"
  using assms unfolding ember_documented_def set_endpoint_documented_def by blast+

lemma set_endpoint_law:
  assumes "set_endpoint_documented M V" and "emberAfSetDynamicEndpoint M i ep t n ts p e = (err, e')"
  shows "(err = CHIP_ERROR_ENDPOINT_EXISTS M \<longrightarrow> in_use V e ep) \<and>
    (err = CHIP_NO_ERROR M \<longrightarrow> \<not> in_use V e ep) \<and>
    V e' = (if err = CHIP_NO_ERROR M then (V e)(unat i := Some (ep, t)) else V e)"
  using assms unfolding set_endpoint_documented_def by blast

text \<open>
  The ZCL string functions: the length byte that is stored never points behind the buffer, and
  a string of at most 254 characters that fits is stored after its length byte and read back.
\<close>

definition zcl_documented :: "'e ember_api \<Rightarrow> bool" where
  "zcl_documented M \<longleftrightarrow>
     (\<forall>buf s. length (MakeZclCharString M buf s) = length buf \<and>
        (buf \<noteq> [] \<longrightarrow> unat (hd (MakeZclCharString M buf s)) < length buf)) \<and>
     (\<forall>buf s rest. CHR 0x00 \<notin> set s \<longrightarrow> length s < length buf \<longrightarrow> length s \<le> 254 \<longrightarrow>
        fromZclString M (MakeZclCharString M buf s @ rest) = s)"

text \<open>The three interfaces together.\<close>

record ('d, 'e) chip =
  ids :: chip_ids
  dev_api :: "'d device_api"
  ember_api :: "'e ember_api"

definition chip_documented :: "('d, 'e) chip \<Rightarrow> 'e ember_view \<Rightarrow> bool" where
  "chip_documented K V \<longleftrightarrow> ids_documented (ids K) \<and> device_documented (ids K) (dev_api K) \<and>
     ember_documented (ember_api K) V \<and> zcl_documented (ember_api K)"

end
