(* ===== verification/Device.thy ===== *)
theory Device
  imports Chip
begin

text \<open>
  The bridged device objects: \<open>DeviceDimmable\<close> of \<^verbatim>\<open>matter-bridge-app/DeviceDimmable.cpp\<close>
  over the SDK's \<open>DeviceOnOff\<close>, the change callbacks that both install, and the status
  handlers of \<^verbatim>\<open>matter-bridge-app/main.cpp\<close> that turn a change into attribute reports on
  the work queue. An operation on a device returns the device and the work it scheduled.
\<close>

section \<open>Objects\<close>

text \<open>The work handed to \<open>PlatformMgr().ScheduleWork\<close>.\<close>

record wemo_event_context =
  cx_wemo_id :: int
  cx_is_online :: bool
  cx_state :: int
  cx_level :: int

datatype work_item =
    CallReportingCallback u16 u32 u32
  | HandleWemoEvent wemo_event_context

datatype device_class = CDeviceOnOff | CDeviceDimmable | CDeviceTempSensor | CDevicePowerSource

text \<open>
  The functions the program ever stores in a callback slot: the free handlers, and the
  lambda with which \<open>DeviceDimmable\<close> forwards on/off changes to its own callback.
\<close>

datatype on_off_callback = CbOnOffStatusChanged | CbForwardToDimmable
datatype dimmable_callback = CbDimmableStatusChanged

record 'd device_object =
  dv_class :: device_class
  dv_base :: 'd
  dv_on_off_cb :: "on_off_callback option"
  mLevel :: u8
  mChanged_CB :: "dimmable_callback option"

definition is_on_off :: "'d device_object \<Rightarrow> bool" where
  "is_on_off dev \<longleftrightarrow> dv_class dev = CDeviceOnOff \<or> dv_class dev = CDeviceDimmable"

definition is_dimmer :: "'d device_object \<Rightarrow> bool" where
  "is_dimmer dev \<longleftrightarrow> dv_class dev = CDeviceDimmable"

definition is_temp_sensor :: "'d device_object \<Rightarrow> bool" where
  "is_temp_sensor dev \<longleftrightarrow> dv_class dev = CDeviceTempSensor"

section \<open>Status handlers\<close>

definition ScheduleReportingCallback ::
    "('d, 'e) chip \<Rightarrow> 'd device_object \<Rightarrow> u32 \<Rightarrow> u32 \<Rightarrow> work_item list" where
  "ScheduleReportingCallback K dev cluster attr =
     [CallReportingCallback (base_GetEndpointId (dev_api K) (dv_base dev)) cluster attr]"

definition HandleDeviceStatusChanged ::
    "('d, 'e) chip \<Rightarrow> 'd device_object \<Rightarrow> u32 \<Rightarrow> work_item list" where
  "HandleDeviceStatusChanged K dev itemChangedMask =
     (let I = ids K
      in (if itemChangedMask AND kChanged_Reachable I \<noteq> 0
          then ScheduleReportingCallback K dev (BridgedDeviceBasicInformation_Id I) (Reachable_Id I)
          else []) @
         (if itemChangedMask AND kChanged_Name I \<noteq> 0
          then ScheduleReportingCallback K dev (BridgedDeviceBasicInformation_Id I) (NodeLabel_Id I)
          else []))"

definition HandleDeviceOnOffStatusChanged ::
    "('d, 'e) chip \<Rightarrow> 'd device_object \<Rightarrow> u32 \<Rightarrow> work_item list" where
  "HandleDeviceOnOffStatusChanged K dev itemChangedMask =
     (let I = ids K
      in (if itemChangedMask AND
             (kChanged_Reachable I OR kChanged_Name I OR kChanged_Location I) \<noteq> 0
          then HandleDeviceStatusChanged K dev itemChangedMask else []) @
         (if itemChangedMask AND kChanged_OnOff I \<noteq> 0
          then ScheduleReportingCallback K dev (OnOff_Id I) (OnOff_OnOff_Id I) else []))"

definition HandleDeviceDimmableStatusChanged ::
    "('d, 'e) chip \<Rightarrow> 'd device_object \<Rightarrow> u32 \<Rightarrow> work_item list" where
  "HandleDeviceDimmableStatusChanged K dev itemChangedMask =
     (let I = ids K
      in (if itemChangedMask AND (kChanged_Reachable I OR kChanged_Name I) \<noteq> 0
          then HandleDeviceStatusChanged K dev itemChangedMask else []) @
         (if itemChangedMask AND kChanged_OnOff I \<noteq> 0
          then ScheduleReportingCallback K dev (OnOff_Id I) (OnOff_OnOff_Id I) else []) @
         (if itemChangedMask AND kChanged_Level I \<noteq> 0
          then ScheduleReportingCallback K dev (LevelControl_Id I) (CurrentLevel_Id I) else []))"

section \<open>Notification\<close>

text \<open>\<open>if (mChanged_CB) mChanged_CB(this, mask)\<close> of \<open>DeviceDimmable\<close>.\<close>

definition dimmable_changed ::
    "('d, 'e) chip \<Rightarrow> 'd device_object \<Rightarrow> u32 \<Rightarrow> work_item list" where
  "dimmable_changed K dev cmask =
     (case mChanged_CB dev of
        None \<Rightarrow> []
      | Some CbDimmableStatusChanged \<Rightarrow> HandleDeviceDimmableStatusChanged K dev cmask)"

text \<open>The override \<open>DeviceDimmable::HandleDeviceChange\<close>.\<close>

definition DeviceDimmable_HandleDeviceChange ::
    "('d, 'e) chip \<Rightarrow> 'd device_object \<Rightarrow> u32 \<Rightarrow> work_item list" where
  "DeviceDimmable_HandleDeviceChange K dev changeMask = dimmable_changed K dev changeMask"

text \<open>The callback stored in the \<open>DeviceOnOff\<close> subobject.\<close>

definition on_off_changed ::
    "('d, 'e) chip \<Rightarrow> 'd device_object \<Rightarrow> u32 \<Rightarrow> work_item list" where
  "on_off_changed K dev cmask =
     (case dv_on_off_cb dev of
        None \<Rightarrow> []
      | Some CbOnOffStatusChanged \<Rightarrow> HandleDeviceOnOffStatusChanged K dev cmask
      | Some CbForwardToDimmable \<Rightarrow> dimmable_changed K dev cmask)"

text \<open>The notices a base setter gives, dispatched on the class of the object.\<close>

fun run_notices ::
    "('d, 'e) chip \<Rightarrow> 'd device_object \<Rightarrow> notice list \<Rightarrow> 'd device_object \<times> work_item list" where
  "run_notices K dev [] = (dev, [])"
| "run_notices K dev (DirectChange cmask # ns) =
     (let work = on_off_changed K dev cmask; (dev, rest) = run_notices K dev ns
      in (dev, work @ rest))"
| "run_notices K dev (VirtualChange cmask # ns) =
     (if is_dimmer dev
      then let work = DeviceDimmable_HandleDeviceChange K dev cmask;
               (dev, rest) = run_notices K dev ns
           in (dev, work @ rest)
      else let (d, masks) = base_HandleDeviceChange (dev_api K) cmask (dv_base dev);
               dev = dev\<lparr>dv_base := d\<rparr>;
               work = concat (map (on_off_changed K dev) masks);
               (dev, rest) = run_notices K dev ns
           in (dev, work @ rest))"

section \<open>Operations of a device\<close>

definition dev_SetReachable ::
    "('d, 'e) chip \<Rightarrow> bool \<Rightarrow> 'd device_object \<Rightarrow> 'd device_object \<times> work_item list" where
  "dev_SetReachable K b dev =
     (let (d, ns) = base_SetReachable (dev_api K) b (dv_base dev)
      in run_notices K (dev\<lparr>dv_base := d\<rparr>) ns)"

definition dev_SetOnOff ::
    "('d, 'e) chip \<Rightarrow> bool \<Rightarrow> 'd device_object \<Rightarrow> 'd device_object \<times> work_item list" where
  "dev_SetOnOff K b dev =
     (let (d, ns) = base_SetOnOff (dev_api K) b (dv_base dev)
      in run_notices K (dev\<lparr>dv_base := d\<rparr>) ns)"

definition dev_SetName ::
    "('d, 'e) chip \<Rightarrow> string \<Rightarrow> 'd device_object \<Rightarrow> 'd device_object \<times> work_item list" where
  "dev_SetName K n dev =
     (let (d, ns) = base_SetName (dev_api K) n (dv_base dev)
      in run_notices K (dev\<lparr>dv_base := d\<rparr>) ns)"

definition dev_SetEndpointId :: "('d, 'e) chip \<Rightarrow> u16 \<Rightarrow> 'd device_object \<Rightarrow> 'd device_object" where
  "dev_SetEndpointId K ep dev = dev\<lparr>dv_base := base_SetEndpointId (dev_api K) ep (dv_base dev)\<rparr>"

definition dev_SetParentEndpointId :: "('d, 'e) chip \<Rightarrow> u16 \<Rightarrow> 'd device_object \<Rightarrow> 'd device_object" where
  "dev_SetParentEndpointId K ep dev =
     dev\<lparr>dv_base := base_SetParentEndpointId (dev_api K) ep (dv_base dev)\<rparr>"

definition dev_GenerateUniqueId :: "('d, 'e) chip \<Rightarrow> 'd device_object \<Rightarrow> 'd device_object" where
  "dev_GenerateUniqueId K dev = dev\<lparr>dv_base := base_GenerateUniqueId (dev_api K) (dv_base dev)\<rparr>"

definition GetLevel :: "'d device_object \<Rightarrow> u8" where
  "GetLevel dev = mLevel dev"

definition SetLevel ::
    "('d, 'e) chip \<Rightarrow> u8 \<Rightarrow> 'd device_object \<Rightarrow> 'd device_object \<times> work_item list" where
  "SetLevel K aLevel dev =
     (let changed = (aLevel \<noteq> mLevel dev);
          dev = dev\<lparr>mLevel := aLevel\<rparr>
      in (dev, if changed then dimmable_changed K dev (kChanged_Level (ids K)) else []))"

text \<open>\<open>DeviceOnOff::SetChangeCallback\<close> and \<open>DeviceDimmable::SetChangeCallback\<close>.\<close>

definition DeviceOnOff_SetChangeCallback ::
    "on_off_callback \<Rightarrow> 'd device_object \<Rightarrow> 'd device_object" where
  "DeviceOnOff_SetChangeCallback cb dev = dev\<lparr>dv_on_off_cb := Some cb\<rparr>"

definition DeviceDimmable_SetChangeCallback ::
    "dimmable_callback \<Rightarrow> 'd device_object \<Rightarrow> 'd device_object" where
  "DeviceDimmable_SetChangeCallback aChanged_CB dev =
     DeviceOnOff_SetChangeCallback CbForwardToDimmable (dev\<lparr>mChanged_CB := Some aChanged_CB\<rparr>)"

definition make_DeviceOnOff :: "('d, 'e) chip \<Rightarrow> string \<Rightarrow> string \<Rightarrow> 'd device_object" where
  "make_DeviceOnOff K name location =
     \<lparr>dv_class = CDeviceOnOff, dv_base = new_DeviceOnOff (dev_api K) name location,
      dv_on_off_cb = None, mLevel = 0, mChanged_CB = None\<rparr>"

definition make_DeviceDimmable :: "('d, 'e) chip \<Rightarrow> string \<Rightarrow> string \<Rightarrow> 'd device_object" where
  "make_DeviceDimmable K szDeviceName szLocation =
     \<lparr>dv_class = CDeviceDimmable, dv_base = new_DeviceOnOff (dev_api K) szDeviceName szLocation,
      dv_on_off_cb = None, mLevel = 0, mChanged_CB = None\<rparr>"

section \<open>What the operations do\<close>

definition dview :: "('d, 'e) chip \<Rightarrow> 'd device_object \<Rightarrow> device_view" where
  "dview K dev = look (dev_api K) (dv_base dev)"

definition same_shell :: "'d device_object \<Rightarrow> 'd device_object \<Rightarrow> bool" where
  "same_shell dev dev' \<longleftrightarrow> dv_class dev' = dv_class dev \<and> dv_on_off_cb dev' = dv_on_off_cb dev \<and>
     mLevel dev' = mLevel dev \<and> mChanged_CB dev' = mChanged_CB dev"

text \<open>A light as startup leaves it, and a light before its callbacks are installed.\<close>

definition wired :: "'d device_object \<Rightarrow> bool" where
  "wired dev \<longleftrightarrow>
     dv_class dev = CDeviceOnOff \<and> dv_on_off_cb dev = Some CbOnOffStatusChanged \<or>
     dv_class dev = CDeviceDimmable \<and> dv_on_off_cb dev = Some CbForwardToDimmable \<and>
       mChanged_CB dev = Some CbDimmableStatusChanged"

definition unwired :: "'d device_object \<Rightarrow> bool" where
  "unwired dev \<longleftrightarrow> dv_on_off_cb dev = None \<and> mChanged_CB dev = None"

definition report :: "('d, 'e) chip \<Rightarrow> 'd device_object \<Rightarrow> u32 \<Rightarrow> u32 \<Rightarrow> work_item" where
  "report K dev cluster attr = CallReportingCallback (view_endpoint (dview K dev)) cluster attr"

named_theorems shell_simps \<open>what a device operation leaves of the object around the base\<close>

lemma same_shell_simps [shell_simps]:
  "same_shell dev dev" "same_shell dev (dev\<lparr>dv_base := d\<rparr>)"
  by (simp_all add: same_shell_def)

lemma same_shell_trans: "same_shell a b \<Longrightarrow> same_shell b c \<Longrightarrow> same_shell a c"
  by (simp add: same_shell_def)

lemma same_shell_wired:
  "same_shell a b \<Longrightarrow> wired b = wired a" "same_shell a b \<Longrightarrow> unwired b = unwired a"
  "same_shell a b \<Longrightarrow> is_dimmer b = is_dimmer a" "same_shell a b \<Longrightarrow> is_on_off b = is_on_off a"
  by (simp_all add: same_shell_def wired_def unwired_def is_dimmer_def is_on_off_def)

lemma schedule_report: "ScheduleReportingCallback K dev c a = [report K dev c a]"
  by (simp add: ScheduleReportingCallback_def report_def dview_def look_def)

lemma report_cong: "view_endpoint (dview K a) = view_endpoint (dview K b) \<Longrightarrow> report K a c t = report K b c t"
  by (simp add: report_def)

lemma wired_cases:
  assumes "wired dev"
  obtains (on_off) "dv_class dev = CDeviceOnOff" "dv_on_off_cb dev = Some CbOnOffStatusChanged"
    "\<not> is_dimmer dev"
  | (dimmer) "dv_class dev = CDeviceDimmable" "dv_on_off_cb dev = Some CbForwardToDimmable"
    "mChanged_CB dev = Some CbDimmableStatusChanged" "is_dimmer dev"
  using assms unfolding wired_def is_dimmer_def by force

lemma handler_masks:
  assumes "ids_documented I" and "ids K = I"
  shows "HandleDeviceStatusChanged K dev (kChanged_Reachable I) =
      [report K dev (BridgedDeviceBasicInformation_Id I) (Reachable_Id I)]"
    "HandleDeviceStatusChanged K dev (kChanged_Name I) =
      [report K dev (BridgedDeviceBasicInformation_Id I) (NodeLabel_Id I)]"
    "HandleDeviceOnOffStatusChanged K dev (kChanged_Reachable I) =
      [report K dev (BridgedDeviceBasicInformation_Id I) (Reachable_Id I)]"
    "HandleDeviceOnOffStatusChanged K dev (kChanged_Name I) =
      [report K dev (BridgedDeviceBasicInformation_Id I) (NodeLabel_Id I)]"
    "HandleDeviceOnOffStatusChanged K dev (kChanged_OnOff I) =
      [report K dev (OnOff_Id I) (OnOff_OnOff_Id I)]"
    "HandleDeviceDimmableStatusChanged K dev (kChanged_Reachable I) =
      [report K dev (BridgedDeviceBasicInformation_Id I) (Reachable_Id I)]"
    "HandleDeviceDimmableStatusChanged K dev (kChanged_Name I) =
      [report K dev (BridgedDeviceBasicInformation_Id I) (NodeLabel_Id I)]"
    "HandleDeviceDimmableStatusChanged K dev (kChanged_OnOff I) =
      [report K dev (OnOff_Id I) (OnOff_OnOff_Id I)]"
    "HandleDeviceDimmableStatusChanged K dev (kChanged_Level I) =
      [report K dev (LevelControl_Id I) (CurrentLevel_Id I)]"
  using masks_disjoint [OF assms(1)]
  by (simp_all add: HandleDeviceStatusChanged_def HandleDeviceOnOffStatusChanged_def
      HandleDeviceDimmableStatusChanged_def schedule_report assms(2) Let_def
      bit.conj_disj_distrib or_eq_0_iff)

text \<open>The attribute a mask stands for.\<close>

definition mask_attribute :: "chip_ids \<Rightarrow> u32 \<Rightarrow> (u32 \<times> u32) \<Rightarrow> bool" where
  "mask_attribute I m ca \<longleftrightarrow>
     m = kChanged_Reachable I \<and> ca = (BridgedDeviceBasicInformation_Id I, Reachable_Id I) \<or>
     m = kChanged_Name I \<and> ca = (BridgedDeviceBasicInformation_Id I, NodeLabel_Id I) \<or>
     m = kChanged_OnOff I \<and> ca = (OnOff_Id I, OnOff_OnOff_Id I)"

lemma on_off_changed_wired:
  assumes "ids_documented (ids K)" and "wired dev" and "mask_attribute (ids K) m (c, a)"
  shows "on_off_changed K dev m = [report K dev c a]"
  using assms(2)
proof (cases rule: wired_cases)
  case on_off
  then show ?thesis using assms(3) handler_masks [OF assms(1) refl]
    by (auto simp: on_off_changed_def mask_attribute_def)
next
  case dimmer
  then show ?thesis using assms(3) handler_masks [OF assms(1) refl]
    by (auto simp: on_off_changed_def dimmable_changed_def mask_attribute_def)
qed

lemma on_off_changed_unwired: "unwired dev \<Longrightarrow> on_off_changed K dev m = []"
  by (simp add: on_off_changed_def unwired_def)

lemma dimmable_changed_unwired: "unwired dev \<Longrightarrow> dimmable_changed K dev m = []"
  by (simp add: dimmable_changed_def unwired_def)

lemma report_endpoint_base [simp]:
  "look (dev_api K) d = dview K dev \<Longrightarrow> report K (dev\<lparr>dv_base := d\<rparr>) c a = report K dev c a"
  by (simp add: report_def dview_def)

text \<open>One notice about an attribute is one report when the device is wired, none before.\<close>

lemma run_notice:
  assumes "ids_documented (ids K)" and doc: "device_documented (ids K) (dev_api K)"
    and n: "notice = DirectChange m \<or> notice = VirtualChange m"
    and m: "mask_attribute (ids K) m (c, a)"
    and run: "run_notices K dev [notice] = (dev', w)"
  shows "dview K dev' = dview K dev \<and> same_shell dev dev' \<and>
    (wired dev \<longrightarrow> w = [report K dev c a]) \<and> (unwired dev \<longrightarrow> w = [])"
proof (cases "notice = VirtualChange m \<and> \<not> is_dimmer dev")
  case True
  obtain d ms where h: "base_HandleDeviceChange (dev_api K) m (dv_base dev) = (d, ms)"
    by (rule prod.exhaust)
  then have d: "look (dev_api K) d = dview K dev" "ms = [m]"
    using device_laws(9,10) [OF doc, of m "dv_base dev"] by (simp_all add: dview_def)
  let ?dev = "dev\<lparr>dv_base := d\<rparr>"
  have sh: "same_shell dev ?dev" by (simp add: shell_simps)
  have "dev' = ?dev" "w = on_off_changed K ?dev m"
    using run True h d(2) by (auto simp: Let_def)
  moreover have "dview K ?dev = dview K dev" using d(1) by (simp add: dview_def)
  moreover have "on_off_changed K ?dev m = [report K dev c a]" if "wired dev"
    using on_off_changed_wired [OF assms(1) _ m, of ?dev] same_shell_wired(1) [OF sh] that d(1) by simp
  moreover have "on_off_changed K ?dev m = []" if "unwired dev"
    using on_off_changed_unwired same_shell_wired(2) [OF sh] that by blast
  ultimately show ?thesis using sh by simp
next
  case False
  have vd: "DeviceDimmable_HandleDeviceChange K dev m = [report K dev c a]"
    if "wired dev" "is_dimmer dev"
    using on_off_changed_wired [OF assms(1) that(1) m] that
    by (auto simp: DeviceDimmable_HandleDeviceChange_def on_off_changed_def wired_def is_dimmer_def)
  have uv: "DeviceDimmable_HandleDeviceChange K dev m = []" if "unwired dev"
    using dimmable_changed_unwired [OF that] by (simp add: DeviceDimmable_HandleDeviceChange_def)
  from False n run have "dev' = dev"
    "w = on_off_changed K dev m \<or> is_dimmer dev \<and> w = DeviceDimmable_HandleDeviceChange K dev m"
    by (auto simp: Let_def)
  then show ?thesis
    using vd uv on_off_changed_wired [OF assms(1) _ m, of dev] on_off_changed_unwired [of dev K m]
    by (auto simp: shell_simps)
qed

lemma setter_law:
  assumes "ids_documented (ids K)" and doc: "device_documented (ids K) (dev_api K)"
    and m: "mask_attribute (ids K) m (c, a)"
    and ns: "ns = (if changed then [n] else [])" "n = DirectChange m \<or> n = VirtualChange m"
    and ep: "view_endpoint (look (dev_api K) d) = view_endpoint (dview K dev)"
    and run: "run_notices K (dev\<lparr>dv_base := d\<rparr>) ns = (dev', w)"
  shows "dview K dev' = look (dev_api K) d \<and> same_shell dev dev' \<and>
    (wired dev \<longrightarrow> w = (if changed then [report K dev c a] else [])) \<and> (unwired dev \<longrightarrow> w = [])"
proof -
  let ?dev = "dev\<lparr>dv_base := d\<rparr>"
  have sh: "same_shell dev ?dev" and v: "dview K ?dev = look (dev_api K) d"
    by (simp_all add: shell_simps dview_def)
  have r: "report K ?dev c a = report K dev c a" using ep v by (simp add: report_def)
  show ?thesis
  proof (cases changed)
    case False
    then show ?thesis using run ns sh v by simp
  next
    case True
    then have run1: "run_notices K ?dev [n] = (dev', w)" using run ns by simp
    from run_notice [OF assms(1) doc ns(2) m run1] show ?thesis
      using True v r same_shell_trans [OF sh] same_shell_wired(1,2) [OF sh] by simp
  qed
qed

lemma dev_SetReachable_law:
  assumes "ids_documented (ids K)" and doc: "device_documented (ids K) (dev_api K)"
    and run: "dev_SetReachable K b dev = (dev', w)"
  shows "dview K dev' = (dview K dev)\<lparr>view_reachable := b\<rparr> \<and> same_shell dev dev' \<and>
    (wired dev \<longrightarrow> w = (if view_reachable (dview K dev) \<noteq> b
       then [report K dev (BridgedDeviceBasicInformation_Id (ids K)) (Reachable_Id (ids K))] else [])) \<and>
    (unwired dev \<longrightarrow> w = [])"
proof -
  obtain d ns where s: "base_SetReachable (dev_api K) b (dv_base dev) = (d, ns)" by (rule prod.exhaust)
  have l: "look (dev_api K) d = (dview K dev)\<lparr>view_reachable := b\<rparr>"
    and n: "ns = (if view_reachable (dview K dev) \<noteq> b then [VirtualChange (kChanged_Reachable (ids K))] else [])"
    using device_laws(1,2) [OF doc, of b "dv_base dev"] s by (auto simp: dview_def look_simps)
  have m: "mask_attribute (ids K) (kChanged_Reachable (ids K))
      (BridgedDeviceBasicInformation_Id (ids K), Reachable_Id (ids K))"
    by (simp add: mask_attribute_def)
  have "run_notices K (dev\<lparr>dv_base := d\<rparr>) ns = (dev', w)" using run s by (simp add: dev_SetReachable_def)
  from setter_law [OF assms(1) doc m n _ _ this] l show ?thesis by simp
qed

lemma dev_SetOnOff_law:
  assumes "ids_documented (ids K)" and doc: "device_documented (ids K) (dev_api K)"
    and run: "dev_SetOnOff K b dev = (dev', w)"
  shows "dview K dev' = (dview K dev)\<lparr>view_on := b\<rparr> \<and> same_shell dev dev' \<and>
    (wired dev \<longrightarrow> w = (if view_on (dview K dev) \<noteq> b
       then [report K dev (OnOff_Id (ids K)) (OnOff_OnOff_Id (ids K))] else [])) \<and>
    (unwired dev \<longrightarrow> w = [])"
proof -
  obtain d ns where s: "base_SetOnOff (dev_api K) b (dv_base dev) = (d, ns)" by (rule prod.exhaust)
  have l: "look (dev_api K) d = (dview K dev)\<lparr>view_on := b\<rparr>"
    and n: "ns = (if view_on (dview K dev) \<noteq> b then [DirectChange (kChanged_OnOff (ids K))] else [])"
    using device_laws(3,4) [OF doc, of b "dv_base dev"] s by (auto simp: dview_def look_simps)
  have m: "mask_attribute (ids K) (kChanged_OnOff (ids K)) (OnOff_Id (ids K), OnOff_OnOff_Id (ids K))"
    by (simp add: mask_attribute_def)
  have "run_notices K (dev\<lparr>dv_base := d\<rparr>) ns = (dev', w)" using run s by (simp add: dev_SetOnOff_def)
  from setter_law [OF assms(1) doc m n _ _ this] l show ?thesis by simp
qed

lemma dev_SetName_law:
  assumes "ids_documented (ids K)" and doc: "device_documented (ids K) (dev_api K)"
    and run: "dev_SetName K b dev = (dev', w)"
  shows "dview K dev' = (dview K dev)\<lparr>view_name := take 31 b\<rparr> \<and> same_shell dev dev' \<and>
    (wired dev \<longrightarrow> w = (if view_name (dview K dev) \<noteq> b
       then [report K dev (BridgedDeviceBasicInformation_Id (ids K)) (NodeLabel_Id (ids K))] else [])) \<and>
    (unwired dev \<longrightarrow> w = [])"
proof -
  obtain d ns where s: "base_SetName (dev_api K) b (dv_base dev) = (d, ns)" by (rule prod.exhaust)
  have l: "look (dev_api K) d = (dview K dev)\<lparr>view_name := take 31 b\<rparr>"
    and n: "ns = (if view_name (dview K dev) \<noteq> b then [VirtualChange (kChanged_Name (ids K))] else [])"
    using device_laws(5,6) [OF doc, of b "dv_base dev"] s by (auto simp: dview_def look_simps)
  have m: "mask_attribute (ids K) (kChanged_Name (ids K))
      (BridgedDeviceBasicInformation_Id (ids K), NodeLabel_Id (ids K))"
    by (simp add: mask_attribute_def)
  have "run_notices K (dev\<lparr>dv_base := d\<rparr>) ns = (dev', w)" using run s by (simp add: dev_SetName_def)
  from setter_law [OF assms(1) doc m n _ _ this] l show ?thesis by simp
qed

lemma SetLevel_law:
  assumes "ids_documented (ids K)" and run: "SetLevel K l dev = (dev', w)"
  shows "dev' = dev\<lparr>mLevel := l\<rparr> \<and>
    (wired dev \<longrightarrow> is_dimmer dev \<longrightarrow> w = (if mLevel dev \<noteq> l
       then [report K dev (LevelControl_Id (ids K)) (CurrentLevel_Id (ids K))] else [])) \<and>
    (unwired dev \<longrightarrow> w = [])"
proof -
  have r: "report K (dev\<lparr>mLevel := l\<rparr>) c a = report K dev c a" for c a
    by (simp add: report_def dview_def)
  have u: "unwired (dev\<lparr>mLevel := l\<rparr>) = unwired dev" by (simp add: unwired_def)
  show ?thesis
    using run handler_masks(9) [OF assms(1) refl, of "dev\<lparr>mLevel := l\<rparr>"] r
      dimmable_changed_unwired [of "dev\<lparr>mLevel := l\<rparr>" K "kChanged_Level (ids K)"] u
    by (auto simp: SetLevel_def Let_def dimmable_changed_def wired_def is_dimmer_def)
qed

lemma SetChangeCallback_wired:
  "dv_class dev = CDeviceOnOff \<Longrightarrow> wired (DeviceOnOff_SetChangeCallback CbOnOffStatusChanged dev)"
  "dv_class dev = CDeviceDimmable \<Longrightarrow> wired (DeviceDimmable_SetChangeCallback CbDimmableStatusChanged dev)"
  by (simp_all add: wired_def DeviceOnOff_SetChangeCallback_def DeviceDimmable_SetChangeCallback_def)

end
