(* ===== verification/Chip_Instance.thy ===== *)
theory Chip_Instance
  imports Device
begin

text \<open>
  One concrete SDK that satisfies everything the development assumes of it: devices that are
  records, 16 endpoint slots that are a list, length-prefixed strings. The witnesses of the
  properties run the bridge on it.
\<close>

section \<open>Ids and devices\<close>

definition mem_ids :: chip_ids where
  "mem_ids = \<lparr>kChanged_Reachable = 1, kChanged_Location = 2, kChanged_Name = 4, kChanged_OnOff = 8,
     OnOff_Id = 6, LevelControl_Id = 8, BridgedDeviceBasicInformation_Id = 57,
     TemperatureMeasurement_Id = 0x402, Descriptor_Id = 29, ClusterRevision_Id = 0xFFFD, FeatureMap_Id = 0xFFFC,
     Reachable_Id = 17, NodeLabel_Id = 5, UniqueID_Id = 18, ConfigurationVersion_Id = 24,
     OnOff_OnOff_Id = 0, CurrentLevel_Id = 0, MinLevel_Id = 2, MaxLevel_Id = 3,
     MeasuredValue_Id = 0, MinMeasuredValue_Id = 1, MaxMeasuredValue_Id = 2\<rparr>"

lemma mem_ids_documented: "ids_documented mem_ids"
proof -
  have "\<exists>r l n on. (1 :: u32) = push_bit r 1 \<and> (2 :: u32) = push_bit l 1 \<and>
      (4 :: u32) = push_bit n 1 \<and> (8 :: u32) = push_bit on 1 \<and>
      distinct [r, l, n] \<and> r < on \<and> l < on \<and> n < on \<and> on < 31"
    by (intro exI [of _ 0] exI [of _ 1] exI [of _ 2] exI [of _ 3]) (simp add: push_bit_eq_mult)
  then show ?thesis by (simp add: ids_documented_def mem_ids_def)
qed

record mem_dev =
  md_reachable :: bool
  md_on :: bool
  md_name :: string
  md_unique :: string
  md_config :: u32
  md_endpoint :: u16
  md_location :: string
  md_zone :: string
  md_measured :: u16

definition mem_device_api :: "mem_dev device_api" where
  "mem_device_api =
     \<lparr>new_DeviceOnOff = (\<lambda>n l. \<lparr>md_reachable = False, md_on = False, md_name = take 31 n,
        md_unique = '''', md_config = 1, md_endpoint = 0, md_location = l, md_zone = '''', md_measured = 0\<rparr>),
      base_IsReachable = md_reachable,
      base_SetReachable = (\<lambda>b d. (d\<lparr>md_reachable := b\<rparr>,
        if md_reachable d \<noteq> b then [VirtualChange 1] else [])),
      base_IsOn = md_on,
      base_SetOnOff = (\<lambda>b d. (d\<lparr>md_on := b\<rparr>, if md_on d \<noteq> b then [DirectChange 8] else [])),
      base_GetName = md_name,
      base_SetName = (\<lambda>n d. (d\<lparr>md_name := take 31 n\<rparr>,
        if md_name d \<noteq> n then [VirtualChange 4] else [])),
      base_GetUniqueId = md_unique,
      base_GenerateUniqueId = (\<lambda>d. d\<lparr>md_unique := ''unique''\<rparr>),
      base_GetConfigurationVersion = md_config,
      base_GetEndpointId = md_endpoint,
      base_SetEndpointId = (\<lambda>e d. d\<lparr>md_endpoint := e\<rparr>),
      base_SetParentEndpointId = (\<lambda>e d. d),
      base_HandleDeviceChange = (\<lambda>m d. (d, [m])),
      temp_GetMeasuredValue = md_measured, temp_mMin = (\<lambda>d. 0), temp_mMax = (\<lambda>d. 200)\<rparr>"

lemma mem_device_documented: "device_documented mem_ids mem_device_api"
  unfolding device_documented_def by (simp add: look_def mem_device_api_def mem_ids_def)

section \<open>Endpoint slots\<close>

text \<open>
  \<open>mem_set_endpoint\<close> refuses a span with fewer data versions than the endpoint type has
  clusters, an index behind the slots, the invalid endpoint id and an id that is in use.
\<close>

type_synonym mem_slots = "(u16 \<times> endpoint_type) option list"

definition mem_slot :: "mem_slots ember_view" where
  "mem_slot s i = (if i < 16 \<and> i < length s then s ! i else None)"

fun find_slot :: "u16 \<Rightarrow> mem_slots \<Rightarrow> nat \<Rightarrow> nat option" where
  "find_slot ep [] i = None"
| "find_slot ep (x # xs) i =
     (if i < 16 \<and> (case x of Some (e, t) \<Rightarrow> e = ep | None \<Rightarrow> False) then Some i
      else find_slot ep xs (Suc i))"

lemma find_slot_Some:
  "find_slot ep xs i = Some j \<Longrightarrow>
   i \<le> j \<and> j < 16 \<and> j - i < length xs \<and> (\<exists>t. xs ! (j - i) = Some (ep, t))"
proof (induction xs arbitrary: i)
  case (Cons x xs)
  show ?case
  proof (cases "i < 16 \<and> (case x of Some (e, t) \<Rightarrow> e = ep | None \<Rightarrow> False)")
    case True
    then show ?thesis using Cons.prems by (auto split: option.splits)
  next
    case False
    have "find_slot ep xs (Suc i) = Some j"
      using Cons.prems unfolding find_slot.simps if_not_P [OF False] by assumption
    from Cons.IH [OF this] obtain t where t: "Suc i \<le> j" "j < 16" "j - Suc i < length xs"
      "xs ! (j - Suc i) = Some (ep, t)" by blast
    then have "j - i = Suc (j - Suc i)" by simp
    with t show ?thesis by auto
  qed
qed simp

lemma find_slot_None:
  "find_slot ep xs i = None \<Longrightarrow> k < length xs \<Longrightarrow> i + k < 16 \<Longrightarrow> xs ! k \<noteq> Some (ep, t)"
proof (induction xs arbitrary: i k)
  case (Cons x xs)
  then show ?case by (cases k) (auto split: if_splits option.splits)
qed simp

lemma find_slot_in_use: "find_slot ep s 0 \<noteq> None \<longleftrightarrow> in_use mem_slot s ep"
proof
  assume "find_slot ep s 0 \<noteq> None"
  then obtain j where "find_slot ep s 0 = Some j" by blast
  from find_slot_Some [OF this] show "in_use mem_slot s ep"
    by (auto simp: in_use_def mem_slot_def intro!: exI [of _ j])
next
  assume "in_use mem_slot s ep"
  then obtain i t where "i < 16" "i < length s" "s ! i = Some (ep, t)"
    by (auto simp: in_use_def mem_slot_def split: if_splits)
  then show "find_slot ep s 0 \<noteq> None" using find_slot_None [of ep s 0 i t] by auto
qed

definition pad :: "mem_slots \<Rightarrow> mem_slots" where
  "pad s = s @ replicate (16 - length s) None"

lemma mem_slot_pad: "mem_slot (pad s) = mem_slot s"
  by (auto simp: mem_slot_def pad_def nth_append fun_eq_iff)

lemma length_pad: "16 \<le> length (pad s)"
  by (simp add: pad_def)

lemma mem_slot_update:
  "i < 16 \<Longrightarrow> mem_slot ((pad s)[i := x]) = (mem_slot s)(i := x)"
  using length_pad [of s] mem_slot_pad [of s, symmetric]
  by (auto simp: mem_slot_def fun_eq_iff nth_list_update)

definition mem_set_endpoint ::
    "u16 \<Rightarrow> u16 \<Rightarrow> endpoint_type \<Rightarrow> nat \<Rightarrow> (u32 \<times> u8) list \<Rightarrow> u16 \<Rightarrow> mem_slots \<Rightarrow> u32 \<times> mem_slots" where
  "mem_set_endpoint i ep t n ts p s =
     (if n < (case t of bridgedLightEndpoint \<Rightarrow> 3 | bridgedDimmableLightEndpoint \<Rightarrow> 4) then (3, s)
      else if \<not> unat i < 16 then (3, s)
      else if ep = 0xFFFF then (2, s)
      else if find_slot ep s 0 \<noteq> None then (1, s)
      else (0, (pad s)[unat i := Some (ep, t)]))"

definition mem_ember_api :: "mem_slots ember_api" where
  "mem_ember_api =
     \<lparr>CHIP_NO_ERROR = 0, CHIP_ERROR_ENDPOINT_EXISTS = 1,
      emberAfSetDynamicEndpoint = mem_set_endpoint,
      emberAfClearDynamicEndpoint = (\<lambda>i s.
        (case mem_slot s (unat i) of Some (ep, t) \<Rightarrow> ep | None \<Rightarrow> 0xFFFF, s[unat i := None])),
      emberAfFixedEndpointCount = (\<lambda>s. 3),
      emberAfEndpointFromIndex = (\<lambda>i s. i),
      emberAfEndpointEnableDisable = (\<lambda>ep b s. s),
      emberAfGetDynamicIndexFromEndpoint = (\<lambda>ep s.
        (case find_slot ep s 0 of Some i \<Rightarrow> of_nat i | None \<Rightarrow> 0xFFFF)),
      emberAfLevelControlClusterServerInitCallback = (\<lambda>ep s. s),
      MakeZclCharString = (\<lambda>buf s. if length s < length buf \<and> length s \<le> 254
        then of_nat (length s) # map (\<lambda>c. of_nat (of_char c)) s @ drop (Suc (length s)) buf
        else map (\<lambda>b. 0) (take 1 buf) @ drop 1 buf),
      fromZclString = (\<lambda>buf. case buf of [] \<Rightarrow> '''' | n # bs \<Rightarrow> map (\<lambda>b. char_of (unat b)) (take (unat n) bs)),
      work_queue_accepts = (\<lambda>n. True)\<rparr>"

lemma mem_set_endpoint_documented: "set_endpoint_documented mem_ember_api mem_slot"
proof -
  have n: "\<forall>e i. CHIP_DEVICE_CONFIG_DYNAMIC_ENDPOINT_COUNT \<le> i \<longrightarrow> mem_slot e i = None"
    by (simp add: mem_slot_def CHIP_DEVICE_CONFIG_DYNAMIC_ENDPOINT_COUNT_def)
  show ?thesis
    unfolding set_endpoint_documented_def using n find_slot_in_use
    by (auto simp: mem_ember_api_def mem_set_endpoint_def mem_slot_update split: if_splits)
qed

lemma mem_ember_documented: "ember_documented mem_ember_api mem_slot"
proof -
  have idx: "unat (emberAfGetDynamicIndexFromEndpoint mem_ember_api ep e) = i"
    if s: "mem_slot e i = Some (ep, t)" and u: "\<forall>j t'. mem_slot e j = Some (ep, t') \<longrightarrow> j = i"
    for ep e i t
  proof -
    have "in_use mem_slot e ep" using s by (auto simp: in_use_def)
    then obtain j where j: "find_slot ep e 0 = Some j" using find_slot_in_use by blast
    from find_slot_Some [OF this] have "j = i" "j < 16" using u by (auto simp: mem_slot_def)
    then show ?thesis using j by (simp add: mem_ember_api_def unat_of_nat_small)
  qed
  have none: "emberAfGetDynamicIndexFromEndpoint mem_ember_api ep e = 0xFFFF"
    if "\<not> in_use mem_slot e ep" for ep e
    using that find_slot_in_use [of ep e] by (auto simp: mem_ember_api_def split: option.splits)
  have clear: "mem_slot (snd (emberAfClearDynamicEndpoint mem_ember_api i e)) = (mem_slot e)(unat i := None)"
    for i e
    by (auto simp: mem_ember_api_def mem_slot_def fun_eq_iff nth_list_update)
  show ?thesis
    unfolding ember_documented_def
    using mem_set_endpoint_documented idx none clear by (simp add: mem_ember_api_def)
qed

lemma char_u8: "char_of (unat (of_nat (of_char c) :: u8)) = c"
proof -
  have "(of_char c :: nat) < 256" by simp
  then show ?thesis by (simp add: unat_of_nat_small)
qed

lemma mem_zcl_documented: "zcl_documented mem_ember_api"
proof -
  have "unat (of_nat (length (s :: string)) :: u8) = length s" if "length s \<le> 254" for s
    using that by (intro unat_of_nat_small) simp
  then show ?thesis
    by (auto simp: zcl_documented_def mem_ember_api_def char_u8 comp_def hd_append take_Suc hd_map)
qed

definition mem_chip :: "(mem_dev, mem_slots) chip" where
  "mem_chip = \<lparr>ids = mem_ids, dev_api = mem_device_api, ember_api = mem_ember_api\<rparr>"

theorem mem_chip_documented: "chip_documented mem_chip mem_slot"
  by (simp add: chip_documented_def mem_chip_def mem_ids_documented mem_device_documented
      mem_ember_documented mem_zcl_documented)

end
