(* ===== verification/Endpoints.thy ===== *)
theory Endpoints
  imports Chip_Instance Adapter_Contract
begin

text \<open>
  The state of the bridge application of \<^verbatim>\<open>matter-bridge-app/main.cpp\<close> and its dynamic
  endpoint table: \<open>AddDeviceEndpoint\<close> and \<open>RemoveDeviceEndpoint\<close> over the SDK's endpoint
  storage, the search for a free endpoint id, which always ends, and the invariant that ties
  the table, the storage and the device objects together.
\<close>

section \<open>The state of the bridge\<close>

text \<open>One published device. Times are milliseconds of the steady clock.\<close>

record bridged_light =
  bl_wemo_id :: int
  bl_udn :: string
  bl_is_dimmable :: bool
  bl_device :: nat
  commandedOnOff :: int
  commandedLevel :: int
  commandedOnOffUntil :: int
  commandedLevelUntil :: int

text \<open>
  The globals, the heap of device objects that \<open>Device *\<close> values point into (a null pointer is
  \<^term>\<open>None\<close>), the endpoint storage, the work queue of the Matter thread and the commands
  whose detached threads have not run yet.
\<close>

record ('d, 'e) bridge =
  gCurrentEndpointId :: u16
  gFirstDynamicEndpointId :: u16
  gDevices :: "nat option list"
  gBridgedWemoLights :: "bridged_light list"
  gWemoDeviceToUdn :: "nat \<rightharpoonup> string"
  heap :: "nat \<rightharpoonup> 'd device_object"
  next_object :: nat
  ember :: 'e
  work :: "work_item list"
  threads :: "wemo_job list"

text \<open>A call through a pointer to an object of the heap.\<close>

definition on_object ::
    "nat \<Rightarrow> ('d device_object \<Rightarrow> 'd device_object) \<Rightarrow> ('d, 'e) bridge \<Rightarrow> ('d, 'e) bridge" where
  "on_object r f b = b\<lparr>heap := (heap b)(r := map_option f (heap b r))\<rparr>"

text \<open>\<open>ScheduleWork\<close>; its error is ignored, and the work is then lost.\<close>

definition ScheduleWork :: "('d, 'e) chip \<Rightarrow> work_item \<Rightarrow> ('d, 'e) bridge \<Rightarrow> ('d, 'e) bridge" where
  "ScheduleWork K item b =
     (if work_queue_accepts (ember_api K) (length (work b)) then b\<lparr>work := work b @ [item]\<rparr> else b)"

definition schedule_all :: "('d, 'e) chip \<Rightarrow> work_item list \<Rightarrow> ('d, 'e) bridge \<Rightarrow> ('d, 'e) bridge" where
  "schedule_all K items b = fold (ScheduleWork K) items b"

section \<open>Endpoint types\<close>

text \<open>The cluster lists the two endpoint types are declared with.\<close>

definition bridgedLightClusters :: "chip_ids \<Rightarrow> u32 list" where
  "bridgedLightClusters I = [OnOff_Id I, Descriptor_Id I, BridgedDeviceBasicInformation_Id I]"

definition bridgedDimmableLightClusters :: "chip_ids \<Rightarrow> u32 list" where
  "bridgedDimmableLightClusters I =
     [OnOff_Id I, LevelControl_Id I, Descriptor_Id I, BridgedDeviceBasicInformation_Id I]"

definition endpoint_clusters :: "chip_ids \<Rightarrow> endpoint_type \<Rightarrow> u32 list" where
  "endpoint_clusters I t =
     (case t of bridgedLightEndpoint \<Rightarrow> bridgedLightClusters I
      | bridgedDimmableLightEndpoint \<Rightarrow> bridgedDimmableLightClusters I)"

section \<open>AddDeviceEndpoint and RemoveDeviceEndpoint\<close>

definition endpoint_slots :: nat where
  "endpoint_slots = CHIP_DEVICE_CONFIG_DYNAMIC_ENDPOINT_COUNT"

text \<open>
  The \<open>while (true)\<close> loop of \<open>AddDeviceEndpoint\<close>. It returns whether the endpoint was added;
  \<^term>\<open>None\<close> means that it does not return.
\<close>

partial_function (option) add_endpoint_loop ::
    "('d, 'e) chip \<Rightarrow> nat \<Rightarrow> nat \<Rightarrow> endpoint_type \<Rightarrow> (u32 \<times> u8) list \<Rightarrow> nat \<Rightarrow> u16 \<Rightarrow>
     ('d, 'e) bridge \<Rightarrow> (bool \<times> ('d, 'e) bridge) option" where
  "add_endpoint_loop K index dev ep deviceTypeList dataVersions parentEndpointId b =
     (let M = ember_api K;
          b = on_object dev (dev_SetParentEndpointId K parentEndpointId)
                (on_object dev (dev_SetEndpointId K (gCurrentEndpointId b)) b);
          (err, e) = emberAfSetDynamicEndpoint M (of_nat index) (gCurrentEndpointId b) ep
                       dataVersions deviceTypeList parentEndpointId (ember b);
          b = b\<lparr>ember := e\<rparr>
      in if err = CHIP_NO_ERROR M
         then Some (True, on_object dev
                (\<lambda>d. if base_GetUniqueId (dev_api K) (dv_base d) = '''' then dev_GenerateUniqueId K d else d) b)
         else if err \<noteq> CHIP_ERROR_ENDPOINT_EXISTS M
         then Some (False, b\<lparr>gDevices := (gDevices b)[index := None]\<rparr>)
         else let next = gCurrentEndpointId b + 1
              in add_endpoint_loop K index dev ep deviceTypeList dataVersions parentEndpointId
                   (b\<lparr>gCurrentEndpointId :=
                        if next < gFirstDynamicEndpointId b then gFirstDynamicEndpointId b else next\<rparr>))"

definition AddDeviceEndpoint ::
    "('d, 'e) chip \<Rightarrow> nat \<Rightarrow> endpoint_type \<Rightarrow> (u32 \<times> u8) list \<Rightarrow> nat \<Rightarrow> u16 \<Rightarrow>
     ('d, 'e) bridge \<Rightarrow> (int \<times> ('d, 'e) bridge) option" where
  "AddDeviceEndpoint K dev ep deviceTypeList dataVersions parentEndpointId b =
     (case find (\<lambda>index. gDevices b ! index = None) [0..<endpoint_slots] of
        None \<Rightarrow> Some (- 1, b)
      | Some index \<Rightarrow>
          map_option (\<lambda>(added, b). (if added then int index else - 1, b))
            (add_endpoint_loop K index dev ep deviceTypeList dataVersions parentEndpointId
               (b\<lparr>gDevices := (gDevices b)[index := Some dev]\<rparr>)))"

definition RemoveDeviceEndpoint ::
    "('d, 'e) chip \<Rightarrow> nat \<Rightarrow> ('d, 'e) bridge \<Rightarrow> int \<times> ('d, 'e) bridge" where
  "RemoveDeviceEndpoint K dev b =
     (case find (\<lambda>index. gDevices b ! index = Some dev) [0..<endpoint_slots] of
        None \<Rightarrow> (- 1, b)
      | Some index \<Rightarrow>
          (let (ep, e) = emberAfClearDynamicEndpoint (ember_api K) (of_nat index) (ember b)
           in (int index, b\<lparr>ember := e, gDevices := (gDevices b)[index := None]\<rparr>)))"

section \<open>The search for a free endpoint id\<close>

definition next_id :: "u16 \<Rightarrow> u16 \<Rightarrow> u16" where
  "next_id first c = (if c + 1 < first then first else c + 1)"

definition id_distance :: "u16 \<Rightarrow> u16 \<Rightarrow> u16 \<Rightarrow> nat" where
  "id_distance first t c =
     nat (if uint c \<le> uint t then uint t - uint c else 65536 - uint c + (uint t - uint first))"

lemma uint_inc_u16: "uint (c + 1 :: u16) = (if uint c = 65535 then 0 else uint c + 1)"
  using uint_u16_bounds [of c] by (auto simp: uint_word_ariths)

lemma next_id_ge: "first \<le> c \<Longrightarrow> first \<le> next_id first c"
  by (auto simp: next_id_def)

lemma id_distance_step:
  assumes "first \<le> c" and "first \<le> t" and "c \<noteq> t"
  shows "id_distance first t (next_id first c) < id_distance first t c"
proof -
  have i: "uint first \<le> uint c" "uint first \<le> uint t" "uint c \<noteq> uint t"
    using assms by (simp_all add: word_le_def word_uint_eq_iff)
  show ?thesis
    using i uint_u16_bounds [of c] uint_u16_bounds [of t] uint_u16_bounds [of first]
    by (auto simp: next_id_def id_distance_def word_less_def uint_inc_u16)
qed

text \<open>There are more ids from the first dynamic one on than there are slots.\<close>

lemma free_id_exists:
  assumes doc: "set_endpoint_documented M V" and first: "uint first \<le> 65519"
  shows "\<exists>t. first \<le> t \<and> \<not> in_use V e t"
proof (rule ccontr)
  assume "\<not> ?thesis"
  then have all: "{t. first \<le> t} \<subseteq> (\<lambda>i. fst (the (V e i))) ` {..<16}"
  proof (intro subsetI)
    fix t assume "\<not> (\<exists>t. first \<le> t \<and> \<not> in_use V e t)" and "t \<in> {t. first \<le> t}"
    then obtain i ty where i: "V e i = Some (t, ty)" by (auto simp: in_use_def)
    then have "i < 16"
      using doc unfolding set_endpoint_documented_def CHIP_DEVICE_CONFIG_DYNAMIC_ENDPOINT_COUNT_def
      by (metis not_le option.distinct(1))
    with i show "t \<in> (\<lambda>i. fst (the (V e i))) ` {..<16}" by (force intro: image_eqI [of _ _ i])
  qed
  let ?id = "\<lambda>i. word_of_int (uint first + int i) :: u16"
  have val: "uint (?id i) = uint first + int i" if "i < 17" for i
    using uint_u16_bounds [of first] first that by (simp only: uint_word_of_int) simp
  have "inj_on ?id {..<17}"
  proof (rule inj_onI)
    fix i j assume "i \<in> {..<17}" "j \<in> {..<17}" "?id i = ?id j"
    then have "uint first + int i = uint first + int j" using val by (metis lessThan_iff)
    then show "i = j" by simp
  qed
  moreover have "?id ` {..<17} \<subseteq> {t. first \<le> t}"
  proof (intro subsetI CollectI)
    fix t assume "t \<in> ?id ` {..<17}"
    then obtain i where "i < 17" "t = ?id i" by blast
    then show "first \<le> t" using val [of i] by (simp only: word_le_def)
  qed
  ultimately have "card {..<17 :: nat} \<le> card {t :: u16. first \<le> t}"
    by (metis card_image card_mono finite)
  also have "\<dots> \<le> card {..<16 :: nat}"
    using card_mono [OF _ all] card_image_le [of "{..<16 :: nat}" "\<lambda>i. fst (the (V e i))"]
    by (meson finite finite_imageI finite_lessThan order_trans)
  finally show False by simp
qed

text \<open>What an attempt to add a device leaves alone.\<close>

definition same_rest :: "('d, 'e) bridge \<Rightarrow> ('d, 'e) bridge \<Rightarrow> bool" where
  "same_rest b b' \<longleftrightarrow> gFirstDynamicEndpointId b' = gFirstDynamicEndpointId b \<and>
     gBridgedWemoLights b' = gBridgedWemoLights b \<and> gWemoDeviceToUdn b' = gWemoDeviceToUdn b \<and>
     next_object b' = next_object b \<and> work b' = work b \<and> threads b' = threads b"

definition same_light :: "('d, 'e) chip \<Rightarrow> 'd device_object \<Rightarrow> 'd device_object \<Rightarrow> bool" where
  "same_light K d d' \<longleftrightarrow> same_shell d d' \<and> view_reachable (dview K d') = view_reachable (dview K d) \<and>
     view_on (dview K d') = view_on (dview K d) \<and> view_name (dview K d') = view_name (dview K d)"

lemma same_light_trans: "same_light K a b \<Longrightarrow> same_light K b c \<Longrightarrow> same_light K a c"
  by (simp add: same_light_def same_shell_def)

lemma same_light_refl [simp]: "same_light K d d"
  by (simp add: same_light_def same_shell_def)

text \<open>The object at \<open>dev\<close> became \<open>d'\<close>; no other object changed.\<close>

definition only_moved :: "('d, 'e) chip \<Rightarrow> nat \<Rightarrow> ('d, 'e) bridge \<Rightarrow> ('d, 'e) bridge \<Rightarrow> bool" where
  "only_moved K dev b b' \<longleftrightarrow> (\<forall>r. r \<noteq> dev \<longrightarrow> heap b' r = heap b r) \<and>
     (\<forall>d. heap b dev = Some d \<longrightarrow> (\<exists>d'. heap b' dev = Some d' \<and> same_light K d d' \<and>
        view_endpoint (dview K d') = gCurrentEndpointId b'))"

text \<open>The storage refuses an id, in a state with the same endpoints, for another reason than the id.\<close>

definition refused ::
    "('d, 'e) chip \<Rightarrow> 'e ember_view \<Rightarrow> nat \<Rightarrow> u16 \<Rightarrow> endpoint_type \<Rightarrow>
     (u32 \<times> u8) list \<Rightarrow> nat \<Rightarrow> u16 \<Rightarrow> 'e \<Rightarrow> bool" where
  "refused K V index ep_id ep ts n p e \<longleftrightarrow>
     (\<exists>e1. V e1 = V e \<and>
        fst (emberAfSetDynamicEndpoint (ember_api K) (of_nat index) ep_id ep n ts p e1)
          \<notin> {CHIP_NO_ERROR (ember_api K), CHIP_ERROR_ENDPOINT_EXISTS (ember_api K)})"

text \<open>
  The outcome of the loop: the ids tried from the current one on were in use up to the one
  it stopped at, and the device was added under that id, or the storage refused it there for
  another reason than the id and the slot was released.
\<close>

definition loop_post ::
    "('d, 'e) chip \<Rightarrow> 'e ember_view \<Rightarrow> nat \<Rightarrow> nat \<Rightarrow> endpoint_type \<Rightarrow>
     (u32 \<times> u8) list \<Rightarrow> nat \<Rightarrow> u16 \<Rightarrow> ('d, 'e) bridge \<Rightarrow> bool \<Rightarrow> ('d, 'e) bridge \<Rightarrow> bool" where
  "loop_post K V index dev ep ts n p b added b' \<longleftrightarrow>
     same_rest b b' \<and> only_moved K dev b b' \<and>
     gFirstDynamicEndpointId b \<le> gCurrentEndpointId b' \<and>
     (\<exists>k. gCurrentEndpointId b' = (next_id (gFirstDynamicEndpointId b) ^^ k) (gCurrentEndpointId b) \<and>
        (\<forall>j<k. in_use V (ember b) ((next_id (gFirstDynamicEndpointId b) ^^ j) (gCurrentEndpointId b)))) \<and>
     (if added
      then gDevices b' = gDevices b \<and> \<not> in_use V (ember b) (gCurrentEndpointId b') \<and>
        V (ember b') = (V (ember b))(index := Some (gCurrentEndpointId b', ep))
      else gDevices b' = (gDevices b)[index := None] \<and> V (ember b') = V (ember b) \<and>
        refused K V index (gCurrentEndpointId b') ep ts n p (ember b))"

lemma moved_ids:
  assumes "device_documented (ids K) (dev_api K)"
  shows "same_light K d (dev_SetParentEndpointId K p (dev_SetEndpointId K e d))"
    "view_endpoint (dview K (dev_SetParentEndpointId K p (dev_SetEndpointId K e d))) = e"
    "same_light K d (dev_GenerateUniqueId K d)"
    "view_endpoint (dview K (dev_GenerateUniqueId K d)) = view_endpoint (dview K d)"
  using device_laws(7,8,11-14) [OF assms]
  by (simp_all add: same_light_def same_shell_def dview_def dev_SetParentEndpointId_def
      dev_SetEndpointId_def dev_GenerateUniqueId_def)

lemma only_moved_step:
  assumes doc: "device_documented (ids K) (dev_api K)"
    and "b1 = on_object dev (dev_SetParentEndpointId K p)
      (on_object dev (dev_SetEndpointId K (gCurrentEndpointId b)) b)"
  shows "only_moved K dev b b1" "same_rest b b1" "ember b1 = ember b" "gDevices b1 = gDevices b"
    "gCurrentEndpointId b1 = gCurrentEndpointId b"
  using assms(2) moved_ids [OF doc]
  by (auto simp: only_moved_def on_object_def same_rest_def)

lemma only_moved_then:
  assumes "only_moved K dev b b1" and "heap c = heap b1" and "only_moved K dev c b2"
  shows "only_moved K dev b b2"
proof -
  have "\<exists>d'. heap b2 dev = Some d' \<and> same_light K d d' \<and>
      view_endpoint (dview K d') = gCurrentEndpointId b2" if h: "heap b dev = Some d" for d
  proof -
    obtain d1 where d1: "heap b1 dev = Some d1" "same_light K d d1"
      using assms(1) h unfolding only_moved_def by blast
    then obtain d2 where "heap b2 dev = Some d2" "same_light K d1 d2"
      "view_endpoint (dview K d2) = gCurrentEndpointId b2"
      using assms(2,3) unfolding only_moved_def by metis
    with same_light_trans [OF d1(2)] show ?thesis by blast
  qed
  moreover have "heap b2 r = heap b r" if "r \<noteq> dev" for r
    using assms that unfolding only_moved_def by metis
  ultimately show ?thesis unfolding only_moved_def by blast
qed

lemma only_moved_on:
  assumes "heap c = heap b" and "b' = on_object dev f c"
    and "\<And>d. heap b dev = Some d \<Longrightarrow>
      same_light K d (f d) \<and> view_endpoint (dview K (f d)) = gCurrentEndpointId b'"
  shows "only_moved K dev b b'"
  using assms by (auto simp: only_moved_def on_object_def)

text \<open>Enough free ids end the loop, and it does what \<^const>\<open>loop_post\<close> says.\<close>

lemma add_endpoint_loop_returns:
  assumes dd: "device_documented (ids K) (dev_api K)"
    and sd: "set_endpoint_documented (ember_api K) V"
    and i: "index < 16" and c: "gFirstDynamicEndpointId b \<le> gCurrentEndpointId b"
    and t: "gFirstDynamicEndpointId b \<le> t" "\<not> in_use V (ember b) t"
  shows "\<exists>added b'. add_endpoint_loop K index dev ep ts n p b = Some (added, b') \<and>
    loop_post K V index dev ep ts n p b added b'"
  using c t
proof (induction "id_distance (gFirstDynamicEndpointId b) t (gCurrentEndpointId b)"
    arbitrary: b rule: less_induct)
  case less
  let ?f = "gFirstDynamicEndpointId b"
  let ?b1 = "on_object dev (dev_SetParentEndpointId K p)
      (on_object dev (dev_SetEndpointId K (gCurrentEndpointId b)) b)"
  note s1 = only_moved_step [OF dd refl, where dev = dev and p = p and b = b]
  obtain err e where set: "emberAfSetDynamicEndpoint (ember_api K) (of_nat index)
      (gCurrentEndpointId b) ep n ts p (ember b) = (err, e)" by (rule prod.exhaust)
  note law = set_endpoint_law [OF sd set]
  have idx: "unat (of_nat index :: u16) = index"
    using i by (intro unat_of_nat_small) simp
  consider (ok) "err = CHIP_NO_ERROR (ember_api K)"
    | (failed) "err \<noteq> CHIP_NO_ERROR (ember_api K)" "err \<noteq> CHIP_ERROR_ENDPOINT_EXISTS (ember_api K)"
    | (again) "err = CHIP_ERROR_ENDPOINT_EXISTS (ember_api K)" "err \<noteq> CHIP_NO_ERROR (ember_api K)"
    using sd unfolding set_endpoint_documented_def by metis
  then show ?case
  proof cases
    case ok
    let ?g = "\<lambda>d. if base_GetUniqueId (dev_api K) (dv_base d) = '''' then dev_GenerateUniqueId K d else d"
    let ?b2 = "on_object dev ?g (?b1\<lparr>ember := e\<rparr>)"
    have r: "add_endpoint_loop K index dev ep ts n p b = Some (True, ?b2)"
      by (rule trans [OF add_endpoint_loop.simps]) (simp add: Let_def s1 set ok)
    have g1: "same_light K d (?g d)" "view_endpoint (dview K (?g d)) = view_endpoint (dview K d)" for d
      using moved_ids(3,4) [OF dd] by simp_all
    have g2: "view_endpoint (dview K d) = gCurrentEndpointId b" if "heap ?b1 dev = Some d" for d
      using that moved_ids(2) [OF dd] by (auto simp: on_object_def)
    have cur: "gCurrentEndpointId ?b2 = gCurrentEndpointId b" by (simp add: on_object_def)
    have "same_light K d (?g d) \<and> view_endpoint (dview K (?g d)) = gCurrentEndpointId ?b2"
      if "heap ?b1 dev = Some d" for d
      using g1 [of d] g2 [OF that] cur by argo
    then have g: "only_moved K dev ?b1 ?b2"
      by (intro only_moved_on [of "?b1\<lparr>ember := e\<rparr>" _ _ _ ?g]) simp_all
    have "only_moved K dev b ?b2" by (rule only_moved_then [OF s1(1) refl g])
    moreover have "same_rest b ?b2" using s1(2) by (simp add: same_rest_def on_object_def)
    moreover have "\<exists>k. gCurrentEndpointId ?b2 = (next_id ?f ^^ k) (gCurrentEndpointId b) \<and>
        (\<forall>j<k. in_use V (ember b) ((next_id ?f ^^ j) (gCurrentEndpointId b)))"
      by (rule exI [of _ 0]) (simp add: on_object_def)
    ultimately have "loop_post K V index dev ep ts n p b True ?b2"
      unfolding loop_post_def using law ok idx less.prems(1)
      by (simp add: on_object_def)
    with r show ?thesis by blast
  next
    case failed
    let ?b2 = "?b1\<lparr>ember := e, gDevices := (gDevices b)[index := None]\<rparr>"
    have r: "add_endpoint_loop K index dev ep ts n p b = Some (False, ?b2)"
      by (rule trans [OF add_endpoint_loop.simps]) (use failed in \<open>simp add: Let_def s1 set\<close>)
    have "only_moved K dev b ?b2" using s1(1) by (simp add: only_moved_def)
    moreover have "same_rest b ?b2" using s1(2) by (simp add: same_rest_def)
    moreover have "\<exists>k. gCurrentEndpointId ?b2 = (next_id ?f ^^ k) (gCurrentEndpointId b) \<and>
        (\<forall>j<k. in_use V (ember b) ((next_id ?f ^^ j) (gCurrentEndpointId b)))"
      by (rule exI [of _ 0]) (simp add: s1)
    moreover have "refused K V index (gCurrentEndpointId ?b2) ep ts n p (ember b)"
      using failed set by (auto simp: refused_def s1 intro!: exI [of _ "ember b"])
    ultimately have "loop_post K V index dev ep ts n p b False ?b2"
      unfolding loop_post_def using law failed less.prems(1) by (simp add: s1)
    with r show ?thesis by blast
  next
    case again
    let ?c = "next_id ?f (gCurrentEndpointId b)"
    let ?b2 = "?b1\<lparr>ember := e, gCurrentEndpointId := ?c\<rparr>"
    have ne: "gCurrentEndpointId b \<noteq> t" using law again less.prems(3) by auto
    have same: "gFirstDynamicEndpointId ?b2 = ?f" "V (ember ?b2) = V (ember b)"
      "gDevices ?b2 = gDevices b" "gCurrentEndpointId ?b2 = ?c"
      using s1(2,4) law again by (simp_all add: same_rest_def)
    have u: "in_use V (ember ?b2) x = in_use V (ember b) x" for x
      using same(2) by (simp add: in_use_def)
    have f1: "gFirstDynamicEndpointId ?b1 = ?f" using s1(2) by (simp add: same_rest_def)
    have r: "add_endpoint_loop K index dev ep ts n p b = add_endpoint_loop K index dev ep ts n p ?b2"
      by (rule trans [OF add_endpoint_loop.simps]) (use again f1 in \<open>simp add: Let_def s1 set next_id_def\<close>)
    have "id_distance (gFirstDynamicEndpointId ?b2) t (gCurrentEndpointId ?b2) <
        id_distance ?f t (gCurrentEndpointId b)"
      using id_distance_step [OF less.prems(1,2) ne] by (simp only: same)
    from less.hyps [OF this] next_id_ge [OF less.prems(1)] less.prems(2,3)
    obtain added b' where l: "add_endpoint_loop K index dev ep ts n p ?b2 = Some (added, b')"
      and p: "loop_post K V index dev ep ts n p ?b2 added b'"
      by (auto simp only: same u)
    have m: "only_moved K dev b b'"
      using only_moved_then [OF s1(1), of ?b2] p by (simp add: loop_post_def)
    have sr: "same_rest b b'" using s1(2) p by (simp add: loop_post_def same_rest_def)
    from p obtain k where k: "gCurrentEndpointId b' = (next_id ?f ^^ k) ?c"
      "\<forall>j<k. in_use V (ember b) ((next_id ?f ^^ j) ?c)"
      unfolding loop_post_def by (auto simp only: same u)
    have rf: "refused K V i x ep ts n p (ember ?b2) = refused K V i x ep ts n p (ember b)" for i x
      using same(2) by (simp add: refused_def)
    have "gCurrentEndpointId b' = (next_id ?f ^^ Suc k) (gCurrentEndpointId b)"
      using k(1) by (simp add: funpow_swap1)
    moreover have "\<forall>j<Suc k. in_use V (ember b) ((next_id ?f ^^ j) (gCurrentEndpointId b))"
      using k(2) law again by (auto simp: less_Suc_eq_0_disj funpow_swap1)
    ultimately have "loop_post K V index dev ep ts n p b added b'"
      using p m sr unfolding loop_post_def by (auto simp only: same u rf)
    with r l show ?thesis by auto
  qed
qed

section \<open>The endpoint table\<close>

definition type_of_light :: "'d device_object \<Rightarrow> endpoint_type" where
  "type_of_light d = (if is_dimmer d then bridgedDimmableLightEndpoint else bridgedLightEndpoint)"

text \<open>A slot of the table agrees with the storage: both empty, or a live light with its id.\<close>

definition slot_ok :: "('d, 'e) chip \<Rightarrow> 'e ember_view \<Rightarrow> ('d, 'e) bridge \<Rightarrow> nat \<Rightarrow> bool" where
  "slot_ok K V b i \<longleftrightarrow>
     (case gDevices b ! i of
        None \<Rightarrow> V (ember b) i = None
      | Some r \<Rightarrow> (\<exists>d. heap b r = Some d \<and> is_on_off d \<and>
          V (ember b) i = Some (view_endpoint (dview K d), type_of_light d)))"

definition table_ok :: "('d, 'e) chip \<Rightarrow> 'e ember_view \<Rightarrow> ('d, 'e) bridge \<Rightarrow> bool" where
  "table_ok K V b \<longleftrightarrow>
     length (gDevices b) = 17 \<and> gFirstDynamicEndpointId b \<le> gCurrentEndpointId b \<and>
     uint (gFirstDynamicEndpointId b) \<le> 65519 \<and>
     (\<forall>i<16. slot_ok K V b i) \<and>
     (\<forall>i<16. \<forall>j<16. \<forall>r. gDevices b ! i = Some r \<longrightarrow> gDevices b ! j = Some r \<longrightarrow> i = j) \<and>
     (\<forall>i j ep t t'. V (ember b) i = Some (ep, t) \<longrightarrow> V (ember b) j = Some (ep, t') \<longrightarrow> i = j)"

lemma table_okD:
  assumes "table_ok K V b"
  shows "length (gDevices b) = 17" "gFirstDynamicEndpointId b \<le> gCurrentEndpointId b"
    "uint (gFirstDynamicEndpointId b) \<le> 65519" "i < 16 \<Longrightarrow> slot_ok K V b i"
    "i < 16 \<Longrightarrow> j < 16 \<Longrightarrow> gDevices b ! i = Some r \<Longrightarrow> gDevices b ! j = Some r \<Longrightarrow> i = j"
    "V (ember b) i = Some (ep, t) \<Longrightarrow> V (ember b) j = Some (ep, t') \<Longrightarrow> i = j"
  using assms unfolding table_ok_def by blast+

lemma same_light_type: "same_light K d d' \<Longrightarrow> is_on_off d' = is_on_off d \<and> type_of_light d' = type_of_light d"
  by (simp add: same_light_def type_of_light_def same_shell_def is_dimmer_def is_on_off_def)

lemma slot_ok_other:
  assumes "slot_ok K V b i" and "gDevices b' ! i = gDevices b ! i" and "V (ember b') i = V (ember b) i"
    and "\<And>r. gDevices b ! i = Some r \<Longrightarrow> heap b' r = heap b r"
  shows "slot_ok K V b' i"
  using assms by (auto simp: slot_ok_def split: option.splits)

text \<open>Both outcomes of the loop, started on a free slot, keep the table.\<close>

lemma table_ok_added:
  assumes ok: "table_ok K V b" and h: "heap b dev = Some d" "is_on_off d" "type_of_light d = ep"
    and free: "\<forall>i<16. gDevices b ! i \<noteq> Some dev" and idx: "index < 16" "gDevices b ! index = None"
    and post: "loop_post K V index dev ep ts n p (b\<lparr>gDevices := (gDevices b)[index := Some dev]\<rparr>) True b'"
  shows "table_ok K V b'"
proof -
  note D = table_okD [OF ok]
  let ?c = "gCurrentEndpointId b'"
  from post have p: "same_rest b b'" "gFirstDynamicEndpointId b \<le> ?c"
    "gDevices b' = (gDevices b)[index := Some dev]" "\<not> in_use V (ember b) ?c"
    "V (ember b') = (V (ember b))(index := Some (?c, ep))"
    by (simp_all add: loop_post_def same_rest_def)
  from post have m: "\<And>r. r \<noteq> dev \<Longrightarrow> heap b' r = heap b r"
    by (simp add: loop_post_def only_moved_def)
  from post h(1) obtain d' where d': "heap b' dev = Some d'" "same_light K d d'"
    "view_endpoint (dview K d') = ?c"
    unfolding loop_post_def only_moved_def by fastforce
  have slots: "slot_ok K V b' i" if i: "i < 16" for i
  proof (cases "i = index")
    case True
    then show ?thesis
      using p(3,5) d' same_light_type [OF d'(2)] h D(1) idx(1) by (simp add: slot_ok_def)
  next
    case False
    show ?thesis
      by (rule slot_ok_other [OF D(4) [OF i]]) (use False p m free i in auto)
  qed
  have refs: "i = j" if "i < 16" "j < 16" "gDevices b' ! i = Some r" "gDevices b' ! j = Some r" for i j r
  proof -
    have nth: "gDevices b' ! k = (if k = index then Some dev else gDevices b ! k)" if "k < 16" for k
      using that p(3) D(1) by (simp add: nth_list_update)
    show ?thesis
      using that(3,4) free D(5) [OF that(1,2), of r]
      unfolding nth [OF that(1)] nth [OF that(2)] by (metis that(1,2) option.inject)
  qed
  have eps: "i = j" if "V (ember b') i = Some (e, t)" "V (ember b') j = Some (e, t')" for i j e t t'
  proof -
    have "V (ember b) k \<noteq> Some (?c, u)" for k u using p(4) by (auto simp: in_use_def)
    then show ?thesis
      using that D(6) [of i e t j t'] by (auto simp: p(5) split: if_splits)
  qed
  show ?thesis
    unfolding table_ok_def
    using D(1-3) p(1-3) slots refs eps by (simp add: same_rest_def)
qed

lemma table_ok_refused:
  assumes ok: "table_ok K V b" and free: "\<forall>i<16. gDevices b ! i \<noteq> Some dev"
    and idx: "index < 16" "gDevices b ! index = None"
    and post: "loop_post K V index dev ep ts n p (b\<lparr>gDevices := (gDevices b)[index := Some dev]\<rparr>) False b'"
  shows "table_ok K V b' \<and> gDevices b' = gDevices b"
proof -
  note D = table_okD [OF ok]
  have "(gDevices b)[index := None] = gDevices b" using idx(2) by (metis list_update_id)
  with post have p: "same_rest b b'" "gFirstDynamicEndpointId b \<le> gCurrentEndpointId b'"
    "gDevices b' = gDevices b" "V (ember b') = V (ember b)" "\<And>r. r \<noteq> dev \<Longrightarrow> heap b' r = heap b r"
    by (simp_all add: loop_post_def same_rest_def only_moved_def)
  have slots: "slot_ok K V b' i" if i: "i < 16" for i
    by (rule slot_ok_other [OF D(4) [OF i]]) (use p free i in auto)
  have "table_ok K V b'"
    unfolding table_ok_def using D(1-3) p(1-4) slots D(5,6) by (simp add: same_rest_def)
  then show ?thesis using p(3) by simp
qed

text \<open>\<open>AddDeviceEndpoint\<close> as a whole: what it returns and what it leaves.\<close>

definition add_post ::
    "('d, 'e) chip \<Rightarrow> 'e ember_view \<Rightarrow> nat \<Rightarrow> endpoint_type \<Rightarrow> (u32 \<times> u8) list \<Rightarrow> nat \<Rightarrow> u16 \<Rightarrow>
     ('d, 'e) bridge \<Rightarrow> int \<Rightarrow>
     ('d, 'e) bridge \<Rightarrow> bool" where
  "add_post K V dev ep ts n p b r b' \<longleftrightarrow>
     table_ok K V b' \<and> same_rest b b' \<and> (\<forall>x. x \<noteq> dev \<longrightarrow> heap b' x = heap b x) \<and>
     (\<forall>d. heap b dev = Some d \<longrightarrow> (\<exists>d'. heap b' dev = Some d' \<and> same_light K d d')) \<and>
     (r = - 1 \<and> gDevices b' = gDevices b \<and> V (ember b') = V (ember b) \<and>
        ((\<forall>i<16. gDevices b ! i \<noteq> None) \<or>
         (\<exists>i<16. gDevices b ! i = None \<and> refused K V i (gCurrentEndpointId b') ep ts n p (ember b) \<and>
           (\<exists>k. gCurrentEndpointId b' = (next_id (gFirstDynamicEndpointId b) ^^ k) (gCurrentEndpointId b) \<and>
             (\<forall>j<k. in_use V (ember b) ((next_id (gFirstDynamicEndpointId b) ^^ j) (gCurrentEndpointId b)))))) \<or>
      (\<exists>i<16. r = int i \<and> gDevices b ! i = None \<and> (\<forall>j<i. gDevices b ! j \<noteq> None) \<and>
         gDevices b' = (gDevices b)[i := Some dev] \<and>
         \<not> in_use V (ember b) (gCurrentEndpointId b') \<and>
         (\<exists>k. gCurrentEndpointId b' = (next_id (gFirstDynamicEndpointId b) ^^ k) (gCurrentEndpointId b) \<and>
           (\<forall>j<k. in_use V (ember b) ((next_id (gFirstDynamicEndpointId b) ^^ j) (gCurrentEndpointId b)))) \<and>
         V (ember b') = (V (ember b))(i := Some (gCurrentEndpointId b', ep))))"

lemma AddDeviceEndpoint_law:
  assumes dd: "device_documented (ids K) (dev_api K)"
    and sd: "set_endpoint_documented (ember_api K) V" and ok: "table_ok K V b"
    and h: "heap b dev = Some d" "is_on_off d" "type_of_light d = ep"
    and free: "\<forall>i<16. gDevices b ! i \<noteq> Some dev"
  shows "\<exists>r b'. AddDeviceEndpoint K dev ep ts n p b = Some (r, b') \<and> add_post K V dev ep ts n p b r b'"
proof (cases "find (\<lambda>index. gDevices b ! index = None) [0..<endpoint_slots]")
  case None
  then have full: "\<forall>i<16. gDevices b ! i \<noteq> None"
    by (simp add: find_upt_None endpoint_slots_def CHIP_DEVICE_CONFIG_DYNAMIC_ENDPOINT_COUNT_def)
  have "add_post K V dev ep ts n p b (- 1) b"
    unfolding add_post_def using ok h(1) full by (auto simp: same_rest_def)
  with None show ?thesis by (simp add: AddDeviceEndpoint_def)
next
  case (Some index)
  then have i: "index < 16" "gDevices b ! index = None" "\<forall>j<index. gDevices b ! j \<noteq> None"
    by (simp_all add: find_upt_Some endpoint_slots_def CHIP_DEVICE_CONFIG_DYNAMIC_ENDPOINT_COUNT_def)
  let ?b = "b\<lparr>gDevices := (gDevices b)[index := Some dev]\<rparr>"
  obtain t where "gFirstDynamicEndpointId ?b \<le> t" "\<not> in_use V (ember ?b) t"
    using free_id_exists [OF sd table_okD(3) [OF ok]] by auto
  then obtain added b' where l: "add_endpoint_loop K index dev ep ts n p ?b = Some (added, b')"
    and post: "loop_post K V index dev ep ts n p ?b added b'"
    using add_endpoint_loop_returns [OF dd sd i(1), of ?b t dev ep ts n p] table_okD(2) [OF ok] by auto
  have r: "AddDeviceEndpoint K dev ep ts n p b = Some (if added then int index else - 1, b')"
    using Some l by (simp add: AddDeviceEndpoint_def)
  have rest: "same_rest b b'" "\<forall>x. x \<noteq> dev \<longrightarrow> heap b' x = heap b x"
    using post by (simp_all add: loop_post_def same_rest_def only_moved_def)
  have "only_moved K dev ?b b'" using post by (simp add: loop_post_def)
  then have mv: "\<forall>d. heap b dev = Some d \<longrightarrow> (\<exists>d'. heap b' dev = Some d' \<and> same_light K d d')"
    by (auto simp: only_moved_def)
  show ?thesis
  proof (cases added)
    case True
    with post have q: "gDevices b' = (gDevices b)[index := Some dev]"
      "\<not> in_use V (ember b) (gCurrentEndpointId b')"
      "V (ember b') = (V (ember b))(index := Some (gCurrentEndpointId b', ep))"
      "\<exists>k. gCurrentEndpointId b' = (next_id (gFirstDynamicEndpointId b) ^^ k) (gCurrentEndpointId b) \<and>
         (\<forall>j<k. in_use V (ember b) ((next_id (gFirstDynamicEndpointId b) ^^ j) (gCurrentEndpointId b)))"
      by (simp_all add: loop_post_def)
    have "table_ok K V b'" using table_ok_added [OF ok h free i(1,2)] post True by simp
    then have "add_post K V dev ep ts n p b (int index) b'"
      unfolding add_post_def using rest mv i q by blast
    with r True show ?thesis by auto
  next
    case False
    then have "table_ok K V b'" "gDevices b' = gDevices b"
      using table_ok_refused [OF ok free i(1,2)] post by simp_all
    moreover have "V (ember b') = V (ember b)"
      "refused K V index (gCurrentEndpointId b') ep ts n p (ember b)"
      "\<exists>k. gCurrentEndpointId b' = (next_id (gFirstDynamicEndpointId b) ^^ k) (gCurrentEndpointId b) \<and>
         (\<forall>j<k. in_use V (ember b) ((next_id (gFirstDynamicEndpointId b) ^^ j) (gCurrentEndpointId b)))"
      using post False by (simp_all add: loop_post_def)
    ultimately have "add_post K V dev ep ts n p b (- 1) b'"
      unfolding add_post_def using rest mv i(1,2) by blast
    with r False show ?thesis by auto
  qed
qed

lemma RemoveDeviceEndpoint_law:
  assumes ed: "ember_documented (ember_api K) V" and ok: "table_ok K V b"
    and run: "RemoveDeviceEndpoint K dev b = (r, b')"
  shows "table_ok K V b' \<and> same_rest b b' \<and> heap b' = heap b \<and>
    gCurrentEndpointId b' = gCurrentEndpointId b \<and>
    (r = - 1 \<and> b' = b \<and> (\<forall>i<16. gDevices b ! i \<noteq> Some dev) \<or>
     (\<exists>i<16. r = int i \<and> gDevices b ! i = Some dev \<and> gDevices b' = (gDevices b)[i := None] \<and>
        V (ember b') = (V (ember b))(i := None)))"
proof (cases "find (\<lambda>index. gDevices b ! index = Some dev) [0..<endpoint_slots]")
  case None
  then have free: "\<forall>i<16. gDevices b ! i \<noteq> Some dev"
    by (simp add: find_upt_None endpoint_slots_def CHIP_DEVICE_CONFIG_DYNAMIC_ENDPOINT_COUNT_def)
  have "r = - 1" "b' = b" using run None by (simp_all add: RemoveDeviceEndpoint_def)
  with ok free show ?thesis by (simp add: same_rest_def)
next
  case (Some index)
  note D = table_okD [OF ok]
  from Some have i: "index < 16" "gDevices b ! index = Some dev"
    by (simp_all add: find_upt_Some endpoint_slots_def CHIP_DEVICE_CONFIG_DYNAMIC_ENDPOINT_COUNT_def)
  obtain e1 e where c: "emberAfClearDynamicEndpoint (ember_api K) (of_nat index) (ember b) = (e1, e)"
    by (rule prod.exhaust)
  have b': "r = int index" "b' = b\<lparr>ember := e, gDevices := (gDevices b)[index := None]\<rparr>"
    using run Some c by (simp_all add: RemoveDeviceEndpoint_def)
  have "unat (of_nat index :: u16) = index" using i(1) by (intro unat_of_nat_small) simp
  then have v: "V e = (V (ember b))(index := None)"
    using ember_laws(2) [OF ed, of "of_nat index" "ember b"] c by simp
  have slots: "slot_ok K V b' j" if "j < 16" for j
  proof (cases "j = index")
    case True
    then show ?thesis using b' v i D(1) by (simp add: slot_ok_def)
  next
    case False
    show ?thesis by (rule slot_ok_other [OF D(4) [OF that]]) (use b' v False in auto)
  qed
  have refs: "j = k" if "j < 16" "k < 16" "gDevices b' ! j = Some x" "gDevices b' ! k = Some x" for j k x
  proof -
    have nth: "gDevices b' ! l = (if l = index then None else gDevices b ! l)" if "l < 16" for l
      using that b'(2) D(1) by (simp add: nth_list_update)
    show ?thesis
      using that(3,4) D(5) [OF that(1,2), of x] unfolding nth [OF that(1)] nth [OF that(2)]
      by (simp split: if_splits)
  qed
  have eps: "j = k" if "V (ember b') j = Some (ep, t)" "V (ember b') k = Some (ep, t')" for j k ep t t'
    using that b'(2) v D(6) [of j ep t k t'] by (simp split: if_splits)
  have "table_ok K V b'"
    unfolding table_ok_def
    using D(1-3) slots refs eps b'(2) by simp
  then show ?thesis using b' i v by (auto simp: same_rest_def)
qed

section \<open>Properties\<close>

text \<open>A bridge with an empty table and one light that is not published yet.\<close>

definition empty_bridge :: "(nat \<rightharpoonup> 'd device_object) \<Rightarrow> nat \<Rightarrow> 'e \<Rightarrow> ('d, 'e) bridge" where
  "empty_bridge h n e =
     \<lparr>gCurrentEndpointId = 3, gFirstDynamicEndpointId = 3, gDevices = replicate 17 None,
      gBridgedWemoLights = [], gWemoDeviceToUdn = Map.empty, heap = h, next_object = n,
      ember = e, work = [], threads = []\<rparr>"

definition mem_light :: "mem_dev device_object" where
  "mem_light = make_DeviceOnOff mem_chip ''Lamp'' ''WeMo''"

definition mem_bridge :: "(mem_dev, mem_slots) bridge" where
  "mem_bridge = empty_bridge [0 \<mapsto> mem_light] 1 (replicate 16 None)"

lemma mem_bridge_table_ok: "table_ok mem_chip mem_slot mem_bridge"
  by (simp add: table_ok_def slot_ok_def mem_bridge_def empty_bridge_def mem_slot_def)

lemma mem_chip_parts:
  "ids_documented (ids mem_chip)" "device_documented (ids mem_chip) (dev_api mem_chip)"
  "ember_documented (ember_api mem_chip) mem_slot" "set_endpoint_documented (ember_api mem_chip) mem_slot"
  "zcl_documented (ember_api mem_chip)"
  using mem_chip_documented mem_set_endpoint_documented
  by (simp_all add: chip_documented_def mem_chip_def)

lemma mem_light_facts: "is_on_off mem_light" "type_of_light mem_light = bridgedLightEndpoint"
  "unwired mem_light"
  by (simp_all add: mem_light_def make_DeviceOnOff_def is_on_off_def type_of_light_def is_dimmer_def
      unwired_def)

text \<open>
  C21. \<open>AddDeviceEndpoint\<close> always returns. It either publishes the device in the lowest free
  slot, under the first id, counting up cyclically from the current one, that no endpoint
  uses; or, when the table is full or the storage refuses the endpoint for another reason, it
  returns -1 and leaves the table and the storage as they were. In both cases the table, the
  storage and the devices keep agreeing.
\<close>

theorem add_endpoint_correct:
  assumes "device_documented (ids K) (dev_api K)" and "set_endpoint_documented (ember_api K) V"
    and "table_ok K V b" and "heap b dev = Some d" and "is_on_off d" and "type_of_light d = ep"
    and "\<forall>i<16. gDevices b ! i \<noteq> Some dev"
  shows "\<exists>r b'. AddDeviceEndpoint K dev ep ts n p b = Some (r, b') \<and> table_ok K V b' \<and>
    (r = - 1 \<and> gDevices b' = gDevices b \<and> V (ember b') = V (ember b) \<and>
       ((\<forall>i<16. gDevices b ! i \<noteq> None) \<or>
        (\<exists>i<16. gDevices b ! i = None \<and> refused K V i (gCurrentEndpointId b') ep ts n p (ember b))) \<or>
     (\<exists>i<16. r = int i \<and> gDevices b ! i = None \<and> (\<forall>j<i. gDevices b ! j \<noteq> None) \<and>
        gDevices b' = (gDevices b)[i := Some dev] \<and>
        \<not> in_use V (ember b) (gCurrentEndpointId b') \<and>
        (\<exists>k. gCurrentEndpointId b' = (next_id (gFirstDynamicEndpointId b) ^^ k) (gCurrentEndpointId b) \<and>
          (\<forall>j<k. in_use V (ember b) ((next_id (gFirstDynamicEndpointId b) ^^ j) (gCurrentEndpointId b)))) \<and>
        V (ember b') = (V (ember b))(i := Some (gCurrentEndpointId b', ep))))"
  using AddDeviceEndpoint_law [OF assms, of ts n p] unfolding add_post_def by blast

theorem add_endpoint_correct_witness:
  "\<exists>r b'. AddDeviceEndpoint mem_chip 0 bridgedLightEndpoint [(0x0100, 1)] 3 1 mem_bridge = Some (r, b') \<and>
     table_ok mem_chip mem_slot b'"
proof -
  have h: "heap mem_bridge 0 = Some mem_light" by (simp add: mem_bridge_def empty_bridge_def)
  have f: "\<forall>i<16. gDevices mem_bridge ! i \<noteq> Some 0" by (simp add: mem_bridge_def empty_bridge_def)
  from add_endpoint_correct [OF mem_chip_parts(2,4) mem_bridge_table_ok h mem_light_facts(1,2) f]
  show ?thesis by blast
qed

text \<open>The storage leads from the id of a published device back to its slot.\<close>

lemma published_index:
  assumes "ember_documented (ember_api K) V" and ok: "table_ok K V b" and "i < 16"
    and "gDevices b ! i = Some r"
  obtains d where "heap b r = Some d" "is_on_off d"
    "V (ember b) i = Some (view_endpoint (dview K d), type_of_light d)"
    "unat (emberAfGetDynamicIndexFromEndpoint (ember_api K) (view_endpoint (dview K d)) (ember b)) = i"
proof -
  obtain d where d: "heap b r = Some d" "is_on_off d"
    "V (ember b) i = Some (view_endpoint (dview K d), type_of_light d)"
    using table_okD(4) [OF ok assms(3)] assms(4) by (auto simp: slot_ok_def)
  have "unat (emberAfGetDynamicIndexFromEndpoint (ember_api K) (view_endpoint (dview K d)) (ember b)) = i"
    using assms(1) d(3) table_okD(6) [OF ok] unfolding ember_documented_def by blast
  with d show ?thesis by (rule that)
qed

end
