(* ===== verification/Levels.thy ===== *)
theory Levels
  imports Prelude
begin

text \<open>
  Brightness conversions between the Matter scale (0..254) and the WeMo scale (0..100),
  as they appear in the level write handler, in the state event handler and in the
  seeding of a dimmer at startup of \<^verbatim>\<open>matter-bridge-app/main.cpp\<close>. All three are
  unsigned 32-bit computations on a 16-bit operand, truncated to 8 bits.
\<close>

section \<open>The conversions\<close>

text \<open>\<open>static_cast<uint8_t>(static_cast<uint16_t>(level) * 254u / 100u)\<close>.\<close>

definition wemo_to_matter :: "int \<Rightarrow> u8" where
  "wemo_to_matter level = ucast ((ucast (to_u16 level) :: u32) * 254 div 100)"

text \<open>
  \<open>static_cast<uint8_t>(static_cast<uint16_t>(matterLevel) * 100u / 254u)\<close>, then the
  correction that keeps a tiny non-zero level on.
\<close>

definition matter_to_wemo :: "u8 \<Rightarrow> u8" where
  "matter_to_wemo matterLevel =
     (let wemoPercent = ucast ((ucast (ucast matterLevel :: u16) :: u32) * 100 div 254) :: u8
      in if 0 < matterLevel \<and> wemoPercent = 0 then 1 else wemoPercent)"

section \<open>Their values as integers\<close>

lemma uint_scaled_u32:
  assumes "k \<in> {100, 254 :: int}"
  shows "uint ((ucast (w :: u16) :: u32) * word_of_int k) = uint w * k"
proof -
  have "0 \<le> uint w * k \<and> uint w * k < 2 ^ 32"
    using uint_u16_bounds [of w] assms by auto
  then show ?thesis
    by (simp add: uint_word_ariths uint_word_of_int unsigned_ucast_eq take_bit_eq_mod mod_simps)
qed

lemmas uint_scaled_u32_num =
  uint_scaled_u32 [of 100, simplified] uint_scaled_u32 [of 254, simplified]

lemma uint_u16_of_u8: "uint (ucast (l :: u8) :: u16) = uint l"
proof -
  have "uint l < 65536" using uint_u8_bounds [of l] by simp
  then show ?thesis by (simp add: unsigned_ucast_eq take_bit_eq_mod)
qed

lemma uint_u8_quotient:
  "uint (w :: u16) * 100 div 254 < 256 \<Longrightarrow>
   uint (ucast ((ucast w :: u32) * 100 div 254) :: u8) = uint w * 100 div 254"
  using uint_u16_bounds [of w]
  by (simp add: unsigned_ucast_eq take_bit_eq_mod uint_div uint_scaled_u32_num
      pos_imp_zdiv_nonneg_iff)

lemma uint_wemo_to_matter:
  "uint (wemo_to_matter level) = ((level mod 65536) * 254 div 100) mod 256"
  by (simp add: wemo_to_matter_def unsigned_ucast_eq take_bit_eq_mod uint_div
      uint_scaled_u32_num uint_to_u16)

lemma uint_wemo_to_matter_percent:
  "0 \<le> level \<Longrightarrow> level \<le> 100 \<Longrightarrow> uint (wemo_to_matter level) = level * 254 div 100"
  by (simp add: uint_wemo_to_matter)

lemma uint_matter_to_wemo:
  "uint (matter_to_wemo l) =
     (if 0 < uint l \<and> uint l * 100 div 254 = 0 then 1 else uint l * 100 div 254)"
proof -
  let ?p = "ucast ((ucast (ucast l :: u16) :: u32) * 100 div 254) :: u8"
  have "uint l * 100 div 254 < 256"
    using uint_u8_bounds [of l] by auto
  then have p: "uint ?p = uint l * 100 div 254"
    using uint_u8_quotient [of "ucast l"] by (simp only: uint_u16_of_u8)
  have "?p = 0 \<longleftrightarrow> uint ?p = 0" and "0 < l \<longleftrightarrow> 0 < uint l"
    by (simp_all add: word_uint_eq_iff word_less_def)
  with p show ?thesis
    by (simp add: matter_to_wemo_def Let_def)
qed

text \<open>The conversions on \<^typ>\<open>int\<close>, to decide facts about all 256 levels by evaluation.\<close>

definition to_percent :: "int \<Rightarrow> int" where
  "to_percent i = (if 0 < i \<and> i * 100 div 254 = 0 then 1 else i * 100 div 254)"

definition to_level :: "int \<Rightarrow> int" where
  "to_level p = p * 254 div 100"

lemma uint_matter_to_wemo_percent: "uint (matter_to_wemo l) = to_percent (uint l)"
  by (simp add: uint_matter_to_wemo to_percent_def)

lemma to_percent_range: "0 \<le> i \<Longrightarrow> i \<le> 255 \<Longrightarrow> 0 \<le> to_percent i \<and> to_percent i \<le> 100"
  by (auto simp: to_percent_def)

lemma uint_wemo_of_matter:
  "uint (wemo_to_matter (uint (matter_to_wemo l))) = to_level (to_percent (uint l))"
  using to_percent_range [of "uint l"] uint_u8_bounds [of l]
  by (simp add: uint_matter_to_wemo_percent uint_wemo_to_matter_percent to_level_def)

lemma uint_matter_of_wemo:
  assumes "0 \<le> p" and "p \<le> 100"
  shows "uint (matter_to_wemo (wemo_to_matter p)) = to_percent (to_level p)"
  using assms by (simp add: uint_matter_to_wemo_percent uint_wemo_to_matter_percent to_level_def)

lemma all_u8_int: "\<forall>i\<in>set [0..255]. P i \<Longrightarrow> P (uint (l :: u8))"
  using uint_u8_bounds [of l] by auto

lemma all_percent: "\<forall>i\<in>set [0..100]. P i \<Longrightarrow> 0 \<le> p \<Longrightarrow> p \<le> 100 \<Longrightarrow> P (p :: int)"
  by auto

lemma u8_eq_numeral: "(l :: u8) = to_u8 i \<longleftrightarrow> uint l = i mod 256"
  by (simp add: word_uint_eq_iff uint_to_u8)

section \<open>Properties of the conversions\<close>

lemma matter_to_wemo_le_100: "uint (matter_to_wemo l) \<le> 100"
  using to_percent_range [of "uint l"] uint_u8_bounds [of l]
  by (simp add: uint_matter_to_wemo_percent)

lemma matter_to_wemo_zero_iff: "matter_to_wemo l = 0 \<longleftrightarrow> l = 0"
proof -
  have "to_percent (uint l) = 0 \<longleftrightarrow> uint l = 0"
    by (rule all_u8_int) code_simp
  then show ?thesis
    by (simp add: word_uint_eq_iff uint_matter_to_wemo_percent)
qed

lemma to_percent_mono: "0 \<le> i \<Longrightarrow> i \<le> j \<Longrightarrow> to_percent i \<le> to_percent j"
proof -
  assume "0 \<le> i" "i \<le> j"
  then have "i * 100 div 254 \<le> j * 100 div 254" by (intro zdiv_mono1) simp_all
  then show ?thesis using \<open>0 \<le> i\<close> \<open>i \<le> j\<close> by (auto simp: to_percent_def)
qed

lemma matter_to_wemo_mono: "l \<le> m \<Longrightarrow> matter_to_wemo l \<le> matter_to_wemo m"
  by (simp add: word_le_def uint_matter_to_wemo_percent to_percent_mono)

lemma wemo_to_matter_le_254: "0 \<le> p \<Longrightarrow> p \<le> 100 \<Longrightarrow> uint (wemo_to_matter p) \<le> 254"
  by (simp add: uint_wemo_to_matter_percent)

lemma wemo_to_matter_mono:
  "0 \<le> p \<Longrightarrow> p \<le> q \<Longrightarrow> q \<le> 100 \<Longrightarrow> wemo_to_matter p \<le> wemo_to_matter q"
  by (simp add: word_le_def uint_wemo_to_matter_percent zdiv_mono1)

lemma wemo_to_matter_inj:
  "0 \<le> p \<Longrightarrow> p < q \<Longrightarrow> q \<le> 100 \<Longrightarrow> wemo_to_matter p < wemo_to_matter q"
  by (simp add: word_less_def uint_wemo_to_matter_percent)

text \<open>Which commanded levels come back unchanged from the engine's percent scale.\<close>

lemma level_echo_exact_iff:
  "wemo_to_matter (uint (matter_to_wemo l)) = l \<longleftrightarrow> l \<in> {0, 2, 127, 254}"
proof -
  have "to_level (to_percent (uint l)) = uint l \<longleftrightarrow> uint l \<in> {0, 2, 127, 254}"
    by (rule all_u8_int) code_simp
  then show ?thesis
    by (simp add: word_uint_eq_iff uint_wemo_of_matter)
qed

text \<open>How far off the others come back.\<close>

lemma level_echo_error:
  "2 \<le> uint l \<Longrightarrow>
   uint l - 3 \<le> uint (wemo_to_matter (uint (matter_to_wemo l))) \<and>
   uint (wemo_to_matter (uint (matter_to_wemo l))) \<le> uint l"
proof -
  have "2 \<le> uint l \<longrightarrow> uint l - 3 \<le> to_level (to_percent (uint l)) \<and>
      to_level (to_percent (uint l)) \<le> uint l"
    by (rule all_u8_int) code_simp
  then show "2 \<le> uint l \<Longrightarrow> ?thesis"
    by (simp add: uint_wemo_of_matter)
qed

text \<open>Writing back the level the bridge shows for a percentage.\<close>

lemma percent_write_back:
  assumes "0 \<le> p" and "p \<le> 100"
  shows "uint (matter_to_wemo (wemo_to_matter p)) = (if p \<in> {0, 1, 50, 100} then p else p - 1)"
proof -
  have "to_percent (to_level p) = (if p \<in> {0, 1, 50, 100} then p else p - 1)"
    by (rule all_percent [OF _ assms]) code_simp
  then show ?thesis
    by (simp add: uint_matter_of_wemo assms)
qed

end
