(* ===== verification/Attributes.thy ===== *)
theory Attributes
  imports Endpoints Levels
begin

text \<open>
  The attribute handlers of \<^verbatim>\<open>matter-bridge-app/main.cpp\<close>: what the Matter stack reads from
  a bridged device and what a controller's write does to the device, to the settle windows
  of the bridge and to the commands sent to the WeMo engine.
\<close>

section \<open>Status codes and revisions\<close>

datatype im_status = Success | Failure | UnsupportedWrite | ConstraintError

text \<open>What a call through a \<open>Device *\<close> can do wrong.\<close>

datatype fault = NullDeref | DanglingPointer | BadDowncast

definition ZCL_BRIDGED_DEVICE_BASIC_INFORMATION_CLUSTER_REVISION :: u16 where
  "ZCL_BRIDGED_DEVICE_BASIC_INFORMATION_CLUSTER_REVISION = 2"

definition ZCL_BRIDGED_DEVICE_BASIC_INFORMATION_FEATURE_MAP :: u32 where
  "ZCL_BRIDGED_DEVICE_BASIC_INFORMATION_FEATURE_MAP = 0"

definition ZCL_ON_OFF_CLUSTER_REVISION :: u16 where
  "ZCL_ON_OFF_CLUSTER_REVISION = 4"

definition ZCL_TEMPERATURE_SENSOR_CLUSTER_REVISION :: u16 where
  "ZCL_TEMPERATURE_SENSOR_CLUSTER_REVISION = 1"

definition ZCL_TEMPERATURE_SENSOR_FEATURE_MAP :: u32 where
  "ZCL_TEMPERATURE_SENSOR_FEATURE_MAP = 0"

definition ZCL_LEVEL_CONTROL_CLUSTER_REVISION :: u16 where
  "ZCL_LEVEL_CONTROL_CLUSTER_REVISION = 6"

definition ZCL_LEVEL_CONTROL_FEATURE_MAP :: u32 where
  "ZCL_LEVEL_CONTROL_FEATURE_MAP = 3"

definition kNodeLabelSize :: nat where
  "kNodeLabelSize = 32"

definition kCommandSettleWindow :: int where
  "kCommandSettleWindow = 2000"

section \<open>Reads\<close>

text \<open>A ZCL string written into \<open>MutableByteSpan(buffer, maxReadLength)\<close>.\<close>

definition put_zcl_string :: "'e ember_api \<Rightarrow> nat \<Rightarrow> string \<Rightarrow> u8 list \<Rightarrow> u8 list" where
  "put_zcl_string M n s buffer = put_bytes (MakeZclCharString M (take n buffer) s) buffer"

definition HandleReadBridgedDeviceBasicAttribute ::
    "('d, 'e) chip \<Rightarrow> 'd device_object \<Rightarrow> u32 \<Rightarrow> u8 list \<Rightarrow> u16 \<Rightarrow> im_status \<times> u8 list" where
  "HandleReadBridgedDeviceBasicAttribute K dev attributeId buffer maxReadLength =
     (let I = ids K; D = dev_api K; M = ember_api K; d = dv_base dev
      in if attributeId = Reachable_Id I \<and> maxReadLength = 1
         then (Success, put_bytes [if base_IsReachable D d then 1 else 0] buffer)
         else if attributeId = NodeLabel_Id I \<and> maxReadLength = 32
         then (Success, put_zcl_string M 32 (base_GetName D d) buffer)
         else if attributeId = UniqueID_Id I \<and> maxReadLength = 32
         then (Success, put_zcl_string M 32 (base_GetUniqueId D d) buffer)
         else if attributeId = ConfigurationVersion_Id I \<and> maxReadLength = 4
         then (Success, put_bytes (le32 (base_GetConfigurationVersion D d)) buffer)
         else if attributeId = ClusterRevision_Id I \<and> maxReadLength = 2
         then (Success, put_bytes (le16 ZCL_BRIDGED_DEVICE_BASIC_INFORMATION_CLUSTER_REVISION) buffer)
         else if attributeId = FeatureMap_Id I \<and> maxReadLength = 4
         then (Success, put_bytes (le32 ZCL_BRIDGED_DEVICE_BASIC_INFORMATION_FEATURE_MAP) buffer)
         else (Failure, buffer))"

definition HandleReadOnOffAttribute ::
    "('d, 'e) chip \<Rightarrow> 'd device_object \<Rightarrow> u32 \<Rightarrow> u8 list \<Rightarrow> u16 \<Rightarrow> im_status \<times> u8 list" where
  "HandleReadOnOffAttribute K dev attributeId buffer maxReadLength =
     (let I = ids K
      in if attributeId = OnOff_OnOff_Id I \<and> maxReadLength = 1
         then (Success, put_bytes [if base_IsOn (dev_api K) (dv_base dev) then 1 else 0] buffer)
         else if attributeId = ClusterRevision_Id I \<and> maxReadLength = 2
         then (Success, put_bytes (le16 ZCL_ON_OFF_CLUSTER_REVISION) buffer)
         else (Failure, buffer))"

definition HandleReadLevelControlAttribute ::
    "('d, 'e) chip \<Rightarrow> 'd device_object \<Rightarrow> u32 \<Rightarrow> u8 list \<Rightarrow> u16 \<Rightarrow> im_status \<times> u8 list" where
  "HandleReadLevelControlAttribute K dev attributeId buffer maxReadLength =
     (let I = ids K
      in if attributeId = CurrentLevel_Id I \<and> maxReadLength = 1
         then (Success, put_bytes [GetLevel dev] buffer)
         else if attributeId = MinLevel_Id I \<and> maxReadLength = 1
         then (Success, put_bytes [1] buffer)
         else if attributeId = MaxLevel_Id I \<and> maxReadLength = 1
         then (Success, put_bytes [254] buffer)
         else if attributeId = ClusterRevision_Id I \<and> maxReadLength = 2
         then (Success, put_bytes (le16 ZCL_LEVEL_CONTROL_CLUSTER_REVISION) buffer)
         else if attributeId = FeatureMap_Id I \<and> maxReadLength = 4
         then (Success, put_bytes (le32 ZCL_LEVEL_CONTROL_FEATURE_MAP) buffer)
         else (Failure, buffer))"

definition HandleReadTempMeasurementAttribute ::
    "('d, 'e) chip \<Rightarrow> 'd device_object \<Rightarrow> u32 \<Rightarrow> u8 list \<Rightarrow> u16 \<Rightarrow> im_status \<times> u8 list" where
  "HandleReadTempMeasurementAttribute K dev attributeId buffer maxReadLength =
     (let I = ids K; D = dev_api K; d = dv_base dev
      in if attributeId = MeasuredValue_Id I \<and> maxReadLength = 2
         then (Success, put_bytes (le16 (temp_GetMeasuredValue D d)) buffer)
         else if attributeId = MinMeasuredValue_Id I \<and> maxReadLength = 2
         then (Success, put_bytes (le16 (temp_mMin D d)) buffer)
         else if attributeId = MaxMeasuredValue_Id I \<and> maxReadLength = 2
         then (Success, put_bytes (le16 (temp_mMax D d)) buffer)
         else if attributeId = FeatureMap_Id I \<and> maxReadLength = 4
         then (Success, put_bytes (le32 ZCL_TEMPERATURE_SENSOR_FEATURE_MAP) buffer)
         else if attributeId = ClusterRevision_Id I \<and> maxReadLength = 2
         then (Success, put_bytes (le16 ZCL_TEMPERATURE_SENSOR_CLUSTER_REVISION) buffer)
         else (Failure, buffer))"

definition emberAfExternalAttributeReadCallback ::
    "('d, 'e) chip \<Rightarrow> u16 \<Rightarrow> u32 \<Rightarrow> u32 \<Rightarrow> u8 list \<Rightarrow> u16 \<Rightarrow> ('d, 'e) bridge \<Rightarrow>
     fault + im_status \<times> u8 list" where
  "emberAfExternalAttributeReadCallback K endpoint clusterId attributeId buffer maxReadLength b =
     (let I = ids K;
          endpointIndex = unat (emberAfGetDynamicIndexFromEndpoint (ember_api K) endpoint (ember b))
      in if endpointIndex < endpoint_slots
         then (case gDevices b ! endpointIndex of
             None \<Rightarrow> Inr (Failure, buffer)
           | Some p \<Rightarrow> (case heap b p of
               None \<Rightarrow> Inl DanglingPointer
             | Some dev \<Rightarrow>
                 if clusterId = BridgedDeviceBasicInformation_Id I
                 then Inr (HandleReadBridgedDeviceBasicAttribute K dev attributeId buffer maxReadLength)
                 else if clusterId = OnOff_Id I
                 then if is_on_off dev
                      then Inr (HandleReadOnOffAttribute K dev attributeId buffer maxReadLength)
                      else Inl BadDowncast
                 else if clusterId = LevelControl_Id I
                 then if is_dimmer dev
                      then Inr (HandleReadLevelControlAttribute K dev attributeId buffer maxReadLength)
                      else Inl BadDowncast
                 else if clusterId = TemperatureMeasurement_Id I
                 then if is_temp_sensor dev
                      then Inr (HandleReadTempMeasurementAttribute K dev attributeId buffer maxReadLength)
                      else Inl BadDowncast
                 else Inr (Failure, buffer)))
         else Inr (Failure, buffer))"

section \<open>Writes\<close>

text \<open>A device operation through the pointer \<open>p\<close>: the object is replaced, its work scheduled.\<close>

definition put_device ::
    "('d, 'e) chip \<Rightarrow> nat \<Rightarrow> 'd device_object \<times> work_item list \<Rightarrow> ('d, 'e) bridge \<Rightarrow> ('d, 'e) bridge" where
  "put_device K p r b = (case r of (dev, w) \<Rightarrow> schedule_all K w (b\<lparr>heap := (heap b)(p \<mapsto> dev)\<rparr>))"

definition update_light ::
    "nat \<Rightarrow> (bridged_light \<Rightarrow> bridged_light) \<Rightarrow> ('d, 'e) bridge \<Rightarrow> ('d, 'e) bridge" where
  "update_light p f b =
     b\<lparr>gBridgedWemoLights := update_first (\<lambda>entry. bl_device entry = p) f (gBridgedWemoLights b)\<rparr>"

definition start_thread :: "wemo_job \<Rightarrow> ('d, 'e) bridge \<Rightarrow> ('d, 'e) bridge" where
  "start_thread j b = b\<lparr>threads := threads b @ [j]\<rparr>"

definition HandleWriteOnOffAttribute ::
    "('d, 'e) chip \<Rightarrow> int \<Rightarrow> nat \<Rightarrow> 'd device_object \<Rightarrow> u32 \<Rightarrow> u8 list \<Rightarrow> ('d, 'e) bridge \<Rightarrow>
     im_status \<times> ('d, 'e) bridge" where
  "HandleWriteOnOffAttribute K now p dev attributeId buffer b =
     (if attributeId = OnOff_OnOff_Id (ids K) \<and> base_IsReachable (dev_api K) (dv_base dev)
      then let targetOn = (hd buffer \<noteq> 0);
               b = put_device K p (dev_SetOnOff K targetOn dev) b
           in (Success,
               case gWemoDeviceToUdn b p of
                 None \<Rightarrow> b
               | Some udn \<Rightarrow>
                   start_thread (JobOnOff udn targetOn)
                     (update_light p
                        (\<lambda>entry. entry\<lparr>commandedOnOff := (if targetOn then 1 else 0),
                                      commandedOnOffUntil := now + kCommandSettleWindow\<rparr>) b))
      else (Failure, b))"

text \<open>\<open>now\<close> is the clock at the entry of the handler, \<open>later\<close> when the window is set.\<close>

definition HandleWriteLevelControlAttribute ::
    "('d, 'e) chip \<Rightarrow> int \<Rightarrow> int \<Rightarrow> nat \<Rightarrow> 'd device_object \<Rightarrow> u32 \<Rightarrow> u8 list \<Rightarrow> ('d, 'e) bridge \<Rightarrow>
     im_status \<times> ('d, 'e) bridge" where
  "HandleWriteLevelControlAttribute K now later p dev attributeId buffer b =
     (if attributeId = CurrentLevel_Id (ids K) \<and> base_IsReachable (dev_api K) (dv_base dev)
      then let matterLevel = hd buffer;
               b = update_light p
                     (\<lambda>entry. if commandedOnOff entry \<ge> 0 \<and> now > commandedOnOffUntil entry
                              then entry\<lparr>commandedOnOff := - 1\<rparr> else entry) b;
               matched = find (\<lambda>entry. bl_device entry = p) (gBridgedWemoLights b)
           in if (case matched of
                    Some entry \<Rightarrow> commandedOnOff entry \<ge> 0 \<and> now \<le> commandedOnOffUntil entry
                  | None \<Rightarrow> False)
              then (Success, b)
              else if (case matched of
                    Some entry \<Rightarrow> commandedOnOff entry < 0 \<and> matterLevel \<le> 1
                  | None \<Rightarrow> False)
              then (Success, b)
              else let b = put_device K p (SetLevel K matterLevel dev) b;
                       wemoPercent = matter_to_wemo matterLevel
                   in (Success,
                       case gWemoDeviceToUdn b p of
                         None \<Rightarrow> b
                       | Some udn \<Rightarrow>
                           start_thread (JobLevel udn wemoPercent)
                             (update_light p
                                (\<lambda>entry. entry\<lparr>commandedLevel := uint matterLevel,
                                              commandedLevelUntil := later + kCommandSettleWindow\<rparr>) b))
      else (Failure, b))"

definition HandleWriteBridgedDeviceBasicAttribute ::
    "('d, 'e) chip \<Rightarrow> nat \<Rightarrow> 'd device_object \<Rightarrow> u32 \<Rightarrow> u8 list \<Rightarrow> ('d, 'e) bridge \<Rightarrow>
     im_status \<times> ('d, 'e) bridge" where
  "HandleWriteBridgedDeviceBasicAttribute K p dev attributeId buffer b =
     (if attributeId \<noteq> NodeLabel_Id (ids K) then (UnsupportedWrite, b)
      else let nameSpan = fromZclString (ember_api K) buffer
           in if length nameSpan > kNodeLabelSize then (ConstraintError, b)
              else let (dev, w) = dev_SetName K (cstr nameSpan) dev
                   in (Success, put_device K p
                         (dev, w @ HandleDeviceStatusChanged K dev (kChanged_Name (ids K))) b))"

text \<open>
  The write callback. Unlike the read callback it does not test the slot for null before it
  calls \<open>IsReachable\<close>.
\<close>

definition emberAfExternalAttributeWriteCallback ::
    "('d, 'e) chip \<Rightarrow> int \<Rightarrow> int \<Rightarrow> u16 \<Rightarrow> u32 \<Rightarrow> u32 \<Rightarrow> u8 list \<Rightarrow> ('d, 'e) bridge \<Rightarrow>
     fault + im_status \<times> ('d, 'e) bridge" where
  "emberAfExternalAttributeWriteCallback K now later endpoint clusterId attributeId buffer b =
     (let I = ids K;
          endpointIndex = unat (emberAfGetDynamicIndexFromEndpoint (ember_api K) endpoint (ember b))
      in if endpointIndex < endpoint_slots
         then (case gDevices b ! endpointIndex of
             None \<Rightarrow> Inl NullDeref
           | Some p \<Rightarrow> (case heap b p of
               None \<Rightarrow> Inl DanglingPointer
             | Some dev \<Rightarrow>
                 let reachable = base_IsReachable (dev_api K) (dv_base dev)
                 in if reachable \<and> clusterId = OnOff_Id I
                    then if is_on_off dev
                         then Inr (HandleWriteOnOffAttribute K now p dev attributeId buffer b)
                         else Inl BadDowncast
                    else if reachable \<and> clusterId = LevelControl_Id I
                    then if is_dimmer dev
                         then Inr (HandleWriteLevelControlAttribute K now later p dev attributeId buffer b)
                         else Inl BadDowncast
                    else if reachable \<and> clusterId = BridgedDeviceBasicInformation_Id I
                    then Inr (HandleWriteBridgedDeviceBasicAttribute K p dev attributeId buffer b)
                    else Inr (Failure, b)))
         else Inr (Failure, b))"

end
