(* ===== verification/Bridge_Invariant.thy ===== *)
theory Bridge_Invariant
  imports Attributes
begin

text \<open>
  The invariant of the running bridge: every published light is a live, wired device object
  in one slot of the endpoint table, known under its UDN, with settle values in range. The
  attribute handlers keep it, and on it they never fault.
\<close>

section \<open>Effects on the state\<close>

lemma ScheduleWork_frame:
  "gDevices (ScheduleWork K w b) = gDevices b" "heap (ScheduleWork K w b) = heap b"
  "gBridgedWemoLights (ScheduleWork K w b) = gBridgedWemoLights b"
  "gWemoDeviceToUdn (ScheduleWork K w b) = gWemoDeviceToUdn b"
  "next_object (ScheduleWork K w b) = next_object b" "ember (ScheduleWork K w b) = ember b"
  "threads (ScheduleWork K w b) = threads b"
  "gCurrentEndpointId (ScheduleWork K w b) = gCurrentEndpointId b"
  "gFirstDynamicEndpointId (ScheduleWork K w b) = gFirstDynamicEndpointId b"
  by (simp_all add: ScheduleWork_def)

lemma schedule_all_frame [simp]:
  "gDevices (schedule_all K ws b) = gDevices b" "heap (schedule_all K ws b) = heap b"
  "gBridgedWemoLights (schedule_all K ws b) = gBridgedWemoLights b"
  "gWemoDeviceToUdn (schedule_all K ws b) = gWemoDeviceToUdn b"
  "next_object (schedule_all K ws b) = next_object b" "ember (schedule_all K ws b) = ember b"
  "threads (schedule_all K ws b) = threads b"
  "gCurrentEndpointId (schedule_all K ws b) = gCurrentEndpointId b"
  "gFirstDynamicEndpointId (schedule_all K ws b) = gFirstDynamicEndpointId b"
  unfolding schedule_all_def
  by (induction ws arbitrary: b) (simp_all add: ScheduleWork_frame)

definition queue_open :: "('d, 'e) chip \<Rightarrow> bool" where
  "queue_open K \<longleftrightarrow> (\<forall>n. work_queue_accepts (ember_api K) n)"

lemma schedule_all_work: "queue_open K \<Longrightarrow> work (schedule_all K ws b) = work b @ ws"
  unfolding schedule_all_def
  by (induction ws arbitrary: b) (simp_all add: ScheduleWork_def queue_open_def)

text \<open>Whatever the queue accepts, work is only appended, and only from the list given.\<close>

lemma schedule_all_appends: "\<exists>vs. work (schedule_all K ws b) = work b @ vs \<and> set vs \<subseteq> set ws \<and>
    length vs \<le> length ws"
  unfolding schedule_all_def
proof (induction ws arbitrary: b)
  case (Cons w ws)
  obtain vs where vs: "work (fold (ScheduleWork K) ws (ScheduleWork K w b)) = work (ScheduleWork K w b) @ vs"
    "set vs \<subseteq> set ws" "length vs \<le> length ws"
    using Cons by blast
  show ?case
  proof (cases "work_queue_accepts (ember_api K) (length (work b))")
    case True
    then have "work (ScheduleWork K w b) = work b @ [w]" by (simp add: ScheduleWork_def)
    then show ?thesis using vs by (intro exI [of _ "w # vs"]) auto
  next
    case False
    then have "ScheduleWork K w b = b" by (simp add: ScheduleWork_def)
    then show ?thesis using vs by (intro exI [of _ vs]) auto
  qed
qed simp

lemma put_device_fields [simp]:
  "heap (put_device K p (d, w) b) = (heap b)(p \<mapsto> d)"
  "gDevices (put_device K p r b) = gDevices b"
  "gBridgedWemoLights (put_device K p r b) = gBridgedWemoLights b"
  "gWemoDeviceToUdn (put_device K p r b) = gWemoDeviceToUdn b"
  "next_object (put_device K p r b) = next_object b" "ember (put_device K p r b) = ember b"
  "threads (put_device K p r b) = threads b"
  "gCurrentEndpointId (put_device K p r b) = gCurrentEndpointId b"
  "gFirstDynamicEndpointId (put_device K p r b) = gFirstDynamicEndpointId b"
  by (simp_all add: put_device_def split: prod.splits)

lemma put_device_work: "queue_open K \<Longrightarrow> work (put_device K p (d, w) b) = work b @ w"
  by (simp add: put_device_def schedule_all_work)

lemma update_light_fields [simp]:
  "heap (update_light p f b) = heap b" "gDevices (update_light p f b) = gDevices b"
  "gWemoDeviceToUdn (update_light p f b) = gWemoDeviceToUdn b"
  "next_object (update_light p f b) = next_object b" "ember (update_light p f b) = ember b"
  "threads (update_light p f b) = threads b" "work (update_light p f b) = work b"
  "gCurrentEndpointId (update_light p f b) = gCurrentEndpointId b"
  "gFirstDynamicEndpointId (update_light p f b) = gFirstDynamicEndpointId b"
  "gBridgedWemoLights (update_light p f b) =
     update_first (\<lambda>entry. bl_device entry = p) f (gBridgedWemoLights b)"
  by (simp_all add: update_light_def)

lemma start_thread_fields [simp]:
  "heap (start_thread j b) = heap b" "gDevices (start_thread j b) = gDevices b"
  "gWemoDeviceToUdn (start_thread j b) = gWemoDeviceToUdn b"
  "next_object (start_thread j b) = next_object b" "ember (start_thread j b) = ember b"
  "threads (start_thread j b) = threads b @ [j]" "work (start_thread j b) = work b"
  "gCurrentEndpointId (start_thread j b) = gCurrentEndpointId b"
  "gFirstDynamicEndpointId (start_thread j b) = gFirstDynamicEndpointId b"
  "gBridgedWemoLights (start_thread j b) = gBridgedWemoLights b"
  by (simp_all add: start_thread_def)

section \<open>The invariant\<close>

definition light_ok :: "('d, 'e) bridge \<Rightarrow> bridged_light \<Rightarrow> bool" where
  "light_ok b e \<longleftrightarrow>
     (\<exists>d. heap b (bl_device e) = Some d \<and> wired d \<and> is_dimmer d = bl_is_dimmable e) \<and>
     gWemoDeviceToUdn b (bl_device e) = Some (bl_udn e) \<and>
     commandedOnOff e \<in> {- 1, 0, 1} \<and> - 1 \<le> commandedLevel e \<and> commandedLevel e \<le> 255"

definition published :: "('d, 'e) bridge \<Rightarrow> nat set" where
  "published b = {p. \<exists>i<16. gDevices b ! i = Some p}"

definition bridge_ok :: "('d, 'e) chip \<Rightarrow> 'e ember_view \<Rightarrow> ('d, 'e) bridge \<Rightarrow> bool" where
  "bridge_ok K V b \<longleftrightarrow> table_ok K V b \<and> (\<forall>e\<in>set (gBridgedWemoLights b). light_ok b e) \<and>
     distinct (map bl_device (gBridgedWemoLights b)) \<and>
     published b = bl_device ` set (gBridgedWemoLights b) \<and>
     dom (gWemoDeviceToUdn b) = bl_device ` set (gBridgedWemoLights b) \<and>
     (\<forall>p\<in>dom (heap b). p < next_object b)"

lemma bridge_okD:
  assumes "bridge_ok K V b"
  shows "table_ok K V b" "e \<in> set (gBridgedWemoLights b) \<Longrightarrow> light_ok b e"
    "distinct (map bl_device (gBridgedWemoLights b))"
    "published b = bl_device ` set (gBridgedWemoLights b)"
    "dom (gWemoDeviceToUdn b) = bl_device ` set (gBridgedWemoLights b)"
    "p \<in> dom (heap b) \<Longrightarrow> p < next_object b"
  using assms unfolding bridge_ok_def by blast+

text \<open>A device may change its base and its level, but not its class, callbacks or endpoint.\<close>

definition same_wiring :: "('d, 'e) chip \<Rightarrow> 'd device_object \<Rightarrow> 'd device_object \<Rightarrow> bool" where
  "same_wiring K d d' \<longleftrightarrow> dv_class d' = dv_class d \<and> dv_on_off_cb d' = dv_on_off_cb d \<and>
     mChanged_CB d' = mChanged_CB d \<and> view_endpoint (dview K d') = view_endpoint (dview K d)"

lemma same_wiring_simps:
  "same_wiring K d d"
  "same_wiring K a b \<Longrightarrow> same_wiring K b c \<Longrightarrow> same_wiring K a c"
  "same_shell d d' \<Longrightarrow> view_endpoint (dview K d') = view_endpoint (dview K d) \<Longrightarrow> same_wiring K d d'"
  "same_wiring K d (d\<lparr>mLevel := l\<rparr>)"
  by (simp_all add: same_wiring_def same_shell_def dview_def)

lemma same_wiring_kind:
  "same_wiring K d d' \<Longrightarrow> wired d' = wired d \<and> is_dimmer d' = is_dimmer d \<and> is_on_off d' = is_on_off d \<and>
     type_of_light d' = type_of_light d"
  by (simp add: same_wiring_def wired_def is_dimmer_def is_on_off_def type_of_light_def)

lemma wired_is_on_off: "wired d \<Longrightarrow> is_on_off d"
  by (auto simp: wired_def is_on_off_def)

lemma table_ok_cong:
  assumes "table_ok K V b" and "gDevices b' = gDevices b" "heap b' = heap b" "ember b' = ember b"
    "gCurrentEndpointId b' = gCurrentEndpointId b" "gFirstDynamicEndpointId b' = gFirstDynamicEndpointId b"
  shows "table_ok K V b'"
  using assms(1) unfolding table_ok_def slot_ok_def assms(2-6) .

lemma table_ok_put:
  assumes ok: "table_ok K V b" and h: "heap b p = Some d"
    and s: "is_on_off d' = is_on_off d" "type_of_light d' = type_of_light d"
      "view_endpoint (dview K d') = view_endpoint (dview K d)"
    and b': "heap b' = (heap b)(p \<mapsto> d')" "gDevices b' = gDevices b" "V (ember b') = V (ember b)"
      "gCurrentEndpointId b' = gCurrentEndpointId b" "gFirstDynamicEndpointId b' = gFirstDynamicEndpointId b"
  shows "table_ok K V b'"
proof -
  note D = table_okD [OF ok]
  have "slot_ok K V b' i" if "i < 16" for i
  proof (cases "gDevices b ! i = Some p")
    case True
    then show ?thesis using D(4) [OF that] h s b' by (auto simp: slot_ok_def)
  next
    case False
    show ?thesis by (rule slot_ok_other [OF D(4) [OF that]]) (use False b' in auto)
  qed
  then show ?thesis
    unfolding table_ok_def b' using D(1-3,5,6) by blast
qed

lemma table_ok_elsewhere:
  assumes ok: "table_ok K V b"
    and b': "\<And>r. r \<in> published b \<Longrightarrow> heap b' r = heap b r" "gDevices b' = gDevices b" "V (ember b') = V (ember b)"
      "gCurrentEndpointId b' = gCurrentEndpointId b" "gFirstDynamicEndpointId b' = gFirstDynamicEndpointId b"
  shows "table_ok K V b'"
proof -
  note D = table_okD [OF ok]
  have "slot_ok K V b' i" if "i < 16" for i
    by (rule slot_ok_other [OF D(4) [OF that]]) (use that b' in \<open>auto simp: published_def\<close>)
  then show ?thesis
    unfolding table_ok_def b'(2-5) using D(1-3,5,6) by blast
qed

lemma bridge_ok_put:
  assumes ok: "bridge_ok K V b" and h: "heap b p = Some d" and s: "same_wiring K d d'"
  shows "bridge_ok K V (put_device K p (d', w) b)"
proof -
  note D = bridge_okD [OF ok]
  let ?b = "put_device K p (d', w) b"
  have t: "table_ok K V ?b" by (rule table_ok_put [OF D(1) h])
    (use s same_wiring_kind [OF s] in \<open>simp_all add: same_wiring_def\<close>)
  have l: "light_ok ?b e" if "e \<in> set (gBridgedWemoLights b)" for e
    using D(2) [OF that] h same_wiring_kind [OF s] by (auto simp: light_ok_def)
  have "p < next_object b" using D(6) h by blast
  then show ?thesis
    unfolding bridge_ok_def using t l D(3-6) by (auto simp: published_def)
qed

lemma update_first_device:
  "(\<And>e. bl_device (f e) = bl_device e) \<Longrightarrow> map bl_device (update_first P f xs) = map bl_device xs"
  by (simp add: map_update_first)

lemma bridge_ok_update_first:
  assumes ok: "bridge_ok K V b"
    and f: "\<And>e. bl_device (f e) = bl_device e" "\<And>e. bl_udn (f e) = bl_udn e"
      "\<And>e. bl_is_dimmable (f e) = bl_is_dimmable e"
      "\<And>e. commandedOnOff e \<in> {- 1, 0, 1} \<Longrightarrow> commandedOnOff (f e) \<in> {- 1, 0, 1}"
      "\<And>e. - 1 \<le> commandedLevel e \<Longrightarrow> commandedLevel e \<le> 255 \<Longrightarrow>
        - 1 \<le> commandedLevel (f e) \<and> commandedLevel (f e) \<le> 255"
    and b': "b' = b\<lparr>gBridgedWemoLights := update_first P f (gBridgedWemoLights b)\<rparr>"
  shows "bridge_ok K V b'"
proof -
  note D = bridge_okD [OF ok]
  have m: "map bl_device (gBridgedWemoLights b') = map bl_device (gBridgedWemoLights b)"
    by (simp add: b' update_first_device f(1))
  then have s: "bl_device ` set (gBridgedWemoLights b') = bl_device ` set (gBridgedWemoLights b)"
    by (metis list.set_map)
  have t: "table_ok K V b'" by (rule table_ok_cong [OF D(1)]) (simp_all add: b')
  have l: "light_ok b' e" if "e \<in> set (gBridgedWemoLights b')" for e
  proof (rule update_first_all [where Q = "light_ok b'"])
    show "e \<in> set (update_first P f (gBridgedWemoLights b))" using that by (simp add: b')
    show "light_ok b' x" if "x \<in> set (gBridgedWemoLights b)" for x
      using D(2) [OF that] by (simp add: light_ok_def b')
    show "light_ok b' (f x)" if "light_ok b' x" for x
      using that f(4) [of x] f(5) [of x] by (simp add: light_ok_def f(1-3))
  qed
  show ?thesis
    unfolding bridge_ok_def using t l D(3-6) m s by (simp add: published_def b')
qed

lemma bridge_ok_update_light:
  assumes ok: "bridge_ok K V b"
    and f: "\<And>e. bl_device (f e) = bl_device e" "\<And>e. bl_udn (f e) = bl_udn e"
      "\<And>e. bl_is_dimmable (f e) = bl_is_dimmable e"
      "\<And>e. commandedOnOff e \<in> {- 1, 0, 1} \<Longrightarrow> commandedOnOff (f e) \<in> {- 1, 0, 1}"
      "\<And>e. - 1 \<le> commandedLevel e \<Longrightarrow> commandedLevel e \<le> 255 \<Longrightarrow>
        - 1 \<le> commandedLevel (f e) \<and> commandedLevel (f e) \<le> 255"
  shows "bridge_ok K V (update_light p f b)"
  by (rule bridge_ok_update_first [OF ok f]) (simp_all add: update_light_def)

lemma bridge_ok_start_thread: "bridge_ok K V b \<Longrightarrow> bridge_ok K V (start_thread j b)"
  using table_ok_cong [of K V b "start_thread j b"]
  by (simp add: bridge_ok_def light_ok_def published_def)

section \<open>Access to a published light\<close>

lemma find_device:
  assumes "distinct (map bl_device es)" and "e \<in> set es"
  shows "find (\<lambda>x. bl_device x = bl_device e) es = Some e"
  using assms by (induction es) (auto simp: image_iff)

lemma published_light:
  assumes ed: "ember_documented (ember_api K) V" and ok: "bridge_ok K V b"
    and e: "e \<in> set (gBridgedWemoLights b)" and h: "heap b (bl_device e) = Some d"
  obtains i where "i < endpoint_slots" "gDevices b ! i = Some (bl_device e)"
    "unat (emberAfGetDynamicIndexFromEndpoint (ember_api K) (view_endpoint (dview K d)) (ember b)) = i"
    "wired d" "is_on_off d" "is_dimmer d = bl_is_dimmable e"
    "gWemoDeviceToUdn b (bl_device e) = Some (bl_udn e)"
    "find (\<lambda>x. bl_device x = bl_device e) (gBridgedWemoLights b) = Some e"
proof -
  note D = bridge_okD [OF ok]
  have "bl_device e \<in> published b" using D(4) e by blast
  then obtain i where i: "i < 16" "gDevices b ! i = Some (bl_device e)" by (auto simp: published_def)
  obtain d' where "heap b (bl_device e) = Some d'"
    "unat (emberAfGetDynamicIndexFromEndpoint (ember_api K) (view_endpoint (dview K d')) (ember b)) = i"
    by (rule published_index [OF ed D(1) i])
  then have ix: "unat (emberAfGetDynamicIndexFromEndpoint (ember_api K) (view_endpoint (dview K d)) (ember b)) = i"
    using h by simp
  have "i < endpoint_slots"
    using i(1) by (simp add: endpoint_slots_def CHIP_DEVICE_CONFIG_DYNAMIC_ENDPOINT_COUNT_def)
  moreover have l: "wired d" "is_dimmer d = bl_is_dimmable e"
    "gWemoDeviceToUdn b (bl_device e) = Some (bl_udn e)"
    using D(2) [OF e] h by (simp_all add: light_ok_def)
  ultimately show ?thesis
    using that [of i] i(2) ix wired_is_on_off [OF l(1)] find_device [OF D(3) e] by blast
qed

lemma ids_clusters:
  assumes "ids_documented I"
  shows "OnOff_Id I \<noteq> LevelControl_Id I" "LevelControl_Id I \<noteq> OnOff_Id I"
    "BridgedDeviceBasicInformation_Id I \<noteq> OnOff_Id I" "BridgedDeviceBasicInformation_Id I \<noteq> LevelControl_Id I"
    "OnOff_Id I \<noteq> BridgedDeviceBasicInformation_Id I" "LevelControl_Id I \<noteq> BridgedDeviceBasicInformation_Id I"
    "TemperatureMeasurement_Id I \<noteq> OnOff_Id I" "TemperatureMeasurement_Id I \<noteq> LevelControl_Id I"
    "TemperatureMeasurement_Id I \<noteq> BridgedDeviceBasicInformation_Id I"
    "Descriptor_Id I \<noteq> OnOff_Id I" "Descriptor_Id I \<noteq> LevelControl_Id I"
    "Descriptor_Id I \<noteq> BridgedDeviceBasicInformation_Id I"
    "Descriptor_Id I \<noteq> TemperatureMeasurement_Id I"
  using assms unfolding ids_documented_def by auto

text \<open>The callbacks at the endpoint of a published light are its handlers.\<close>

lemma read_callback_light:
  assumes "ids_documented (ids K)" and ed: "ember_documented (ember_api K) V" and ok: "bridge_ok K V b"
    and e: "e \<in> set (gBridgedWemoLights b)" and h: "heap b (bl_device e) = Some d"
  shows "emberAfExternalAttributeReadCallback K (view_endpoint (dview K d))
      (BridgedDeviceBasicInformation_Id (ids K)) a buf n b =
      Inr (HandleReadBridgedDeviceBasicAttribute K d a buf n)"
    "emberAfExternalAttributeReadCallback K (view_endpoint (dview K d)) (OnOff_Id (ids K)) a buf n b =
      Inr (HandleReadOnOffAttribute K d a buf n)"
    "bl_is_dimmable e \<Longrightarrow>
     emberAfExternalAttributeReadCallback K (view_endpoint (dview K d)) (LevelControl_Id (ids K)) a buf n b =
      Inr (HandleReadLevelControlAttribute K d a buf n)"
proof -
  note c = ids_clusters [OF assms(1)]
  obtain i where i: "i < endpoint_slots" "gDevices b ! i = Some (bl_device e)"
    "unat (emberAfGetDynamicIndexFromEndpoint (ember_api K) (view_endpoint (dview K d)) (ember b)) = i"
    "is_on_off d" "is_dimmer d = bl_is_dimmable e"
    by (rule published_light [OF ed ok e h])
  show "emberAfExternalAttributeReadCallback K (view_endpoint (dview K d))
      (BridgedDeviceBasicInformation_Id (ids K)) a buf n b =
      Inr (HandleReadBridgedDeviceBasicAttribute K d a buf n)"
    "emberAfExternalAttributeReadCallback K (view_endpoint (dview K d)) (OnOff_Id (ids K)) a buf n b =
      Inr (HandleReadOnOffAttribute K d a buf n)"
    "bl_is_dimmable e \<Longrightarrow>
     emberAfExternalAttributeReadCallback K (view_endpoint (dview K d)) (LevelControl_Id (ids K)) a buf n b =
      Inr (HandleReadLevelControlAttribute K d a buf n)"
    by (simp_all add: emberAfExternalAttributeReadCallback_def Let_def i h c)
qed

lemma write_callback_light:
  assumes "ids_documented (ids K)" and ed: "ember_documented (ember_api K) V" and ok: "bridge_ok K V b"
    and e: "e \<in> set (gBridgedWemoLights b)" and h: "heap b (bl_device e) = Some d"
  shows "view_reachable (dview K d) \<Longrightarrow>
     emberAfExternalAttributeWriteCallback K now later (view_endpoint (dview K d)) (OnOff_Id (ids K)) a buf b =
      Inr (HandleWriteOnOffAttribute K now (bl_device e) d a buf b)"
    "view_reachable (dview K d) \<Longrightarrow> bl_is_dimmable e \<Longrightarrow>
     emberAfExternalAttributeWriteCallback K now later (view_endpoint (dview K d)) (LevelControl_Id (ids K)) a buf b =
      Inr (HandleWriteLevelControlAttribute K now later (bl_device e) d a buf b)"
    "view_reachable (dview K d) \<Longrightarrow>
     emberAfExternalAttributeWriteCallback K now later (view_endpoint (dview K d))
       (BridgedDeviceBasicInformation_Id (ids K)) a buf b =
      Inr (HandleWriteBridgedDeviceBasicAttribute K (bl_device e) d a buf b)"
    "\<not> view_reachable (dview K d) \<Longrightarrow>
     emberAfExternalAttributeWriteCallback K now later (view_endpoint (dview K d)) c a buf b = Inr (Failure, b)"
proof -
  note c = ids_clusters [OF assms(1)]
  obtain i where i: "i < endpoint_slots" "gDevices b ! i = Some (bl_device e)"
    "unat (emberAfGetDynamicIndexFromEndpoint (ember_api K) (view_endpoint (dview K d)) (ember b)) = i"
    "is_on_off d" "is_dimmer d = bl_is_dimmable e"
    by (rule published_light [OF ed ok e h])
  have r: "base_IsReachable (dev_api K) (dv_base d) = view_reachable (dview K d)"
    by (simp add: dview_def look_simps)
  show "view_reachable (dview K d) \<Longrightarrow>
     emberAfExternalAttributeWriteCallback K now later (view_endpoint (dview K d)) (OnOff_Id (ids K)) a buf b =
      Inr (HandleWriteOnOffAttribute K now (bl_device e) d a buf b)"
    "view_reachable (dview K d) \<Longrightarrow> bl_is_dimmable e \<Longrightarrow>
     emberAfExternalAttributeWriteCallback K now later (view_endpoint (dview K d)) (LevelControl_Id (ids K)) a buf b =
      Inr (HandleWriteLevelControlAttribute K now later (bl_device e) d a buf b)"
    "view_reachable (dview K d) \<Longrightarrow>
     emberAfExternalAttributeWriteCallback K now later (view_endpoint (dview K d))
       (BridgedDeviceBasicInformation_Id (ids K)) a buf b =
      Inr (HandleWriteBridgedDeviceBasicAttribute K (bl_device e) d a buf b)"
    "\<not> view_reachable (dview K d) \<Longrightarrow>
     emberAfExternalAttributeWriteCallback K now later (view_endpoint (dview K d)) c a buf b = Inr (Failure, b)"
    by (simp_all add: emberAfExternalAttributeWriteCallback_def Let_def i h c r)
qed

section \<open>The handlers on a published light\<close>

definition on_off_window :: "bool \<Rightarrow> int \<Rightarrow> bridged_light \<Rightarrow> bridged_light" where
  "on_off_window on now e =
     e\<lparr>commandedOnOff := (if on then 1 else 0), commandedOnOffUntil := now + kCommandSettleWindow\<rparr>"

definition level_window :: "u8 \<Rightarrow> int \<Rightarrow> bridged_light \<Rightarrow> bridged_light" where
  "level_window l now e =
     e\<lparr>commandedLevel := uint l, commandedLevelUntil := now + kCommandSettleWindow\<rparr>"

definition clear_expired :: "int \<Rightarrow> bridged_light \<Rightarrow> bridged_light" where
  "clear_expired now e =
     (if commandedOnOff e \<ge> 0 \<and> now > commandedOnOffUntil e then e\<lparr>commandedOnOff := - 1\<rparr> else e)"

text \<open>A command of the user to the light has not settled yet.\<close>

definition settling :: "int \<Rightarrow> bridged_light \<Rightarrow> bool" where
  "settling now e \<longleftrightarrow> commandedOnOff e \<ge> 0 \<and> now \<le> commandedOnOffUntil e"

lemma window_ok:
  assumes "bridge_ok K V b"
  shows "bridge_ok K V (update_light p (on_off_window on t) b)"
    "bridge_ok K V (update_light p (level_window l t) b)"
    "bridge_ok K V (update_light p (clear_expired t) b)"
proof -
  have "- 1 \<le> uint l" by (rule order_trans [of _ 0]) simp_all
  moreover have "uint l \<le> 255" using uint_u8_bounds [of l] by simp
  ultimately show "bridge_ok K V (update_light p (level_window l t) b)"
    by (intro bridge_ok_update_light [OF assms]) (simp_all add: level_window_def)
  show "bridge_ok K V (update_light p (on_off_window on t) b)"
    by (rule bridge_ok_update_light [OF assms]) (simp_all add: on_off_window_def)
  show "bridge_ok K V (update_light p (clear_expired t) b)"
    by (rule bridge_ok_update_light [OF assms]) (simp_all add: clear_expired_def)
qed

lemma write_on_off:
  assumes "ids_documented (ids K)" and dd: "device_documented (ids K) (dev_api K)"
    and ok: "bridge_ok K V b" and e: "e \<in> set (gBridgedWemoLights b)"
    and h: "heap b (bl_device e) = Some d" and r: "view_reachable (dview K d)"
    and run: "dev_SetOnOff K (x \<noteq> 0) d = (d', w)"
  shows "HandleWriteOnOffAttribute K now (bl_device e) d (OnOff_OnOff_Id (ids K)) (x # rest) b =
      (Success, start_thread (JobOnOff (bl_udn e) (x \<noteq> 0))
        (update_light (bl_device e) (on_off_window (x \<noteq> 0) now) (put_device K (bl_device e) (d', w) b)))"
proof -
  have "gWemoDeviceToUdn b (bl_device e) = Some (bl_udn e)"
    using bridge_okD(2) [OF ok e] by (simp add: light_ok_def)
  moreover have "base_IsReachable (dev_api K) (dv_base d)" using r by (simp add: dview_def look_simps)
  ultimately show ?thesis
    using run by (simp add: HandleWriteOnOffAttribute_def Let_def on_off_window_def [abs_def])
qed

lemma write_level:
  assumes ok: "bridge_ok K V b" and e: "e \<in> set (gBridgedWemoLights b)"
    and h: "heap b (bl_device e) = Some d" and r: "view_reachable (dview K d)"
    and run: "SetLevel K l d = (d', w)"
  shows "HandleWriteLevelControlAttribute K now later (bl_device e) d (CurrentLevel_Id (ids K)) (l # rest) b =
      (Success,
       let b1 = update_light (bl_device e) (clear_expired now) b
       in if settling now e \<or> l \<le> 1 then b1
          else start_thread (JobLevel (bl_udn e) (matter_to_wemo l))
            (update_light (bl_device e) (level_window l later) (put_device K (bl_device e) (d', w) b1)))"
proof -
  note D = bridge_okD [OF ok]
  have u: "gWemoDeviceToUdn b (bl_device e) = Some (bl_udn e)"
    using D(2) [OF e] by (simp add: light_ok_def)
  have re: "base_IsReachable (dev_api K) (dv_base d)" using r by (simp add: dview_def look_simps)
  have ce: "(\<lambda>entry. if commandedOnOff entry \<ge> 0 \<and> now > commandedOnOffUntil entry
      then entry\<lparr>commandedOnOff := - 1\<rparr> else entry) = clear_expired now"
    by (simp add: clear_expired_def fun_eq_iff)
  have f: "find (\<lambda>x. bl_device x = bl_device e)
      (update_first (\<lambda>x. bl_device x = bl_device e) (clear_expired now) (gBridgedWemoLights b)) =
      Some (clear_expired now e)"
    by (subst find_update_first) (simp_all add: clear_expired_def find_device [OF D(3) e])
  have s: "(commandedOnOff (clear_expired now e) \<ge> 0 \<and> now \<le> commandedOnOffUntil (clear_expired now e)) =
      settling now e"
    "\<not> settling now e \<Longrightarrow> commandedOnOff (clear_expired now e) < 0"
    by (auto simp: settling_def clear_expired_def)
  have lw: "(\<lambda>entry. entry\<lparr>commandedLevel := uint l, commandedLevelUntil := later + kCommandSettleWindow\<rparr>) =
      level_window l later"
    by (simp add: level_window_def fun_eq_iff)
  show ?thesis
    using run u re s(2) unfolding HandleWriteLevelControlAttribute_def ce
    by (simp add: Let_def f s(1) lw)
qed

end
