(* ===== verification/Control.thy ===== *)
theory Control
  imports Bridge_Invariant
begin

text \<open>
  Properties of the attribute callbacks on a running bridge: what a controller reads, what
  its writes do to the device, the settle windows and the engine commands, and that neither
  callback can fault.
\<close>

section \<open>A concrete bridge\<close>

text \<open>One reachable dimmer, off at level 127, published in the first slot as endpoint 3.\<close>

definition lamp_device :: "mem_dev device_object" where
  "lamp_device =
     \<lparr>dv_class = CDeviceDimmable,
      dv_base = \<lparr>md_reachable = True, md_on = False, md_name = ''Lamp'', md_unique = ''unique'',
        md_config = 1, md_endpoint = 3, md_location = ''WeMo'', md_zone = '''', md_measured = 0\<rparr>,
      dv_on_off_cb = Some CbForwardToDimmable, mLevel = 127, mChanged_CB = Some CbDimmableStatusChanged\<rparr>"

definition lamp_light :: bridged_light where
  "lamp_light = \<lparr>bl_wemo_id = 7, bl_udn = ''uuid:lamp'', bl_is_dimmable = True, bl_device = 0,
     commandedOnOff = - 1, commandedLevel = - 1, commandedOnOffUntil = 0, commandedLevelUntil = 0\<rparr>"

definition lamp_bridge :: "(mem_dev, mem_slots) bridge" where
  "lamp_bridge =
     \<lparr>gCurrentEndpointId = 3, gFirstDynamicEndpointId = 3, gDevices = Some 0 # replicate 16 None,
      gBridgedWemoLights = [lamp_light], gWemoDeviceToUdn = [0 \<mapsto> ''uuid:lamp''],
      heap = [0 \<mapsto> lamp_device], next_object = 1,
      ember = Some (3, bridgedDimmableLightEndpoint) # replicate 15 None, work = [], threads = []\<rparr>"

lemma lamp_view:
  "dview mem_chip lamp_device = \<lparr>view_reachable = True, view_on = False, view_name = ''Lamp'',
     view_unique_id = ''unique'', view_config_version = 1, view_endpoint = 3\<rparr>"
  by (simp add: dview_def look_def mem_chip_def mem_device_api_def lamp_device_def)

lemma lamp_facts:
  "heap lamp_bridge 0 = Some lamp_device" "gBridgedWemoLights lamp_bridge = [lamp_light]"
  "bl_device lamp_light = 0" "bl_is_dimmable lamp_light" "bl_udn lamp_light = ''uuid:lamp''"
  "threads lamp_bridge = []" "work lamp_bridge = []"
  "bl_wemo_id lamp_light = 7" "mLevel lamp_device = 127" "commandedOnOff lamp_light = - 1"
  "commandedLevel lamp_light = - 1"
  "lamp_light \<in> set (gBridgedWemoLights lamp_bridge)" "heap lamp_bridge (bl_device lamp_light) = Some lamp_device"
  by (simp_all add: lamp_bridge_def lamp_light_def lamp_device_def)

lemma lamp_slot: "mem_slot (ember lamp_bridge) i =
    (if i = 0 then Some (3, bridgedDimmableLightEndpoint) else None)"
  by (auto simp: mem_slot_def lamp_bridge_def nth_Cons split: nat.splits)

lemma lamp_bridge_ok: "bridge_ok mem_chip mem_slot lamp_bridge"
proof -
  have d: "wired lamp_device" "is_dimmer lamp_device" "is_on_off lamp_device"
    by (simp_all add: wired_def is_dimmer_def is_on_off_def lamp_device_def)
  have g: "gDevices lamp_bridge ! i = (if i = 0 then Some 0 else None)" if "i < 16" for i
    using that by (auto simp: lamp_bridge_def nth_Cons split: nat.splits)
  have "slot_ok mem_chip mem_slot lamp_bridge i" if "i < 16" for i
    using g [OF that] d
    by (auto simp: slot_ok_def lamp_slot lamp_facts lamp_view type_of_light_def)
  then have "table_ok mem_chip mem_slot lamp_bridge"
    unfolding table_ok_def using g by (auto simp: lamp_slot split: if_splits) (simp_all add: lamp_bridge_def)
  moreover have "published lamp_bridge = {0}"
    using g by (auto simp: published_def split: if_splits intro!: exI [of _ 0])
  moreover have "light_ok lamp_bridge lamp_light"
    using d lamp_facts by (simp add: light_ok_def) (simp add: lamp_bridge_def)
  ultimately show ?thesis
    unfolding bridge_ok_def lamp_facts by (simp add: lamp_facts) (simp add: lamp_bridge_def)
qed

lemma mem_queue_open: "queue_open mem_chip"
  by (simp add: queue_open_def mem_chip_def mem_ember_api_def)

section \<open>Slots and lights\<close>

lemma light_of_slot:
  assumes sd: "set_endpoint_documented (ember_api K) V" and ok: "bridge_ok K V b"
    and s: "V (ember b) i = Some (ep, t)"
  obtains e d where "e \<in> set (gBridgedWemoLights b)" "heap b (bl_device e) = Some d"
    "view_endpoint (dview K d) = ep" "type_of_light d = t" "i < endpoint_slots"
    "gDevices b ! i = Some (bl_device e)"
proof -
  note D = bridge_okD [OF ok]
  have i: "i < 16"
    using sd s unfolding set_endpoint_documented_def CHIP_DEVICE_CONFIG_DYNAMIC_ENDPOINT_COUNT_def
    by (metis not_le option.distinct(1))
  obtain p where p: "gDevices b ! i = Some p"
    using table_okD(4) [OF D(1) i] s by (auto simp: slot_ok_def split: option.splits)
  then obtain d where d: "heap b p = Some d" "V (ember b) i = Some (view_endpoint (dview K d), type_of_light d)"
    using table_okD(4) [OF D(1) i] by (auto simp: slot_ok_def)
  have "p \<in> published b" using p i by (auto simp: published_def)
  then obtain e where "e \<in> set (gBridgedWemoLights b)" "bl_device e = p" using D(4) by auto
  then show ?thesis
    using that d s p i by (simp add: endpoint_slots_def CHIP_DEVICE_CONFIG_DYNAMIC_ENDPOINT_COUNT_def)
qed

lemma unpublished_index:
  assumes "ember_documented (ember_api K) V" and "\<not> in_use V (ember b) endpoint"
  shows "\<not> unat (emberAfGetDynamicIndexFromEndpoint (ember_api K) endpoint (ember b)) < endpoint_slots"
  using ember_laws(5) [OF assms] by (simp add: endpoint_slots_def CHIP_DEVICE_CONFIG_DYNAMIC_ENDPOINT_COUNT_def)

section \<open>The handlers keep the invariant\<close>

lemma on_off_keeps:
  assumes "ids_documented (ids K)" and dd: "device_documented (ids K) (dev_api K)"
    and ok: "bridge_ok K V b" and h: "heap b p = Some d"
  shows "bridge_ok K V (snd (HandleWriteOnOffAttribute K now p d a buf b))"
proof -
  obtain t where t: "(hd buf \<noteq> 0) = t" by blast
  obtain d' w where r: "dev_SetOnOff K t d = (d', w)" by (rule prod.exhaust)
  have "same_wiring K d d'"
    using dev_SetOnOff_law [OF assms(1) dd r] by (intro same_wiring_simps(3)) simp_all
  from bridge_ok_put [OF ok h this, of w] have b1: "bridge_ok K V (put_device K p (d', w) b)" .
  have f: "(\<lambda>entry. entry\<lparr>commandedOnOff := (if t then 1 else 0),
      commandedOnOffUntil := now + kCommandSettleWindow\<rparr>) = on_off_window t now"
    by (simp add: on_off_window_def fun_eq_iff)
  show ?thesis
    using b1 ok bridge_ok_start_thread [OF window_ok(1) [OF b1, of p t now]]
    unfolding HandleWriteOnOffAttribute_def Let_def t r f by (simp split: option.splits)
qed

lemma level_keeps:
  assumes "ids_documented (ids K)" and ok: "bridge_ok K V b" and e: "e \<in> set (gBridgedWemoLights b)"
    and h: "heap b (bl_device e) = Some d"
  shows "bridge_ok K V (snd (HandleWriteLevelControlAttribute K now later (bl_device e) d a buf b))"
proof (cases "a = CurrentLevel_Id (ids K) \<and> view_reachable (dview K d)")
  case False
  then show ?thesis
    using ok by (auto simp: HandleWriteLevelControlAttribute_def dview_def look_simps)
next
  case True
  let ?l = "hd buf"
  obtain d' w where r: "SetLevel K ?l d = (d', w)" by (rule prod.exhaust)
  have d': "d' = d\<lparr>mLevel := ?l\<rparr>" using SetLevel_law [OF assms(1) r] by blast
  let ?b1 = "update_light (bl_device e) (clear_expired now) b"
  have b1: "bridge_ok K V ?b1" by (rule window_ok(3) [OF ok])
  have "bridge_ok K V (put_device K (bl_device e) (d', w) ?b1)"
    by (rule bridge_ok_put [OF b1]) (use h d' same_wiring_simps(4) in auto)
  note bridge_ok_start_thread [OF window_ok(2) [OF this]]
  moreover have "HandleWriteLevelControlAttribute K now later (bl_device e) d a buf b =
      HandleWriteLevelControlAttribute K now later (bl_device e) d (CurrentLevel_Id (ids K)) (?l # []) b"
    using True by (simp add: HandleWriteLevelControlAttribute_def)
  ultimately show ?thesis
    using b1 write_level [OF ok e h _ r] True by (simp add: Let_def)
qed

lemma basic_keeps:
  assumes "ids_documented (ids K)" and dd: "device_documented (ids K) (dev_api K)"
    and ok: "bridge_ok K V b" and h: "heap b p = Some d"
  shows "bridge_ok K V (snd (HandleWriteBridgedDeviceBasicAttribute K p d a buf b))"
proof -
  obtain d' w where r: "dev_SetName K (cstr (fromZclString (ember_api K) buf)) d = (d', w)"
    by (rule prod.exhaust)
  have "same_wiring K d d'"
    using dev_SetName_law [OF assms(1) dd r] by (intro same_wiring_simps(3)) simp_all
  from bridge_ok_put [OF ok h this] ok show ?thesis
    by (simp add: HandleWriteBridgedDeviceBasicAttribute_def Let_def r)
qed

section \<open>Properties\<close>

lemma chip_parts:
  assumes "chip_documented K V"
  shows "ids_documented (ids K)" "device_documented (ids K) (dev_api K)"
    "ember_documented (ember_api K) V" "set_endpoint_documented (ember_api K) V"
    "zcl_documented (ember_api K)"
  using assms unfolding chip_documented_def ember_documented_def by blast+

lemma pair_ok: "bridge_ok K V (snd r) \<Longrightarrow> \<exists>st b'. r = (st, b') \<and> bridge_ok K V b'"
  by (cases r) simp

lemma served_cluster:
  "c \<in> set (endpoint_clusters I t) \<Longrightarrow>
   c = OnOff_Id I \<or> c = Descriptor_Id I \<or> c = BridgedDeviceBasicInformation_Id I \<or>
   c = LevelControl_Id I \<and> t = bridgedDimmableLightEndpoint"
  by (cases t) (auto simp: endpoint_clusters_def bridgedLightClusters_def bridgedDimmableLightClusters_def)

lemma descriptor_reads:
  assumes "ids_documented (ids K)" and "gDevices b ! i = Some p" and "heap b p = Some d"
    and "unat (emberAfGetDynamicIndexFromEndpoint (ember_api K) ep (ember b)) = i"
  shows "emberAfExternalAttributeReadCallback K ep (Descriptor_Id (ids K)) a buf n b = Inr (Failure, buf)"
    "i < endpoint_slots \<Longrightarrow>
     emberAfExternalAttributeWriteCallback K now later ep (Descriptor_Id (ids K)) a buf b = Inr (Failure, b)"
  using assms ids_clusters [OF assms(1)]
  by (simp_all add: emberAfExternalAttributeReadCallback_def emberAfExternalAttributeWriteCallback_def Let_def)

lemma callbacks_served:
  assumes "chip_documented K V" and ok: "bridge_ok K V b"
    and "\<forall>i t. V (ember b) i = Some (endpoint, t) \<longrightarrow> cluster \<in> set (endpoint_clusters (ids K) t)"
  shows "(\<exists>r. emberAfExternalAttributeReadCallback K endpoint cluster a buf n b = Inr r) \<and>
    (\<exists>st b'. emberAfExternalAttributeWriteCallback K now later endpoint cluster a buf b = Inr (st, b') \<and>
       bridge_ok K V b')"
proof (cases "in_use V (ember b) endpoint")
  case False
  have "emberAfExternalAttributeReadCallback K endpoint cluster a buf n b = Inr (Failure, buf)"
    "emberAfExternalAttributeWriteCallback K now later endpoint cluster a buf b = Inr (Failure, b)"
    using unpublished_index [OF chip_parts(3) [OF assms(1)] False]
    by (simp_all add: emberAfExternalAttributeReadCallback_def emberAfExternalAttributeWriteCallback_def Let_def)
  then show ?thesis using ok by blast
next
  case True
  note c = chip_parts [OF assms(1)]
  from True obtain i t where s: "V (ember b) i = Some (endpoint, t)" by (auto simp: in_use_def)
  obtain e d where e: "e \<in> set (gBridgedWemoLights b)" and h: "heap b (bl_device e) = Some d"
    and ep: "view_endpoint (dview K d) = endpoint" and t: "type_of_light d = t"
    and i: "i < endpoint_slots" "gDevices b ! i = Some (bl_device e)"
    by (rule light_of_slot [OF c(4) ok s])
  obtain j where j: "j < endpoint_slots" "gDevices b ! j = Some (bl_device e)"
    "unat (emberAfGetDynamicIndexFromEndpoint (ember_api K) (view_endpoint (dview K d)) (ember b)) = j"
    "is_dimmer d = bl_is_dimmable e"
    by (rule published_light [OF c(3) ok e h])
  note rd = read_callback_light [OF c(1,3) ok e h, of a buf n]
  note wr = write_callback_light [OF c(1,3) ok e h, of now later]
  have dim: "bl_is_dimmable e" if "t = bridgedDimmableLightEndpoint"
    using t that j(4) by (simp add: type_of_light_def split: if_splits)
  from served_cluster [of cluster "ids K" t] assms(3) s
  consider (on_off) "cluster = OnOff_Id (ids K)" | (desc) "cluster = Descriptor_Id (ids K)"
    | (basic) "cluster = BridgedDeviceBasicInformation_Id (ids K)"
    | (level) "cluster = LevelControl_Id (ids K)" "bl_is_dimmable e"
    using dim by blast
  then have "(\<exists>r. emberAfExternalAttributeReadCallback K (view_endpoint (dview K d)) cluster a buf n b = Inr r) \<and>
    (\<exists>st b'. emberAfExternalAttributeWriteCallback K now later (view_endpoint (dview K d)) cluster a buf b =
       Inr (st, b') \<and> bridge_ok K V b')"
  proof cases
    case on_off
    then show ?thesis
      using rd(2) wr(1) wr(4) on_off_keeps [OF c(1,2) ok h] ok
      by (cases "view_reachable (dview K d)") (simp_all add: pair_ok)
  next
    case desc
    then show ?thesis
      using descriptor_reads(1) [OF c(1) j(2) h j(3)] descriptor_reads(2) [OF c(1) j(2) h j(3) j(1)] ok
      by blast
  next
    case basic
    then show ?thesis
      using rd(1) wr(3) wr(4) basic_keeps [OF c(1,2) ok h] ok
      by (cases "view_reachable (dview K d)") (simp_all add: pair_ok)
  next
    case level
    then show ?thesis
      using rd(3) wr(2) wr(4) level_keeps [OF c(1) ok e h] ok
      by (cases "view_reachable (dview K d)") (simp_all add: pair_ok)
  qed
  then show ?thesis unfolding ep .
qed

text \<open>
  C13. As long as the stack asks an endpoint only for clusters it is declared with, no read
  or write of any attribute of any endpoint, published or not, dereferences a null or
  dangling device or treats a device as one of another class, and every write keeps the
  invariant of the bridge.
\<close>

theorem callbacks_never_fault:
  assumes "chip_documented K V" and ok: "bridge_ok K V b"
    and "\<forall>i t. V (ember b) i = Some (endpoint, t) \<longrightarrow> cluster \<in> set (endpoint_clusters (ids K) t)"
  shows "(\<exists>r. emberAfExternalAttributeReadCallback K endpoint cluster a buf n b = Inr r) \<and>
    (\<exists>st b'. emberAfExternalAttributeWriteCallback K now later endpoint cluster a buf b = Inr (st, b') \<and>
       bridge_ok K V b')"
  using assms by (rule callbacks_served)

theorem callbacks_never_fault_witness:
  "\<exists>st b'. emberAfExternalAttributeWriteCallback mem_chip 0 0 3 8 0 [200] lamp_bridge = Inr (st, b') \<and>
     bridge_ok mem_chip mem_slot b'"
proof -
  have "\<forall>i t. mem_slot (ember lamp_bridge) i = Some (3, t) \<longrightarrow> 8 \<in> set (endpoint_clusters (ids mem_chip) t)"
    by (auto simp: lamp_slot endpoint_clusters_def bridgedDimmableLightClusters_def mem_chip_def mem_ids_def
        split: if_splits)
  from callbacks_never_fault [OF mem_chip_documented lamp_bridge_ok this] show ?thesis by blast
qed

text \<open>
  C15. Writing the on/off attribute of a reachable light switches exactly that device, opens
  its settle window for two seconds with the written value, starts exactly one command to
  its UDN carrying the same value, and reports the attribute exactly when it changed. A
  light that is not reachable refuses the write and nothing happens.
\<close>

theorem write_on_off_effect:
  assumes "chip_documented K V" and ok: "bridge_ok K V b" and e: "e \<in> set (gBridgedWemoLights b)"
    and h: "heap b (bl_device e) = Some d" and q: "queue_open K"
  shows "(view_reachable (dview K d) \<longrightarrow>
     (\<exists>b' d'. emberAfExternalAttributeWriteCallback K now later (view_endpoint (dview K d)) (OnOff_Id (ids K))
          (OnOff_OnOff_Id (ids K)) (x # rest) b = Inr (Success, b') \<and>
        heap b' = (heap b)(bl_device e \<mapsto> d') \<and>
        dview K d' = (dview K d)\<lparr>view_on := (x \<noteq> 0)\<rparr> \<and> mLevel d' = mLevel d \<and>
        gBridgedWemoLights b' = update_first (\<lambda>y. bl_device y = bl_device e)
          (\<lambda>y. y\<lparr>commandedOnOff := (if x \<noteq> 0 then 1 else 0), commandedOnOffUntil := now + 2000\<rparr>)
          (gBridgedWemoLights b) \<and>
        threads b' = threads b @ [JobOnOff (bl_udn e) (x \<noteq> 0)] \<and>
        work b' = work b @ (if view_on (dview K d) \<noteq> (x \<noteq> 0)
          then [CallReportingCallback (view_endpoint (dview K d)) (OnOff_Id (ids K)) (OnOff_OnOff_Id (ids K))]
          else []))) \<and>
    (\<not> view_reachable (dview K d) \<longrightarrow>
     emberAfExternalAttributeWriteCallback K now later (view_endpoint (dview K d)) (OnOff_Id (ids K))
       (OnOff_OnOff_Id (ids K)) (x # rest) b = Inr (Failure, b))"
proof (intro conjI impI)
  note c = chip_parts [OF assms(1)]
  note wr = write_callback_light [OF c(1,3) ok e h, of now later]
  show "\<not> view_reachable (dview K d) \<Longrightarrow>
     emberAfExternalAttributeWriteCallback K now later (view_endpoint (dview K d)) (OnOff_Id (ids K))
       (OnOff_OnOff_Id (ids K)) (x # rest) b = Inr (Failure, b)" by (rule wr(4))
  assume r: "view_reachable (dview K d)"
  obtain t where t: "(x \<noteq> 0) = t" by blast
  obtain d' w where s: "dev_SetOnOff K t d = (d', w)" by (rule prod.exhaust)
  note law = dev_SetOnOff_law [OF c(1,2) s]
  have "wired d" using bridge_okD(2) [OF ok e] h by (simp add: light_ok_def)
  then have w: "w = (if view_on (dview K d) \<noteq> t
      then [CallReportingCallback (view_endpoint (dview K d)) (OnOff_Id (ids K)) (OnOff_OnOff_Id (ids K))]
      else [])"
    using law by (simp add: report_def)
  let ?b = "start_thread (JobOnOff (bl_udn e) t)
        (update_light (bl_device e) (on_off_window t now) (put_device K (bl_device e) (d', w) b))"
  have run: "emberAfExternalAttributeWriteCallback K now later (view_endpoint (dview K d)) (OnOff_Id (ids K))
          (OnOff_OnOff_Id (ids K)) (x # rest) b = Inr (Success, ?b)"
    using wr(1) [OF r] write_on_off [OF c(1,2) ok e h r, of x d' w now rest] s unfolding t by simp
  have v: "dview K d' = (dview K d)\<lparr>view_on := t\<rparr>" "mLevel d' = mLevel d"
    using law by (simp_all add: same_shell_def)
  have ow: "on_off_window t now =
      (\<lambda>y. y\<lparr>commandedOnOff := (if t then 1 else 0), commandedOnOffUntil := now + 2000\<rparr>)"
    by (simp add: on_off_window_def kCommandSettleWindow_def fun_eq_iff)
  show "\<exists>b' d'. emberAfExternalAttributeWriteCallback K now later (view_endpoint (dview K d)) (OnOff_Id (ids K))
          (OnOff_OnOff_Id (ids K)) (x # rest) b = Inr (Success, b') \<and>
        heap b' = (heap b)(bl_device e \<mapsto> d') \<and>
        dview K d' = (dview K d)\<lparr>view_on := (x \<noteq> 0)\<rparr> \<and> mLevel d' = mLevel d \<and>
        gBridgedWemoLights b' = update_first (\<lambda>y. bl_device y = bl_device e)
          (\<lambda>y. y\<lparr>commandedOnOff := (if x \<noteq> 0 then 1 else 0), commandedOnOffUntil := now + 2000\<rparr>)
          (gBridgedWemoLights b) \<and>
        threads b' = threads b @ [JobOnOff (bl_udn e) (x \<noteq> 0)] \<and>
        work b' = work b @ (if view_on (dview K d) \<noteq> (x \<noteq> 0)
          then [CallReportingCallback (view_endpoint (dview K d)) (OnOff_Id (ids K)) (OnOff_OnOff_Id (ids K))]
          else [])"
    unfolding t by (intro exI [of _ ?b] exI [of _ d'] conjI)
      (simp_all only: run v put_device_fields update_light_fields start_thread_fields
        put_device_work [OF q] w ow)
qed

theorem write_on_off_effect_witness:
  "\<exists>b'. emberAfExternalAttributeWriteCallback mem_chip 1000 1000 3 6 0 [1] lamp_bridge = Inr (Success, b') \<and>
     threads b' = [JobOnOff ''uuid:lamp'' True] \<and> work b' = [CallReportingCallback 3 6 0]"
proof -
  have i: "OnOff_Id (ids mem_chip) = 6" "OnOff_OnOff_Id (ids mem_chip) = 0"
    by (simp_all add: mem_chip_def mem_ids_def)
  have one: "((1 :: u8) \<noteq> 0) = True" by simp
  note write_on_off_effect [OF mem_chip_documented lamp_bridge_ok lamp_facts(12,13) mem_queue_open,
      of 1000 1000 1 "[]", THEN conjunct1]
  then obtain b' where "emberAfExternalAttributeWriteCallback mem_chip 1000 1000 3 6 0 [1] lamp_bridge =
      Inr (Success, b')" "threads b' = threads lamp_bridge @ [JobOnOff (bl_udn lamp_light) True]"
    "work b' = work lamp_bridge @ [CallReportingCallback 3 6 0]"
    unfolding lamp_view i one by auto
  then show ?thesis by (simp add: lamp_facts)
qed

text \<open>
  C14. Writing the level of a reachable dimmer. While an on/off command to it is settling, the
  write is acknowledged and changes nothing at all. Otherwise a level of 0 or 1 is
  acknowledged and only retires an expired on/off window. Any other level becomes the level
  of exactly that device, opens its level window, starts exactly one command with the
  converted percentage, and is reported exactly when it changed; on/off is not touched.
\<close>

theorem write_level_effect:
  assumes "chip_documented K V" and ok: "bridge_ok K V b" and e: "e \<in> set (gBridgedWemoLights b)"
    and h: "heap b (bl_device e) = Some d" and q: "queue_open K"
    and r: "view_reachable (dview K d)" and dim: "bl_is_dimmable e"
  shows "\<exists>b'. emberAfExternalAttributeWriteCallback K now later (view_endpoint (dview K d))
      (LevelControl_Id (ids K)) (CurrentLevel_Id (ids K)) (l # rest) b = Inr (Success, b') \<and>
    (settling now e \<longrightarrow> b' = b) \<and>
    (\<not> settling now e \<and> l \<le> 1 \<longrightarrow> heap b' = heap b \<and> threads b' = threads b \<and> work b' = work b \<and>
       gBridgedWemoLights b' = update_first (\<lambda>y. bl_device y = bl_device e)
         (clear_expired now) (gBridgedWemoLights b)) \<and>
    (\<not> settling now e \<and> 1 < l \<longrightarrow>
       heap b' = (heap b)(bl_device e \<mapsto> d\<lparr>mLevel := l\<rparr>) \<and>
       threads b' = threads b @ [JobLevel (bl_udn e) (matter_to_wemo l)] \<and>
       work b' = work b @ (if mLevel d \<noteq> l
          then [CallReportingCallback (view_endpoint (dview K d)) (LevelControl_Id (ids K)) (CurrentLevel_Id (ids K))]
          else []) \<and>
       find (\<lambda>y. bl_device y = bl_device e) (gBridgedWemoLights b') =
         Some (e\<lparr>commandedOnOff := - 1, commandedLevel := uint l, commandedLevelUntil := later + 2000\<rparr>))"
proof -
  note c = chip_parts [OF assms(1)]
  note D = bridge_okD [OF ok]
  obtain d' w where s: "SetLevel K l d = (d', w)" by (rule prod.exhaust)
  note law = SetLevel_law [OF c(1) s]
  have wd: "wired d" "is_dimmer d" using D(2) [OF e] h dim by (simp_all add: light_ok_def)
  have w: "w = (if mLevel d \<noteq> l
      then [CallReportingCallback (view_endpoint (dview K d)) (LevelControl_Id (ids K)) (CurrentLevel_Id (ids K))]
      else [])"
    using law wd by (simp add: report_def)
  let ?b1 = "update_light (bl_device e) (clear_expired now) b"
  let ?b2 = "start_thread (JobLevel (bl_udn e) (matter_to_wemo l))
            (update_light (bl_device e) (level_window l later) (put_device K (bl_device e) (d', w) ?b1))"
  have run: "emberAfExternalAttributeWriteCallback K now later (view_endpoint (dview K d))
      (LevelControl_Id (ids K)) (CurrentLevel_Id (ids K)) (l # rest) b =
      Inr (Success, if settling now e \<or> l \<le> 1 then ?b1 else ?b2)"
    using write_callback_light(2) [OF c(1,3) ok e h r dim] write_level [OF ok e h r s]
    by (simp add: Let_def)
  have f: "find (\<lambda>x. bl_device x = bl_device e) (gBridgedWemoLights b) = Some e"
    by (rule find_device [OF D(3) e])
  have same: "?b1 = b" if "settling now e"
  proof -
    have "update_first (\<lambda>x. bl_device x = bl_device e) (clear_expired now) (gBridgedWemoLights b) =
        gBridgedWemoLights b"
      by (rule update_first_same [OF f]) (use that in \<open>simp add: clear_expired_def settling_def\<close>)
    then show ?thesis by (simp add: update_light_def)
  qed
  have cl: "clear_expired now e = e\<lparr>commandedOnOff := - 1\<rparr>" if "\<not> settling now e"
    using that D(2) [OF e] by (auto simp: clear_expired_def settling_def light_ok_def)
  have lw: "level_window l later (clear_expired now e) =
      e\<lparr>commandedOnOff := - 1, commandedLevel := uint l, commandedLevelUntil := later + 2000\<rparr>"
    if "\<not> settling now e"
    using cl [OF that] by (simp add: level_window_def kCommandSettleWindow_def)
  have dev: "bl_device (clear_expired now y) = bl_device y" "bl_device (level_window l later y) = bl_device y" for y
    by (simp_all add: clear_expired_def level_window_def)
  have f2: "find (\<lambda>y. bl_device y = bl_device e) (gBridgedWemoLights ?b2) =
      Some (level_window l later (clear_expired now e))"
    by (simp add: find_update_first dev f)
  show ?thesis
  proof (intro exI conjI impI)
    show "emberAfExternalAttributeWriteCallback K now later (view_endpoint (dview K d))
      (LevelControl_Id (ids K)) (CurrentLevel_Id (ids K)) (l # rest) b =
      Inr (Success, if settling now e \<or> l \<le> 1 then ?b1 else ?b2)" by (rule run)
  qed (use same law f2 lw in \<open>auto simp: put_device_work [OF q] w linorder_not_less [symmetric]\<close>)
qed

theorem write_level_effect_witness:
  "\<exists>b'. emberAfExternalAttributeWriteCallback mem_chip 1000 1000 3 8 0 [254] lamp_bridge = Inr (Success, b') \<and>
     threads b' = [JobLevel ''uuid:lamp'' 100]"
proof -
  have i: "LevelControl_Id (ids mem_chip) = 8" "CurrentLevel_Id (ids mem_chip) = 0"
    by (simp_all add: mem_chip_def mem_ids_def)
  have s: "\<not> settling 1000 lamp_light" by (simp add: settling_def lamp_facts)
  have m: "matter_to_wemo 254 = 100" by (simp add: matter_to_wemo_def)
  have v: "view_reachable (dview mem_chip lamp_device)" by (simp add: lamp_view)
  from write_level_effect [OF mem_chip_documented lamp_bridge_ok lamp_facts(12,13) mem_queue_open v
      lamp_facts(4), of 1000 1000 254 "[]"]
  obtain b' where "emberAfExternalAttributeWriteCallback mem_chip 1000 1000 3 8 0 [254] lamp_bridge =
      Inr (Success, b')" "threads b' = threads lamp_bridge @ [JobLevel (bl_udn lamp_light) 100]"
    unfolding lamp_view i m using s by auto
  then show ?thesis by (simp add: lamp_facts)
qed

text \<open>
  C29. Reads report the device as it is: on/off, reachability, the level of a dimmer and the
  name come back as their current values with status Success, and an attribute read of a
  wrong length is refused and leaves the buffer alone.
\<close>

theorem reads_current_state:
  assumes "chip_documented K V" and ok: "bridge_ok K V b" and e: "e \<in> set (gBridgedWemoLights b)"
    and h: "heap b (bl_device e) = Some d"
    and name: "CHR 0x00 \<notin> set (view_name (dview K d))" "length (view_name (dview K d)) < 32"
    and buf: "32 \<le> length buf" and n: "n \<noteq> 1" "n \<noteq> 2"
  shows "emberAfExternalAttributeReadCallback K (view_endpoint (dview K d)) (OnOff_Id (ids K))
      (OnOff_OnOff_Id (ids K)) buf 1 b =
      Inr (Success, put_bytes [if view_on (dview K d) then 1 else 0] buf) \<and>
    emberAfExternalAttributeReadCallback K (view_endpoint (dview K d)) (BridgedDeviceBasicInformation_Id (ids K))
      (Reachable_Id (ids K)) buf 1 b =
      Inr (Success, put_bytes [if view_reachable (dview K d) then 1 else 0] buf) \<and>
    (bl_is_dimmable e \<longrightarrow>
     emberAfExternalAttributeReadCallback K (view_endpoint (dview K d)) (LevelControl_Id (ids K))
      (CurrentLevel_Id (ids K)) buf 1 b = Inr (Success, put_bytes [mLevel d] buf)) \<and>
    (\<exists>buf'. emberAfExternalAttributeReadCallback K (view_endpoint (dview K d))
       (BridgedDeviceBasicInformation_Id (ids K)) (NodeLabel_Id (ids K)) buf 32 b = Inr (Success, buf') \<and>
       fromZclString (ember_api K) buf' = view_name (dview K d)) \<and>
    emberAfExternalAttributeReadCallback K (view_endpoint (dview K d)) (OnOff_Id (ids K)) a buf n b =
      Inr (Failure, buf)"
proof (intro conjI impI exI)
  note c = chip_parts [OF assms(1)]
  note rd = read_callback_light [OF c(1,3) ok e h]
  have i: "distinct [ClusterRevision_Id (ids K), FeatureMap_Id (ids K), Reachable_Id (ids K),
      NodeLabel_Id (ids K), UniqueID_Id (ids K), ConfigurationVersion_Id (ids K)]"
    using c(1) unfolding ids_documented_def by blast
  have v: "base_IsOn (dev_api K) (dv_base d) = view_on (dview K d)"
    "base_IsReachable (dev_api K) (dv_base d) = view_reachable (dview K d)"
    "base_GetName (dev_api K) (dv_base d) = view_name (dview K d)"
    by (simp_all add: dview_def look_simps)
  show "emberAfExternalAttributeReadCallback K (view_endpoint (dview K d)) (OnOff_Id (ids K))
      (OnOff_OnOff_Id (ids K)) buf 1 b =
      Inr (Success, put_bytes [if view_on (dview K d) then 1 else 0] buf)"
    by (simp add: rd(2) HandleReadOnOffAttribute_def v)
  show "emberAfExternalAttributeReadCallback K (view_endpoint (dview K d)) (BridgedDeviceBasicInformation_Id (ids K))
      (Reachable_Id (ids K)) buf 1 b =
      Inr (Success, put_bytes [if view_reachable (dview K d) then 1 else 0] buf)"
    by (simp add: rd(1) HandleReadBridgedDeviceBasicAttribute_def Let_def v)
  show "emberAfExternalAttributeReadCallback K (view_endpoint (dview K d)) (LevelControl_Id (ids K))
      (CurrentLevel_Id (ids K)) buf 1 b = Inr (Success, put_bytes [mLevel d] buf)" if "bl_is_dimmable e"
    by (simp add: rd(3) [OF that] HandleReadLevelControlAttribute_def GetLevel_def)
  show "emberAfExternalAttributeReadCallback K (view_endpoint (dview K d))
      (BridgedDeviceBasicInformation_Id (ids K)) (NodeLabel_Id (ids K)) buf 32 b =
      Inr (Success, put_zcl_string (ember_api K) 32 (view_name (dview K d)) buf)"
    using i by (simp add: rd(1) HandleReadBridgedDeviceBasicAttribute_def Let_def v)
  have t: "length (take 32 buf) = 32" using buf by simp
  show "fromZclString (ember_api K) (put_zcl_string (ember_api K) 32 (view_name (dview K d)) buf) =
      view_name (dview K d)"
    unfolding put_zcl_string_def put_bytes_def
    by (rule c(5) [unfolded zcl_documented_def, THEN conjunct2, rule_format, OF name(1)])
      (use name(2) t in simp_all)
  show "emberAfExternalAttributeReadCallback K (view_endpoint (dview K d)) (OnOff_Id (ids K)) a buf n b =
      Inr (Failure, buf)"
    using n by (simp add: rd(2) HandleReadOnOffAttribute_def)
qed

theorem reads_current_state_witness:
  "emberAfExternalAttributeReadCallback mem_chip 3 8 0 (replicate 32 0) 1 lamp_bridge =
     Inr (Success, put_bytes [127] (replicate 32 0))"
proof -
  have i: "LevelControl_Id (ids mem_chip) = 8" "CurrentLevel_Id (ids mem_chip) = 0"
    by (simp_all add: mem_chip_def mem_ids_def)
  have n: "CHR 0x00 \<notin> set (view_name (dview mem_chip lamp_device))"
    "length (view_name (dview mem_chip lamp_device)) < 32"
    by (simp_all add: lamp_view)
  from reads_current_state [OF mem_chip_documented lamp_bridge_ok lamp_facts(12,13) n, of "replicate 32 0" 4]
  show ?thesis unfolding i using lamp_facts(4,9) by (simp add: lamp_view)
qed

text \<open>
  C33. A node label of at most 31 characters that a controller writes to a reachable light is
  the label every later read returns; a label of more than 32 characters is refused with
  \<open>ConstraintError\<close>, another attribute of the cluster with \<open>UnsupportedWrite\<close>, and neither
  changes anything.
\<close>

theorem node_label_roundtrip:
  assumes "chip_documented K V" and ok: "bridge_ok K V b" and e: "e \<in> set (gBridgedWemoLights b)"
    and h: "heap b (bl_device e) = Some d" and r: "view_reachable (dview K d)"
    and name: "fromZclString (ember_api K) buf = s" "CHR 0x00 \<notin> set s" "length s \<le> 31"
    and long: "32 < length (fromZclString (ember_api K) buf2)" and a: "a \<noteq> NodeLabel_Id (ids K)"
    and rbuf: "32 \<le> length rbuf"
  shows "(\<exists>b' rbuf'. emberAfExternalAttributeWriteCallback K now later (view_endpoint (dview K d))
       (BridgedDeviceBasicInformation_Id (ids K)) (NodeLabel_Id (ids K)) buf b = Inr (Success, b') \<and>
       emberAfExternalAttributeReadCallback K (view_endpoint (dview K d))
         (BridgedDeviceBasicInformation_Id (ids K)) (NodeLabel_Id (ids K)) rbuf 32 b' = Inr (Success, rbuf') \<and>
       fromZclString (ember_api K) rbuf' = s) \<and>
    emberAfExternalAttributeWriteCallback K now later (view_endpoint (dview K d))
       (BridgedDeviceBasicInformation_Id (ids K)) (NodeLabel_Id (ids K)) buf2 b = Inr (ConstraintError, b) \<and>
    emberAfExternalAttributeWriteCallback K now later (view_endpoint (dview K d))
       (BridgedDeviceBasicInformation_Id (ids K)) a buf b = Inr (UnsupportedWrite, b)"
proof (intro conjI)
  note c = chip_parts [OF assms(1)]
  note wr = write_callback_light(3) [OF c(1,3) ok e h r, of now later]
  show "emberAfExternalAttributeWriteCallback K now later (view_endpoint (dview K d))
       (BridgedDeviceBasicInformation_Id (ids K)) (NodeLabel_Id (ids K)) buf2 b = Inr (ConstraintError, b)"
    using long by (simp add: wr HandleWriteBridgedDeviceBasicAttribute_def Let_def kNodeLabelSize_def)
  show "emberAfExternalAttributeWriteCallback K now later (view_endpoint (dview K d))
       (BridgedDeviceBasicInformation_Id (ids K)) a buf b = Inr (UnsupportedWrite, b)"
    using a by (simp add: wr HandleWriteBridgedDeviceBasicAttribute_def)
  obtain d' w where n: "dev_SetName K s d = (d', w)" by (rule prod.exhaust)
  note law = dev_SetName_law [OF c(1,2) n]
  have view: "view_name (dview K d') = s" "view_endpoint (dview K d') = view_endpoint (dview K d)"
    using law name(3) by simp_all
  let ?b = "put_device K (bl_device e)
      (d', w @ HandleDeviceStatusChanged K d' (kChanged_Name (ids K))) b"
  have w: "emberAfExternalAttributeWriteCallback K now later (view_endpoint (dview K d))
       (BridgedDeviceBasicInformation_Id (ids K)) (NodeLabel_Id (ids K)) buf b = Inr (Success, ?b)"
    using name by (simp add: wr HandleWriteBridgedDeviceBasicAttribute_def Let_def kNodeLabelSize_def cstr_id n)
  have sw: "same_wiring K d d'" using law view(2) by (intro same_wiring_simps(3)) simp_all
  have ok': "bridge_ok K V ?b" by (rule bridge_ok_put [OF ok h sw])
  have e': "e \<in> set (gBridgedWemoLights ?b)" and h': "heap ?b (bl_device e) = Some d'"
    using e by simp_all
  have i: "distinct [ClusterRevision_Id (ids K), FeatureMap_Id (ids K), Reachable_Id (ids K),
      NodeLabel_Id (ids K), UniqueID_Id (ids K), ConfigurationVersion_Id (ids K)]"
    using c(1) unfolding ids_documented_def by blast
  have g: "base_GetName (dev_api K) (dv_base d') = s" using view(1) by (simp add: dview_def look_simps)
  have rd: "emberAfExternalAttributeReadCallback K (view_endpoint (dview K d))
         (BridgedDeviceBasicInformation_Id (ids K)) (NodeLabel_Id (ids K)) rbuf 32 ?b =
         Inr (Success, put_zcl_string (ember_api K) 32 s rbuf)"
    using i read_callback_light(1) [OF c(1,3) ok' e' h', unfolded view(2)]
    by (simp add: HandleReadBridgedDeviceBasicAttribute_def Let_def g)
  have "length (take 32 rbuf) = 32" using rbuf by simp
  then have "fromZclString (ember_api K) (put_zcl_string (ember_api K) 32 s rbuf) = s"
    unfolding put_zcl_string_def put_bytes_def
    by (intro c(5) [unfolded zcl_documented_def, THEN conjunct2, rule_format] name(2)) (use name(3) in simp_all)
  with w rd show "\<exists>b' rbuf'. emberAfExternalAttributeWriteCallback K now later (view_endpoint (dview K d))
       (BridgedDeviceBasicInformation_Id (ids K)) (NodeLabel_Id (ids K)) buf b = Inr (Success, b') \<and>
       emberAfExternalAttributeReadCallback K (view_endpoint (dview K d))
         (BridgedDeviceBasicInformation_Id (ids K)) (NodeLabel_Id (ids K)) rbuf 32 b' = Inr (Success, rbuf') \<and>
       fromZclString (ember_api K) rbuf' = s"
    by blast
qed

theorem node_label_roundtrip_witness:
  "\<exists>b' rbuf'. emberAfExternalAttributeWriteCallback mem_chip 0 0 3 57 5 [2, 72, 105] lamp_bridge = Inr (Success, b') \<and>
     emberAfExternalAttributeReadCallback mem_chip 3 57 5 (replicate 32 0) 32 b' = Inr (Success, rbuf') \<and>
     fromZclString (ember_api mem_chip) rbuf' = ''Hi''"
proof -
  have i: "BridgedDeviceBasicInformation_Id (ids mem_chip) = 57" "NodeLabel_Id (ids mem_chip) = 5"
    by (simp_all add: mem_chip_def mem_ids_def)
  have v: "view_reachable (dview mem_chip lamp_device)" by (simp add: lamp_view)
  have n: "fromZclString (ember_api mem_chip) [2, 72, 105] = ''Hi''"
    by (simp add: mem_chip_def mem_ember_api_def char_of_def bit_0)
  have long: "32 < length (fromZclString (ember_api mem_chip) (33 # replicate 33 0))"
    by (simp add: mem_chip_def mem_ember_api_def)
  have s: "CHR 0x00 \<notin> set ''Hi''" "length ''Hi'' \<le> 31" by simp_all
  have a: "17 \<noteq> NodeLabel_Id (ids mem_chip)" and b: "32 \<le> length (replicate 32 (0 :: u8))"
    by (simp_all add: i)
  from node_label_roundtrip [OF mem_chip_documented lamp_bridge_ok lamp_facts(12,13) v n s long a b,
      of 0 0, THEN conjunct1]
  show ?thesis unfolding i by (simp add: lamp_view)
qed

end
