(* ===== verification/Events.thy ===== *)
theory Events
  imports Control
begin

text \<open>
  State events of the WeMo engine: the callback that \<open>ApplicationInit\<close> registers with the
  adapter, the handler \<open>HandleWemoEventOnMatterThread\<close> of \<^verbatim>\<open>matter-bridge-app/main.cpp\<close>
  that applies an event to the bridged device, and its echo suppression.
\<close>

section \<open>The handler\<close>

text \<open>The lambda registered with the adapter: the event is copied and scheduled.\<close>

definition context_of_event :: "wemo_state_event \<Rightarrow> wemo_event_context" where
  "context_of_event ev =
     \<lparr>cx_wemo_id = ev_wemo_id ev, cx_is_online = ev_is_online ev, cx_state = ev_state ev, cx_level = ev_level ev\<rparr>"

definition OnWemoStateEvent :: "('d, 'e) chip \<Rightarrow> wemo_state_event \<Rightarrow> ('d, 'e) bridge \<Rightarrow> ('d, 'e) bridge" where
  "OnWemoStateEvent K ev b = ScheduleWork K (HandleWemoEvent (context_of_event ev)) b"

text \<open>
  The on/off part for one entry and its device: the entry, whether the event is suppressed,
  and then the device.
\<close>

definition on_off_suppressed :: "int \<Rightarrow> int \<Rightarrow> bridged_light \<Rightarrow> bool \<times> bridged_light" where
  "on_off_suppressed now newOnInt entry =
     (if commandedOnOff entry \<ge> 0
      then if now > commandedOnOffUntil entry
           then (False, entry\<lparr>commandedOnOff := - 1\<rparr>)
           else (newOnInt \<noteq> commandedOnOff entry, entry)
      else (False, entry))"

definition level_suppressed :: "int \<Rightarrow> u8 \<Rightarrow> bridged_light \<Rightarrow> bool \<times> bridged_light" where
  "level_suppressed now matterLevel entry =
     (if commandedLevel entry \<ge> 0
      then if now > commandedLevelUntil entry
           then (False, entry\<lparr>commandedLevel := - 1\<rparr>)
           else (matterLevel \<noteq> to_u8 (commandedLevel entry), entry)
      else (False, entry))"

text \<open>
  An event applied to the matching entry and its device; the result is the entry, the device
  and the work scheduled by its change callbacks, in order.
\<close>

definition apply_event ::
    "('d, 'e) chip \<Rightarrow> int \<Rightarrow> wemo_event_context \<Rightarrow> bridged_light \<Rightarrow> 'd device_object \<Rightarrow>
     bridged_light \<times> 'd device_object \<times> work_item list" where
  "apply_event K now ctx entry dev =
     (let (dev, w1) = (if base_IsReachable (dev_api K) (dv_base dev) \<noteq> cx_is_online ctx
                       then dev_SetReachable K (cx_is_online ctx) dev else (dev, []))
      in if \<not> cx_is_online ctx then (entry, dev, w1)
         else
           let newOn = (cx_state ctx \<noteq> 0);
               newOnInt = (if newOn then 1 else 0);
               (suppressOnOff, entry) = on_off_suppressed now newOnInt entry;
               (dev, w2) = (if \<not> suppressOnOff \<and> base_IsOn (dev_api K) (dv_base dev) \<noteq> newOn
                            then dev_SetOnOff K newOn dev else (dev, []))
           in if bl_is_dimmable entry \<and> cx_level ctx \<ge> 0
              then let matterLevel = wemo_to_matter (cx_level ctx);
                       (suppressLevel, entry) = level_suppressed now matterLevel entry;
                       (dev, w3) = (if \<not> suppressLevel \<and> GetLevel dev \<noteq> matterLevel
                                    then SetLevel K matterLevel dev else (dev, []))
                   in (entry, dev, w1 @ w2 @ w3)
              else (entry, dev, w1 @ w2))"

text \<open>The loop: the first entry with the id of the event, if there is one.\<close>

definition HandleWemoEventOnMatterThread ::
    "('d, 'e) chip \<Rightarrow> int \<Rightarrow> wemo_event_context \<Rightarrow> ('d, 'e) bridge \<Rightarrow> fault + ('d, 'e) bridge" where
  "HandleWemoEventOnMatterThread K now ctx b =
     (case find (\<lambda>entry. bl_wemo_id entry = cx_wemo_id ctx) (gBridgedWemoLights b) of
        None \<Rightarrow> Inr b
      | Some entry \<Rightarrow>
          (case heap b (bl_device entry) of
             None \<Rightarrow> Inl DanglingPointer
           | Some dev \<Rightarrow>
               if cx_is_online ctx \<and> \<not> is_on_off dev then Inl BadDowncast
               else if cx_is_online ctx \<and> bl_is_dimmable entry \<and> cx_level ctx \<ge> 0 \<and> \<not> is_dimmer dev
               then Inl BadDowncast
               else let (entry', dev', w) = apply_event K now ctx entry dev;
                        b = b\<lparr>gBridgedWemoLights :=
                          update_first (\<lambda>entry. bl_wemo_id entry = cx_wemo_id ctx) (\<lambda>_. entry')
                            (gBridgedWemoLights b)\<rparr>
                    in Inr (put_device K (bl_device entry) (dev', w) b)))"

section \<open>What an event does to a light\<close>

text \<open>The abstract state of a light, as a controller sees it.\<close>

record light_state =
  ls_reachable :: bool
  ls_on :: bool
  ls_level :: u8

definition state_of :: "('d, 'e) chip \<Rightarrow> 'd device_object \<Rightarrow> light_state" where
  "state_of K d = \<lparr>ls_reachable = view_reachable (dview K d), ls_on = view_on (dview K d), ls_level = mLevel d\<rparr>"

definition level_settling :: "int \<Rightarrow> bridged_light \<Rightarrow> bool" where
  "level_settling now e \<longleftrightarrow> commandedLevel e \<ge> 0 \<and> now \<le> commandedLevelUntil e"

text \<open>
  The specification: reachability follows the event; of an online event, the on/off state is
  taken unless a command with the other value is settling, and the level of a dimmer unless
  a command with another level is.
\<close>

definition event_spec :: "int \<Rightarrow> wemo_event_context \<Rightarrow> bridged_light \<Rightarrow> light_state \<Rightarrow> light_state" where
  "event_spec now ctx e s =
     \<lparr>ls_reachable = cx_is_online ctx,
      ls_on = (if cx_is_online ctx \<and> \<not> (settling now e \<and> (cx_state ctx \<noteq> 0) \<noteq> (commandedOnOff e \<noteq> 0))
               then cx_state ctx \<noteq> 0 else ls_on s),
      ls_level = (if cx_is_online ctx \<and> bl_is_dimmable e \<and> cx_level ctx \<ge> 0 \<and>
                    \<not> (level_settling now e \<and> uint (wemo_to_matter (cx_level ctx)) \<noteq> commandedLevel e)
                  then wemo_to_matter (cx_level ctx) else ls_level s)\<rparr>"

text \<open>The entry afterwards: windows that have run out are closed.\<close>

definition event_entry :: "int \<Rightarrow> wemo_event_context \<Rightarrow> bridged_light \<Rightarrow> bridged_light" where
  "event_entry now ctx e =
     (if \<not> cx_is_online ctx then e
      else let e = (if commandedOnOff e \<ge> 0 \<and> now > commandedOnOffUntil e then e\<lparr>commandedOnOff := - 1\<rparr> else e)
           in if bl_is_dimmable e \<and> cx_level ctx \<ge> 0 \<and> commandedLevel e \<ge> 0 \<and> now > commandedLevelUntil e
              then e\<lparr>commandedLevel := - 1\<rparr> else e)"

text \<open>The reports: one for each attribute that changed, in a fixed order.\<close>

definition change_reports :: "('d, 'e) chip \<Rightarrow> u16 \<Rightarrow> light_state \<Rightarrow> light_state \<Rightarrow> work_item list" where
  "change_reports K ep s s' =
     (let I = ids K
      in (if ls_reachable s \<noteq> ls_reachable s'
          then [CallReportingCallback ep (BridgedDeviceBasicInformation_Id I) (Reachable_Id I)] else []) @
         (if ls_on s \<noteq> ls_on s' then [CallReportingCallback ep (OnOff_Id I) (OnOff_OnOff_Id I)] else []) @
         (if ls_level s \<noteq> ls_level s' then [CallReportingCallback ep (LevelControl_Id I) (CurrentLevel_Id I)]
          else []))"

section \<open>The handler implements the specification\<close>

lemma reachable_stage:
  assumes i: "ids_documented (ids K)" and dd: "device_documented (ids K) (dev_api K)" and w: "wired d"
    and run: "(if base_IsReachable (dev_api K) (dv_base d) \<noteq> on then dev_SetReachable K on d else (d, [])) = (d', w)"
  shows "dview K d' = (dview K d)\<lparr>view_reachable := on\<rparr> \<and> same_shell d d' \<and>
    w = (if view_reachable (dview K d) \<noteq> on
      then [CallReportingCallback (view_endpoint (dview K d)) (BridgedDeviceBasicInformation_Id (ids K)) (Reachable_Id (ids K))]
      else [])"
proof (cases "view_reachable (dview K d) = on")
  case True
  then have "d' = d" "w = []" using run by (simp_all add: dview_def look_simps)
  with True show ?thesis by (simp add: shell_simps)
next
  case False
  then have "dev_SetReachable K on d = (d', w)" using run by (simp add: dview_def look_simps)
  from dev_SetReachable_law [OF i dd this] assms(3) False show ?thesis by (simp add: report_def)
qed

lemma on_off_stage:
  assumes i: "ids_documented (ids K)" and dd: "device_documented (ids K) (dev_api K)" and w: "wired d"
    and run: "(if \<not> suppress \<and> base_IsOn (dev_api K) (dv_base d) \<noteq> on then dev_SetOnOff K on d else (d, [])) = (d', w)"
  shows "dview K d' = (dview K d)\<lparr>view_on := (if suppress then view_on (dview K d) else on)\<rparr> \<and> same_shell d d' \<and>
    w = (if view_on (dview K d) \<noteq> view_on (dview K d')
      then [CallReportingCallback (view_endpoint (dview K d)) (OnOff_Id (ids K)) (OnOff_OnOff_Id (ids K))]
      else [])"
proof (cases "suppress \<or> view_on (dview K d) = on")
  case True
  then have "d' = d" "w = []" using run by (auto simp: dview_def look_simps)
  with True show ?thesis by (auto simp: shell_simps)
next
  case False
  then have "dev_SetOnOff K on d = (d', w)" using run by (simp add: dview_def look_simps)
  from dev_SetOnOff_law [OF i dd this] assms(3) False show ?thesis by (simp add: report_def)
qed

lemma level_stage:
  assumes i: "ids_documented (ids K)" and w: "wired d" "is_dimmer d"
    and run: "(if \<not> suppress \<and> GetLevel d \<noteq> l then SetLevel K l d else (d, [])) = (d', w)"
  shows "d' = d\<lparr>mLevel := (if suppress then mLevel d else l)\<rparr> \<and>
    w = (if mLevel d \<noteq> mLevel d'
      then [CallReportingCallback (view_endpoint (dview K d)) (LevelControl_Id (ids K)) (CurrentLevel_Id (ids K))]
      else [])"
proof (cases "suppress \<or> mLevel d = l")
  case True
  then have "d' = d" "w = []" using run by (auto simp: GetLevel_def)
  with True show ?thesis by auto
next
  case False
  then have "SetLevel K l d = (d', w)" using run by (simp add: GetLevel_def)
  from SetLevel_law [OF i this] assms(2,3) False show ?thesis by (simp add: report_def)
qed

lemma on_off_suppressed_eq:
  assumes "commandedOnOff e \<in> {- 1, 0, 1}"
  shows "on_off_suppressed now (if on then 1 else 0) e =
    (settling now e \<and> on \<noteq> (commandedOnOff e \<noteq> 0), clear_expired now e)"
  using assms by (auto simp: on_off_suppressed_def settling_def clear_expired_def)

lemma level_suppressed_eq:
  assumes "- 1 \<le> commandedLevel e" and "commandedLevel e \<le> 255"
  shows "level_suppressed now l e =
    (level_settling now e \<and> uint l \<noteq> commandedLevel e,
     if commandedLevel e \<ge> 0 \<and> now > commandedLevelUntil e then e\<lparr>commandedLevel := - 1\<rparr> else e)"
proof -
  have "commandedLevel e \<ge> 0 \<Longrightarrow> uint (to_u8 (commandedLevel e)) = commandedLevel e"
    using assms by (intro uint_to_u8_id) simp_all
  then show ?thesis
    by (auto simp: level_suppressed_def level_settling_def word_uint_eq_iff)
qed

lemma clear_expired_fields [simp]:
  "bl_is_dimmable (clear_expired now e) = bl_is_dimmable e"
  "commandedLevel (clear_expired now e) = commandedLevel e"
  "commandedLevelUntil (clear_expired now e) = commandedLevelUntil e"
  "bl_device (clear_expired now e) = bl_device e" "bl_udn (clear_expired now e) = bl_udn e"
  "bl_wemo_id (clear_expired now e) = bl_wemo_id e"
  by (simp_all add: clear_expired_def)

lemma apply_event_refines:
  assumes i: "ids_documented (ids K)" and dd: "device_documented (ids K) (dev_api K)"
    and w: "wired d" and dim: "is_dimmer d = bl_is_dimmable e"
    and rng: "commandedOnOff e \<in> {- 1, 0, 1}" "- 1 \<le> commandedLevel e" "commandedLevel e \<le> 255"
    and run: "apply_event K now ctx e d = (e', d', ws)"
  shows "e' = event_entry now ctx e \<and> state_of K d' = event_spec now ctx e (state_of K d) \<and>
    same_wiring K d d' \<and> view_name (dview K d') = view_name (dview K d) \<and>
    ws = change_reports K (view_endpoint (dview K d)) (state_of K d) (state_of K d')"
proof -
  let ?on = "cx_state ctx \<noteq> 0"
  obtain d1 w1 where r1: "(if base_IsReachable (dev_api K) (dv_base d) \<noteq> cx_is_online ctx
      then dev_SetReachable K (cx_is_online ctx) d else (d, [])) = (d1, w1)" by (rule prod.exhaust)
  note s1 = reachable_stage [OF i dd w r1]
  then have w1: "wired d1" "is_dimmer d1 = is_dimmer d"
    using w same_shell_wired(1,3) [of d d1] by simp_all
  show ?thesis
  proof (cases "cx_is_online ctx")
    case False
    then have "e' = e" "d' = d1" "ws = w1" using run unfolding apply_event_def r1 by simp_all
    then show ?thesis using s1 False
      by (auto simp: event_entry_def event_spec_def state_of_def change_reports_def Let_def same_shell_def
          same_wiring_def)
  next
    case on: True
    let ?sup = "settling now e \<and> ?on \<noteq> (commandedOnOff e \<noteq> 0)"
    obtain d2 w2 where r2: "(if \<not> ?sup \<and> base_IsOn (dev_api K) (dv_base d1) \<noteq> ?on
        then dev_SetOnOff K ?on d1 else (d1, [])) = (d2, w2)" by (rule prod.exhaust)
    note s2 = on_off_stage [OF i dd w1(1) r2]
    then have w2: "wired d2" "is_dimmer d2 = is_dimmer d"
      using w1 same_shell_wired(1,3) [of d1 d2] by simp_all
    note sup = on_off_suppressed_eq [OF rng(1), of now ?on]
    show ?thesis
    proof (cases "bl_is_dimmable e \<and> cx_level ctx \<ge> 0")
      case False
      then have "e' = clear_expired now e" "d' = d2" "ws = w1 @ w2"
        using run on unfolding apply_event_def r1 Let_def prod.case sup r2
        by (auto simp: Let_def)
      then show ?thesis using s1 s2 on False
        by (auto simp: event_entry_def clear_expired_def event_spec_def state_of_def change_reports_def Let_def
            same_shell_def same_wiring_def)
    next
      case lv: True
      let ?l = "wemo_to_matter (cx_level ctx)"
      let ?lsup = "level_settling now e \<and> uint ?l \<noteq> commandedLevel e"
      have ls: "level_settling now (clear_expired now e) = level_settling now e"
        by (simp add: level_settling_def)
      note lsup = level_suppressed_eq [of "clear_expired now e" now ?l, unfolded clear_expired_fields ls,
          OF rng(2,3)]
      obtain d3 w3 where r3: "(if \<not> ?lsup \<and> GetLevel d2 \<noteq> ?l then SetLevel K ?l d2 else (d2, [])) = (d3, w3)"
        by (rule prod.exhaust)
      note s3 = level_stage [OF i w2(1) _ r3]
      have q: "(e', d', ws) = ((if commandedLevel e \<ge> 0 \<and> now > commandedLevelUntil e
          then (clear_expired now e)\<lparr>commandedLevel := - 1\<rparr> else clear_expired now e), d3, w1 @ w2 @ w3)"
        using run on lv unfolding apply_event_def r1 Let_def prod.case sup r2 lsup r3
        by (simp add: Let_def lsup r3)
      then have "e' = event_entry now ctx e" "d' = d3" "ws = w1 @ w2 @ w3"
        using on lv by (auto simp: event_entry_def clear_expired_def Let_def)
      then show ?thesis using s1 s2 s3 w2(2) dim on lv
        by (auto simp: event_spec_def state_of_def change_reports_def Let_def same_shell_def same_wiring_def dview_def)
    qed
  qed
qed

lemma event_entry_fields [simp]:
  "bl_device (event_entry now ctx e) = bl_device e" "bl_udn (event_entry now ctx e) = bl_udn e"
  "bl_is_dimmable (event_entry now ctx e) = bl_is_dimmable e"
  "bl_wemo_id (event_entry now ctx e) = bl_wemo_id e"
  "commandedOnOffUntil (event_entry now ctx e) = commandedOnOffUntil e"
  "commandedLevelUntil (event_entry now ctx e) = commandedLevelUntil e"
  by (simp_all add: event_entry_def Let_def)

lemma event_entry_ranges:
  "commandedOnOff e \<in> {- 1, 0, 1} \<Longrightarrow> commandedOnOff (event_entry now ctx e) \<in> {- 1, 0, 1}"
  "- 1 \<le> commandedLevel e \<Longrightarrow> commandedLevel e \<le> 255 \<Longrightarrow>
   - 1 \<le> commandedLevel (event_entry now ctx e) \<and> commandedLevel (event_entry now ctx e) \<le> 255"
  by (auto simp: event_entry_def Let_def)

text \<open>An event for a published light, on the whole bridge.\<close>

lemma event_on_bridge:
  assumes i: "ids_documented (ids K)" and dd: "device_documented (ids K) (dev_api K)"
    and ok: "bridge_ok K V b"
    and f: "find (\<lambda>entry. bl_wemo_id entry = cx_wemo_id ctx) (gBridgedWemoLights b) = Some e"
    and h: "heap b (bl_device e) = Some d"
  obtains d' where
    "HandleWemoEventOnMatterThread K now ctx b =
       Inr (put_device K (bl_device e)
         (d', change_reports K (view_endpoint (dview K d)) (state_of K d) (state_of K d'))
         (b\<lparr>gBridgedWemoLights := update_first (\<lambda>entry. bl_wemo_id entry = cx_wemo_id ctx)
           (event_entry now ctx) (gBridgedWemoLights b)\<rparr>))"
    "state_of K d' = event_spec now ctx e (state_of K d)" "same_wiring K d d'"
    "view_name (dview K d') = view_name (dview K d)"
proof -
  have e: "e \<in> set (gBridgedWemoLights b)" using f by (auto simp: find_Some_iff)
  have l: "wired d" "is_dimmer d = bl_is_dimmable e" "commandedOnOff e \<in> {- 1, 0, 1}"
    "- 1 \<le> commandedLevel e" "commandedLevel e \<le> 255"
    using bridge_okD(2) [OF ok e] h by (simp_all add: light_ok_def)
  obtain e' d' ws where run: "apply_event K now ctx e d = (e', d', ws)" by (rule prod_cases3)
  note s = apply_event_refines [OF i dd l run]
  have "HandleWemoEventOnMatterThread K now ctx b =
       Inr (put_device K (bl_device e)
         (d', change_reports K (view_endpoint (dview K d)) (state_of K d) (state_of K d'))
         (b\<lparr>gBridgedWemoLights := update_first (\<lambda>entry. bl_wemo_id entry = cx_wemo_id ctx)
           (event_entry now ctx) (gBridgedWemoLights b)\<rparr>))"
    using s l(2) wired_is_on_off [OF l(1)]
    by (simp add: HandleWemoEventOnMatterThread_def f h run update_first_const [OF f, of "event_entry now ctx"])
  with s show ?thesis by (intro that [of d']) simp_all
qed

lemma event_keeps:
  assumes i: "ids_documented (ids K)" and dd: "device_documented (ids K) (dev_api K)"
    and ok: "bridge_ok K V b"
  shows "\<exists>b'. HandleWemoEventOnMatterThread K now ctx b = Inr b' \<and> bridge_ok K V b' \<and> threads b' = threads b"
proof (cases "find (\<lambda>entry. bl_wemo_id entry = cx_wemo_id ctx) (gBridgedWemoLights b)")
  case None
  then show ?thesis using ok by (simp add: HandleWemoEventOnMatterThread_def)
next
  case (Some e)
  then have e: "e \<in> set (gBridgedWemoLights b)" by (auto simp: find_Some_iff)
  obtain d where h: "heap b (bl_device e) = Some d"
    using bridge_okD(2) [OF ok e] by (auto simp: light_ok_def)
  let ?b = "b\<lparr>gBridgedWemoLights := update_first (\<lambda>entry. bl_wemo_id entry = cx_wemo_id ctx)
           (event_entry now ctx) (gBridgedWemoLights b)\<rparr>"
  have ok1: "bridge_ok K V ?b"
    by (rule bridge_ok_update_first [OF ok]) (simp_all add: event_entry_ranges del: insert_iff)
  obtain d' where d': "HandleWemoEventOnMatterThread K now ctx b =
       Inr (put_device K (bl_device e)
         (d', change_reports K (view_endpoint (dview K d)) (state_of K d) (state_of K d')) ?b)"
    "same_wiring K d d'"
    by (rule event_on_bridge [OF i dd ok Some h])
  have "heap ?b (bl_device e) = Some d" using h by simp
  from bridge_ok_put [OF ok1 this d'(2)] d'(1) show ?thesis by simp
qed

section \<open>Properties\<close>

text \<open>
  C12. An engine event for a published light does to it exactly what the specification says:
  reachability follows the event at once; on/off and level are taken over unless a different
  command is still settling; every attribute that changed is reported once and nothing else
  is; the expired windows of that light are closed; no other device changes and no command
  is sent back to the engine. An event for an unknown id changes nothing.
\<close>

theorem event_refines_spec:
  assumes "chip_documented K V" and ok: "bridge_ok K V b" and q: "queue_open K"
    and f: "find (\<lambda>entry. bl_wemo_id entry = cx_wemo_id ctx) (gBridgedWemoLights b) = Some e"
    and h: "heap b (bl_device e) = Some d"
    and none: "\<forall>entry\<in>set (gBridgedWemoLights b). bl_wemo_id entry \<noteq> cx_wemo_id other"
  shows "(\<exists>b' d'. HandleWemoEventOnMatterThread K now ctx b = Inr b' \<and> bridge_ok K V b' \<and>
      heap b' = (heap b)(bl_device e \<mapsto> d') \<and>
      state_of K d' = event_spec now ctx e (state_of K d) \<and>
      work b' = work b @ change_reports K (view_endpoint (dview K d)) (state_of K d) (state_of K d') \<and>
      gBridgedWemoLights b' = update_first (\<lambda>entry. bl_wemo_id entry = cx_wemo_id ctx)
        (event_entry now ctx) (gBridgedWemoLights b) \<and>
      threads b' = threads b) \<and>
    HandleWemoEventOnMatterThread K now other b = Inr b"
proof (rule conjI)
  note c = chip_parts [OF assms(1)]
  obtain d' where d': "HandleWemoEventOnMatterThread K now ctx b =
       Inr (put_device K (bl_device e)
         (d', change_reports K (view_endpoint (dview K d)) (state_of K d) (state_of K d'))
         (b\<lparr>gBridgedWemoLights := update_first (\<lambda>entry. bl_wemo_id entry = cx_wemo_id ctx)
           (event_entry now ctx) (gBridgedWemoLights b)\<rparr>))"
    "state_of K d' = event_spec now ctx e (state_of K d)"
    by (rule event_on_bridge [OF c(1,2) ok f h])
  from event_keeps [OF c(1,2) ok, of now ctx] d'
  show "\<exists>b' d'. HandleWemoEventOnMatterThread K now ctx b = Inr b' \<and> bridge_ok K V b' \<and>
      heap b' = (heap b)(bl_device e \<mapsto> d') \<and>
      state_of K d' = event_spec now ctx e (state_of K d) \<and>
      work b' = work b @ change_reports K (view_endpoint (dview K d)) (state_of K d) (state_of K d') \<and>
      gBridgedWemoLights b' = update_first (\<lambda>entry. bl_wemo_id entry = cx_wemo_id ctx)
        (event_entry now ctx) (gBridgedWemoLights b) \<and>
      threads b' = threads b"
    by (intro exI [of _ "put_device K (bl_device e)
         (d', change_reports K (view_endpoint (dview K d)) (state_of K d) (state_of K d'))
         (b\<lparr>gBridgedWemoLights := update_first (\<lambda>entry. bl_wemo_id entry = cx_wemo_id ctx)
           (event_entry now ctx) (gBridgedWemoLights b)\<rparr>)"] exI [of _ d'])
      (simp add: put_device_work [OF q])
  have "find (\<lambda>entry. bl_wemo_id entry = cx_wemo_id other) (gBridgedWemoLights b) = None"
    using none by (simp add: find_None_iff)
  then show "HandleWemoEventOnMatterThread K now other b = Inr b"
    by (simp add: HandleWemoEventOnMatterThread_def)
qed

definition lamp_event :: "bool \<Rightarrow> int \<Rightarrow> int \<Rightarrow> wemo_event_context" where
  "lamp_event online st lv = \<lparr>cx_wemo_id = 7, cx_is_online = online, cx_state = st, cx_level = lv\<rparr>"

lemma lamp_find: "cx_wemo_id ctx = 7 \<Longrightarrow>
    find (\<lambda>entry. bl_wemo_id entry = cx_wemo_id ctx) (gBridgedWemoLights lamp_bridge) = Some lamp_light"
  by (simp add: lamp_facts)

theorem event_refines_spec_witness:
  "\<exists>b' d'. HandleWemoEventOnMatterThread mem_chip 0 (lamp_event True 1 40) lamp_bridge = Inr b' \<and>
     heap b' 0 = Some d' \<and> state_of mem_chip d' = \<lparr>ls_reachable = True, ls_on = True, ls_level = 101\<rparr>"
proof -
  have id: "cx_wemo_id (lamp_event True 1 40) = 7" by (simp add: lamp_event_def)
  have none: "\<forall>entry\<in>set (gBridgedWemoLights lamp_bridge). bl_wemo_id entry \<noteq>
      cx_wemo_id (lamp_event True 1 40\<lparr>cx_wemo_id := 8\<rparr>)"
    by (simp add: lamp_facts)
  from event_refines_spec [OF mem_chip_documented lamp_bridge_ok mem_queue_open lamp_find [OF id]
      lamp_facts(13) none, of 0, THEN conjunct1]
  obtain b' d' where b: "HandleWemoEventOnMatterThread mem_chip 0 (lamp_event True 1 40) lamp_bridge = Inr b'"
    "heap b' = (heap lamp_bridge)(bl_device lamp_light \<mapsto> d')"
    and s: "state_of mem_chip d' = event_spec 0 (lamp_event True 1 40) lamp_light (state_of mem_chip lamp_device)"
    by blast
  have "wemo_to_matter 40 = 101" by (simp add: wemo_to_matter_def to_u16_def)
  then have "state_of mem_chip d' = \<lparr>ls_reachable = True, ls_on = True, ls_level = 101\<rparr>"
    unfolding s by (simp add: event_spec_def lamp_event_def lamp_facts settling_def level_settling_def)
  with b show ?thesis by (auto simp: lamp_facts)
qed

text \<open>
  C24. Convergence. Once the windows of a dimmer have run out, one online event with a level
  makes the bridge show exactly what the engine reported: reachable, the reported on/off
  state and the level converted from the reported percentage.
\<close>

theorem event_converges:
  assumes "chip_documented K V" and ok: "bridge_ok K V b"
    and f: "find (\<lambda>entry. bl_wemo_id entry = cx_wemo_id ctx) (gBridgedWemoLights b) = Some e"
    and h: "heap b (bl_device e) = Some d" and dim: "bl_is_dimmable e"
    and late: "commandedOnOffUntil e < now" "commandedLevelUntil e < now"
    and ev: "cx_is_online ctx" "0 \<le> cx_level ctx" "cx_level ctx \<le> 100"
  shows "\<exists>b' d'. HandleWemoEventOnMatterThread K now ctx b = Inr b' \<and> heap b' (bl_device e) = Some d' \<and>
    ls_reachable (state_of K d') \<and> ls_on (state_of K d') = (cx_state ctx \<noteq> 0) \<and>
    uint (ls_level (state_of K d')) = cx_level ctx * 254 div 100"
proof -
  note c = chip_parts [OF assms(1)]
  obtain d' where d': "HandleWemoEventOnMatterThread K now ctx b =
       Inr (put_device K (bl_device e)
         (d', change_reports K (view_endpoint (dview K d)) (state_of K d) (state_of K d'))
         (b\<lparr>gBridgedWemoLights := update_first (\<lambda>entry. bl_wemo_id entry = cx_wemo_id ctx)
           (event_entry now ctx) (gBridgedWemoLights b)\<rparr>))"
    "state_of K d' = event_spec now ctx e (state_of K d)"
    by (rule event_on_bridge [OF c(1,2) ok f h])
  have "\<not> settling now e" "\<not> level_settling now e" using late by (simp_all add: settling_def level_settling_def)
  then have "ls_reachable (state_of K d')" "ls_on (state_of K d') = (cx_state ctx \<noteq> 0)"
    "ls_level (state_of K d') = wemo_to_matter (cx_level ctx)"
    using d'(2) ev dim by (simp_all add: event_spec_def)
  with d'(1) uint_wemo_to_matter_percent [OF ev(2,3)] show ?thesis by simp
qed

theorem event_converges_witness:
  "\<exists>b' d'. HandleWemoEventOnMatterThread mem_chip 5 (lamp_event True 0 100) lamp_bridge = Inr b' \<and>
     heap b' 0 = Some d' \<and> uint (ls_level (state_of mem_chip d')) = 254"
proof -
  have id: "cx_wemo_id (lamp_event True 0 100) = 7" by (simp add: lamp_event_def)
  have t: "commandedOnOffUntil lamp_light < 5" "commandedLevelUntil lamp_light < 5"
    by (simp_all add: lamp_light_def)
  have ev: "cx_is_online (lamp_event True 0 100)" "0 \<le> cx_level (lamp_event True 0 100)"
    "cx_level (lamp_event True 0 100) \<le> 100"
    by (simp_all add: lamp_event_def)
  from event_converges [OF mem_chip_documented lamp_bridge_ok lamp_find [OF id] lamp_facts(13,4) t ev]
  show ?thesis by (auto simp: lamp_facts lamp_event_def)
qed

end
