(* ===== verification/Startup.thy ===== *)
theory Startup
  imports Events "HOL-Library.Multiset" "HOL-Library.List_Lexorder" "HOL-Library.Char_ord"
begin

text \<open>
  \<open>ApplicationInit\<close> of \<^verbatim>\<open>matter-bridge-app/main.cpp\<close>: discovery, the ordering of the
  discovered devices, the publication of each as a dynamic endpoint, and the registration of
  the state callback. Publication depends only on the set of devices, never faults, and
  leaves a bridge that satisfies the invariant.
\<close>

section \<open>The order of publication\<close>

text \<open>The comparison passed to \<open>std::sort\<close>, as the order of a key type.\<close>

datatype device_key = DeviceKey (key_udn: string) (key_name: string)

definition device_before :: "device_key \<Rightarrow> device_key \<Rightarrow> bool" where
  "device_before a b =
     (if key_udn a \<noteq> key_udn b then key_udn a < key_udn b else key_name a < key_name b)"

instantiation device_key :: linorder
begin

definition less_device_key :: "device_key \<Rightarrow> device_key \<Rightarrow> bool" where
  "less_device_key a b = device_before a b"

definition less_eq_device_key :: "device_key \<Rightarrow> device_key \<Rightarrow> bool" where
  "less_eq_device_key a b = (a = b \<or> a < b)"

instance
proof
  fix x y z :: device_key
  show "(x < y) = (x \<le> y \<and> \<not> y \<le> x)"
    by (auto simp: less_device_key_def device_before_def less_eq_device_key_def split: if_splits)
  show "x \<le> x" by (simp add: less_eq_device_key_def)
  show "x \<le> y \<Longrightarrow> y \<le> z \<Longrightarrow> x \<le> z"
    by (auto simp: less_device_key_def device_before_def less_eq_device_key_def split: if_splits)
  show "x \<le> y \<Longrightarrow> y \<le> x \<Longrightarrow> x = y"
    by (auto simp: less_device_key_def device_before_def less_eq_device_key_def split: if_splits)
  show "x \<le> y \<or> y \<le> x"
    by (cases x; cases y) (auto simp: less_device_key_def device_before_def less_eq_device_key_def)
qed

end

definition key_of_device :: "wemo_device \<Rightarrow> device_key" where
  "key_of_device d = DeviceKey (wd_udn d) (wd_friendly_name d)"

text \<open>
  The sorted list. Devices that agree in UDN and name may come in either order from
  \<open>std::sort\<close>; here they keep the order of discovery.
\<close>

definition sort_devices :: "wemo_device list \<Rightarrow> wemo_device list" where
  "sort_devices ds = sort_key key_of_device ds"

lemma sort_key_unique:
  assumes "inj_on f (set xs)" and "mset ys = mset xs" and "sorted (map f ys)"
  shows "ys = sort_key f xs"
proof -
  have s: "set ys = set xs" using assms(2) by (rule mset_eq_setD)
  have "filter (\<lambda>x. f k = f x) ys = filter (\<lambda>x. f k = f x) xs" if "k \<in> set ys" for k
  proof -
    have "filter (\<lambda>x. f k = f x) zs = replicate (count (mset zs) k) k" if "set zs = set xs" for zs
    proof -
      have "filter (\<lambda>x. f k = f x) zs = filter (\<lambda>x. k = x) zs"
        using assms(1) \<open>k \<in> set ys\<close> s that by (intro filter_cong) (auto dest: inj_onD)
      then show ?thesis by (simp add: replicate_count_mset_eq_filter_eq)
    qed
    then show ?thesis using s assms(2) by simp
  qed
  from properties_for_sort_key [OF assms(2) this assms(3)] show ?thesis by simp
qed

section \<open>Publishing one device\<close>

definition DEVICE_TYPE_BRIDGED_NODE :: u32 where "DEVICE_TYPE_BRIDGED_NODE = 0x0013"
definition DEVICE_TYPE_LO_ON_OFF_LIGHT :: u32 where "DEVICE_TYPE_LO_ON_OFF_LIGHT = 0x0100"
definition DEVICE_TYPE_LO_DIMMABLE_LIGHT :: u32 where "DEVICE_TYPE_LO_DIMMABLE_LIGHT = 0x0101"
definition DEVICE_TYPE_POWER_SOURCE :: u32 where "DEVICE_TYPE_POWER_SOURCE = 0x0011"
definition DEVICE_TYPE_TEMP_SENSOR :: u32 where "DEVICE_TYPE_TEMP_SENSOR = 0x0302"
definition DEVICE_VERSION_DEFAULT :: u8 where "DEVICE_VERSION_DEFAULT = 1"

definition gBridgedOnOffDeviceTypes :: "(u32 \<times> u8) list" where
  "gBridgedOnOffDeviceTypes =
     [(DEVICE_TYPE_LO_ON_OFF_LIGHT, DEVICE_VERSION_DEFAULT), (DEVICE_TYPE_BRIDGED_NODE, DEVICE_VERSION_DEFAULT)]"

definition gBridgedDimmableDeviceTypes :: "(u32 \<times> u8) list" where
  "gBridgedDimmableDeviceTypes =
     [(DEVICE_TYPE_LO_DIMMABLE_LIGHT, DEVICE_VERSION_DEFAULT), (DEVICE_TYPE_BRIDGED_NODE, DEVICE_VERSION_DEFAULT)]"

text \<open>The device types of the composed device and the sensors, which are never published.\<close>

definition gBridgedComposedDeviceTypes :: "(u32 \<times> u8) list" where
  "gBridgedComposedDeviceTypes =
     [(DEVICE_TYPE_BRIDGED_NODE, DEVICE_VERSION_DEFAULT), (DEVICE_TYPE_POWER_SOURCE, DEVICE_VERSION_DEFAULT)]"

definition gComposedTempSensorDeviceTypes :: "(u32 \<times> u8) list" where
  "gComposedTempSensorDeviceTypes = [(DEVICE_TYPE_TEMP_SENSOR, DEVICE_VERSION_DEFAULT)]"

definition gBridgedTempSensorDeviceTypes :: "(u32 \<times> u8) list" where
  "gBridgedTempSensorDeviceTypes =
     [(DEVICE_TYPE_TEMP_SENSOR, DEVICE_VERSION_DEFAULT), (DEVICE_TYPE_BRIDGED_NODE, DEVICE_VERSION_DEFAULT)]"

definition light_name :: "wemo_device \<Rightarrow> string" where
  "light_name dev = (if wd_friendly_name dev = '''' then ''WeMo Device'' else wd_friendly_name dev)"

text \<open>
  The new device object with its state seeded from the discovered device. No callback is
  installed yet, so the setters schedule nothing; what they return is scheduled all the same.
\<close>

definition seed_light :: "('d, 'e) chip \<Rightarrow> wemo_device \<Rightarrow> 'd device_object \<times> work_item list" where
  "seed_light K dev =
     (let name = cstr (light_name dev)
      in if wd_supports_level dev
         then let (d, w1) = dev_SetOnOff K (wd_onoff dev \<noteq> 0) (make_DeviceDimmable K name ''WeMo'');
                  (d, w2) = SetLevel K (wemo_to_matter (uint (wd_level_percent dev))) d;
                  (d, w3) = dev_SetReachable K (wd_is_online dev) d
              in (d, w1 @ w2 @ w3)
         else let (d, w1) = dev_SetOnOff K (wd_onoff dev \<noteq> 0) (make_DeviceOnOff K name ''WeMo'');
                  (d, w2) = dev_SetReachable K (wd_is_online dev) d
              in (d, w1 @ w2))"

definition new_light :: "wemo_device \<Rightarrow> nat \<Rightarrow> bridged_light" where
  "new_light dev p =
     \<lparr>bl_wemo_id = wd_wemo_id dev, bl_udn = wd_udn dev, bl_is_dimmable = wd_supports_level dev,
      bl_device = p, commandedOnOff = - 1, commandedLevel = - 1, commandedOnOffUntil = 0,
      commandedLevelUntil = 0\<rparr>"

definition light_type :: "wemo_device \<Rightarrow> endpoint_type" where
  "light_type dev = (if wd_supports_level dev then bridgedDimmableLightEndpoint else bridgedLightEndpoint)"

definition light_device_types :: "wemo_device \<Rightarrow> (u32 \<times> u8) list" where
  "light_device_types dev =
     (if wd_supports_level dev then gBridgedDimmableDeviceTypes else gBridgedOnOffDeviceTypes)"

definition endpointCapacity :: nat where
  "endpointCapacity = CHIP_DEVICE_CONFIG_DYNAMIC_ENDPOINT_COUNT"

text \<open>The body of the publication loop; \<^term>\<open>None\<close> when \<open>AddDeviceEndpoint\<close> does not return.\<close>

definition publish_device ::
    "('d, 'e) chip \<Rightarrow> wemo_device \<Rightarrow> ('d, 'e) bridge \<Rightarrow> ('d, 'e) bridge option" where
  "publish_device K dev b =
     (if length (gBridgedWemoLights b) \<ge> endpointCapacity then Some b
      else let p = next_object b;
               b = put_device K p (seed_light K dev) (b\<lparr>next_object := p + 1\<rparr>);
               b = b\<lparr>gBridgedWemoLights := gBridgedWemoLights b @ [new_light dev p]\<rparr>;
               clusterCount = length (endpoint_clusters (ids K) (light_type dev))
           in (case AddDeviceEndpoint K p (light_type dev) (light_device_types dev) clusterCount 1 b of
                 None \<Rightarrow> None
               | Some (addedIndex, b) \<Rightarrow>
                   if addedIndex < 0
                   then Some (b\<lparr>gBridgedWemoLights := butlast (gBridgedWemoLights b), heap := (heap b)(p := None)\<rparr>)
                   else let b = (if wd_supports_level dev
                                 then on_object p (DeviceDimmable_SetChangeCallback CbDimmableStatusChanged)
                                   (b\<lparr>ember := emberAfLevelControlClusterServerInitCallback (ember_api K)
                                        (case heap b p of Some d \<Rightarrow> base_GetEndpointId (dev_api K) (dv_base d)
                                         | None \<Rightarrow> 0) (ember b)\<rparr>)
                                 else on_object p (DeviceOnOff_SetChangeCallback CbOnOffStatusChanged) b)
                        in Some (b\<lparr>gWemoDeviceToUdn := (gWemoDeviceToUdn b)(p \<mapsto> wd_udn dev)\<rparr>)))"

fun publish_devices ::
    "('d, 'e) chip \<Rightarrow> wemo_device list \<Rightarrow> ('d, 'e) bridge \<Rightarrow> ('d, 'e) bridge option" where
  "publish_devices K [] b = Some b"
| "publish_devices K (dev # devs) b =
     (case publish_device K dev b of None \<Rightarrow> None | Some b \<Rightarrow> publish_devices K devs b)"

text \<open>The device database is cleared and the id range of the dynamic endpoints is set.\<close>

definition reset_bridge :: "('d, 'e) chip \<Rightarrow> ('d, 'e) bridge \<Rightarrow> ('d, 'e) bridge" where
  "reset_bridge K b =
     (let M = ember_api K;
          last_fixed = emberAfEndpointFromIndex M (emberAfFixedEndpointCount M (ember b) - 1) (ember b);
          first = to_u16 (uint last_fixed + 1);
          old = map bl_device (gBridgedWemoLights b)
      in b\<lparr>gDevices := replicate 17 None, gBridgedWemoLights := [], gWemoDeviceToUdn := Map.empty,
           heap := (\<lambda>p. if p \<in> set old then None else heap b p),
           gFirstDynamicEndpointId := first, gCurrentEndpointId := first,
           ember := emberAfEndpointEnableDisable M last_fixed False (ember b)\<rparr>)"

text \<open>The callback the adapter holds: the lambda that schedules the event.\<close>

datatype state_callback = CbOnWemoStateEvent

definition ApplicationInit ::
    "('d, 'e) chip \<Rightarrow> 'g engine \<Rightarrow> ('d, 'e) bridge \<Rightarrow> ('g, state_callback) adapter \<Rightarrow>
     (('d, 'e) bridge \<times> ('g, state_callback) adapter) option" where
  "ApplicationInit K E b a =
     (let (discovered, a) = Discover E a
      in (case publish_devices K (sort_devices discovered) (reset_bridge K b) of
            None \<Rightarrow> None
          | Some b \<Rightarrow>
              (let a = RegisterStateCallback E (Some CbOnWemoStateEvent) a;
                   a = Refresh E a
               in Some (b, a))))"

section \<open>The seeded light\<close>

definition light_class :: "wemo_device \<Rightarrow> device_class" where
  "light_class dev = (if wd_supports_level dev then CDeviceDimmable else CDeviceOnOff)"

text \<open>The state a discovered device is published with.\<close>

definition initial_state :: "wemo_device \<Rightarrow> light_state" where
  "initial_state dev =
     \<lparr>ls_reachable = wd_is_online dev, ls_on = (wd_onoff dev \<noteq> 0),
      ls_level = (if wd_supports_level dev then wemo_to_matter (uint (wd_level_percent dev)) else 0)\<rparr>"

definition initial_name :: "wemo_device \<Rightarrow> string" where
  "initial_name dev = take 31 (cstr (light_name dev))"

lemma unwired_make: "unwired (make_DeviceDimmable K n l)" "unwired (make_DeviceOnOff K n l)"
  by (simp_all add: unwired_def make_DeviceDimmable_def make_DeviceOnOff_def)

lemma view_make:
  assumes "device_documented (ids K) (dev_api K)"
  shows "view_name (dview K (make_DeviceDimmable K n l)) = take 31 n"
    "view_name (dview K (make_DeviceOnOff K n l)) = take 31 n"
  using device_laws(15) [OF assms] by (simp_all add: dview_def make_DeviceDimmable_def make_DeviceOnOff_def)

lemma seed_light_law:
  assumes i: "ids_documented (ids K)" and dd: "device_documented (ids K) (dev_api K)"
    and run: "seed_light K dev = (d, w)"
  shows "w = [] \<and> unwired d \<and> dv_class d = light_class dev \<and> state_of K d = initial_state dev \<and>
    view_name (dview K d) = initial_name dev"
proof (cases "wd_supports_level dev")
  case True
  let ?m = "make_DeviceDimmable K (cstr (light_name dev)) ''WeMo''"
  obtain d1 w1 where s1: "dev_SetOnOff K (wd_onoff dev \<noteq> 0) ?m = (d1, w1)" by (rule prod.exhaust)
  obtain d2 w2 where s2: "SetLevel K (wemo_to_matter (uint (wd_level_percent dev))) d1 = (d2, w2)"
    by (rule prod.exhaust)
  obtain d3 w3 where s3: "dev_SetReachable K (wd_is_online dev) d2 = (d3, w3)" by (rule prod.exhaust)
  have r: "d = d3" "w = w1 @ w2 @ w3" using run True s1 s2 s3 by (simp_all add: seed_light_def Let_def)
  note l1 = dev_SetOnOff_law [OF i dd s1]
  then have u1: "unwired d1" "w1 = []" using same_shell_wired(2) [of ?m d1] by (simp_all add: unwired_make)
  note l2 = SetLevel_law [OF i s2]
  then have u2: "unwired d2" "w2 = []" using u1 by (simp_all add: unwired_def)
  note l3 = dev_SetReachable_law [OF i dd s3]
  then have "unwired d3" "w3 = []" using u2 same_shell_wired(2) [of d2 d3] by simp_all
  moreover have "dview K d2 = dview K d1" using l2 by (simp add: dview_def)
  ultimately show ?thesis
    using l1 l2 l3 u1 u2 r True view_make(1) [OF dd, of "cstr (light_name dev)" "''WeMo''"]
    by (simp add: state_of_def initial_state_def initial_name_def light_class_def same_shell_def)
      (simp add: make_DeviceDimmable_def)
next
  case False
  let ?m = "make_DeviceOnOff K (cstr (light_name dev)) ''WeMo''"
  obtain d1 w1 where s1: "dev_SetOnOff K (wd_onoff dev \<noteq> 0) ?m = (d1, w1)" by (rule prod.exhaust)
  obtain d3 w3 where s3: "dev_SetReachable K (wd_is_online dev) d1 = (d3, w3)" by (rule prod.exhaust)
  have r: "d = d3" "w = w1 @ w3" using run False s1 s3 by (simp_all add: seed_light_def Let_def)
  note l1 = dev_SetOnOff_law [OF i dd s1]
  then have u1: "unwired d1" "w1 = []" using same_shell_wired(2) [of ?m d1] by (simp_all add: unwired_make)
  note l3 = dev_SetReachable_law [OF i dd s3]
  then have "unwired d3" "w3 = []" using u1 same_shell_wired(2) [of d1 d3] by simp_all
  then show ?thesis
    using l1 l3 u1 r False view_make(2) [OF dd, of "cstr (light_name dev)" "''WeMo''"]
    by (simp add: state_of_def initial_state_def initial_name_def light_class_def same_shell_def)
      (simp add: make_DeviceOnOff_def)
qed

lemma light_class_kind:
  "dv_class d = light_class dev \<Longrightarrow>
   is_on_off d \<and> is_dimmer d = wd_supports_level dev \<and> type_of_light d = light_type dev"
  by (auto simp: light_class_def is_on_off_def is_dimmer_def type_of_light_def light_type_def split: if_splits)

lemma schedule_none [simp]: "schedule_all K [] b = b"
  by (simp add: schedule_all_def)

section \<open>Publishing keeps the invariant\<close>

lemma published_live:
  assumes "bridge_ok K V b" and "r \<in> published b"
  shows "r < next_object b" "heap b r \<noteq> None"
proof -
  obtain e where "e \<in> set (gBridgedWemoLights b)" "r = bl_device e"
    using bridge_okD(4) [OF assms(1)] assms(2) by auto
  then show "heap b r \<noteq> None" using bridge_okD(2) [OF assms(1)] by (auto simp: light_ok_def)
  then show "r < next_object b" using bridge_okD(6) [OF assms(1)] by blast
qed

text \<open>The state in which \<open>AddDeviceEndpoint\<close> is called.\<close>

definition staged :: "('d, 'e) chip \<Rightarrow> wemo_device \<Rightarrow> 'd device_object \<Rightarrow> ('d, 'e) bridge \<Rightarrow> ('d, 'e) bridge" where
  "staged K dev d b =
     (put_device K (next_object b) (d, []) (b\<lparr>next_object := next_object b + 1\<rparr>))
       \<lparr>gBridgedWemoLights := gBridgedWemoLights b @ [new_light dev (next_object b)]\<rparr>"

lemma staged_fields [simp]:
  "heap (staged K dev d b) = (heap b)(next_object b \<mapsto> d)" "gDevices (staged K dev d b) = gDevices b"
  "gBridgedWemoLights (staged K dev d b) = gBridgedWemoLights b @ [new_light dev (next_object b)]"
  "gWemoDeviceToUdn (staged K dev d b) = gWemoDeviceToUdn b"
  "next_object (staged K dev d b) = next_object b + 1" "ember (staged K dev d b) = ember b"
  "threads (staged K dev d b) = threads b" "work (staged K dev d b) = work b"
  "gCurrentEndpointId (staged K dev d b) = gCurrentEndpointId b"
  "gFirstDynamicEndpointId (staged K dev d b) = gFirstDynamicEndpointId b"
  by (simp_all add: staged_def put_device_def)

lemma staged_ok:
  assumes "bridge_ok K V b"
  shows "table_ok K V (staged K dev d b)" "\<forall>i<16. gDevices (staged K dev d b) ! i \<noteq> Some (next_object b)"
proof -
  show "table_ok K V (staged K dev d b)"
    by (rule table_ok_elsewhere [OF bridge_okD(1) [OF assms]])
      (use published_live(1) [OF assms] in auto)
  show "\<forall>i<16. gDevices (staged K dev d b) ! i \<noteq> Some (next_object b)"
    using published_live(1) [OF assms, of "next_object b"] by (auto simp: published_def)
qed

lemma refused_ok:
  assumes ok: "bridge_ok K V b" and t: "table_ok K V b2" and rest: "same_rest (staged K dev d b) b2"
    and g: "gDevices b2 = gDevices b" and h: "\<forall>r. r \<noteq> next_object b \<longrightarrow> heap b2 r = heap b r"
  shows "bridge_ok K V (b2\<lparr>gBridgedWemoLights := butlast (gBridgedWemoLights b2),
      heap := (heap b2)(next_object b := None)\<rparr>)" (is "bridge_ok K V ?b")
proof -
  note D = bridge_okD [OF ok]
  note live = published_live(1) [OF ok]
  have l: "gBridgedWemoLights ?b = gBridgedWemoLights b" "gWemoDeviceToUdn ?b = gWemoDeviceToUdn b"
    "next_object ?b = next_object b + 1"
    using rest by (simp_all add: same_rest_def)
  have p: "published ?b = published b" "published b2 = published b" using g by (simp_all add: published_def)
  have "table_ok K V ?b"
    by (rule table_ok_elsewhere [OF t]) (use live p in auto)
  moreover have "light_ok ?b e" if "e \<in> set (gBridgedWemoLights b)" for e
  proof -
    have "bl_device e \<noteq> next_object b" using live [of "bl_device e"] D(4) that by auto
    then show ?thesis using D(2) [OF that] h l(2) by (simp add: light_ok_def)
  qed
  moreover have "r < next_object b + 1" if "r \<in> dom (heap ?b)" for r
  proof -
    have "r \<in> dom (heap b)" using that h by (auto split: if_splits)
    then show ?thesis using D(6) [of r] by simp
  qed
  ultimately show ?thesis
    unfolding bridge_ok_def l p using D(3-5) by blast
qed

lemma added_ok:
  assumes ok: "bridge_ok K V b" and t: "table_ok K V b2" and rest: "same_rest (staged K dev d b) b2"
    and i: "i < 16" "gDevices b ! i = None" and g: "gDevices b2 = (gDevices b)[i := Some (next_object b)]"
    and h: "\<forall>r. r \<noteq> next_object b \<longrightarrow> heap b2 r = heap b r" "heap b2 (next_object b) = Some d2"
    and d2: "dv_class d2 = light_class dev"
    and d3: "d3 = (if wd_supports_level dev then DeviceDimmable_SetChangeCallback CbDimmableStatusChanged d2
        else DeviceOnOff_SetChangeCallback CbOnOffStatusChanged d2)"
    and b3: "gDevices b3 = gDevices b2" "heap b3 = (heap b2)(next_object b \<mapsto> d3)"
      "V (ember b3) = V (ember b2)" "gCurrentEndpointId b3 = gCurrentEndpointId b2"
      "gFirstDynamicEndpointId b3 = gFirstDynamicEndpointId b2"
      "gBridgedWemoLights b3 = gBridgedWemoLights b2" "next_object b3 = next_object b2"
      "gWemoDeviceToUdn b3 = (gWemoDeviceToUdn b2)(next_object b \<mapsto> wd_udn dev)"
  shows "bridge_ok K V b3"
proof -
  note D = bridge_okD [OF ok]
  note live = published_live(1) [OF ok]
  let ?p = "next_object b"
  have w3: "wired d3"
    using d2 unfolding d3 light_class_def by (auto intro: SetChangeCallback_wired split: if_splits)
  have c3: "dv_class d3 = light_class dev"
    using d2 by (simp add: d3 DeviceDimmable_SetChangeCallback_def DeviceOnOff_SetChangeCallback_def)
  have v3: "view_endpoint (dview K d3) = view_endpoint (dview K d2)"
    by (simp add: d3 dview_def DeviceDimmable_SetChangeCallback_def DeviceOnOff_SetChangeCallback_def)
  have "table_ok K V b3"
    by (rule table_ok_put [OF t h(2)])
      (use light_class_kind [OF c3] light_class_kind [OF d2] v3 b3 in simp_all)
  moreover have lights: "gBridgedWemoLights b3 = gBridgedWemoLights b @ [new_light dev ?p]"
    using rest b3(6) by (simp add: same_rest_def)
  have udn: "gWemoDeviceToUdn b3 = (gWemoDeviceToUdn b)(?p \<mapsto> wd_udn dev)"
    using rest b3(8) by (simp add: same_rest_def)
  have fresh: "?p \<notin> bl_device ` set (gBridgedWemoLights b)"
    using live [of ?p] D(4) by auto
  have old: "light_ok b3 e" if "e \<in> set (gBridgedWemoLights b)" for e
  proof -
    have "bl_device e \<noteq> ?p" using fresh that by (metis imageI)
    then show ?thesis using D(2) [OF that] h(1) b3(2) udn by (simp add: light_ok_def)
  qed
  have new: "light_ok b3 (new_light dev ?p)"
    using w3 light_class_kind [OF c3] udn b3(2) by (simp add: light_ok_def new_light_def)
  have "published b3 = insert ?p (published b)"
  proof -
    have nth: "gDevices b3 ! j = (if j = i then Some ?p else gDevices b ! j)" if "j < 16" for j
      using that g b3(1) table_okD(1) [OF D(1)] by (simp add: nth_list_update)
    have "\<exists>j<16. gDevices b3 ! j = Some x" if "j < 16" "gDevices b ! j = Some x" for j x
      using that nth [OF that(1)] i(2) by (intro exI [of _ j]) auto
    moreover have "gDevices b3 ! i = Some ?p" using nth [OF i(1)] by simp
    moreover have "x = ?p \<or> (\<exists>j<16. gDevices b ! j = Some x)" if "j < 16" "gDevices b3 ! j = Some x" for j x
      using that nth [OF that(1)] by (cases "j = i") auto
    ultimately show ?thesis using i(1) unfolding published_def by blast
  qed
  moreover have "r < next_object b3" if "r \<in> dom (heap b3)" for r
  proof -
    have n: "next_object b3 = ?p + 1" using b3(7) rest by (simp add: same_rest_def)
    have "r = ?p \<or> r \<in> dom (heap b)" using that h(1) b3(2) by (auto split: if_splits)
    then show ?thesis
    proof
      assume "r \<in> dom (heap b)"
      from D(6) [OF this] n show ?thesis by simp
    qed (use n in simp)
  qed
  ultimately show ?thesis
    unfolding bridge_ok_def lights udn using D(3-5) fresh old new
    by (auto simp: new_light_def)
qed

text \<open>
  The outcome of publishing one device: it was skipped or refused and the published lights
  are as before, or it is the new last light, in a slot that was free, with its initial
  state, under an id no endpoint used.
\<close>

definition kept :: "'e ember_view \<Rightarrow> ('d, 'e) bridge \<Rightarrow> ('d, 'e) bridge \<Rightarrow> bool" where
  "kept V b b' \<longleftrightarrow> gBridgedWemoLights b' = gBridgedWemoLights b \<and> gDevices b' = gDevices b \<and>
     V (ember b') = V (ember b) \<and> gWemoDeviceToUdn b' = gWemoDeviceToUdn b \<and>
     (\<forall>r\<in>published b. heap b' r = heap b r)"

definition published_as ::
    "('d, 'e) chip \<Rightarrow> 'e ember_view \<Rightarrow> wemo_device \<Rightarrow> nat \<Rightarrow> u16 \<Rightarrow> ('d, 'e) bridge \<Rightarrow> ('d, 'e) bridge \<Rightarrow> bool" where
  "published_as K V dev i ep b b' \<longleftrightarrow>
     gBridgedWemoLights b' = gBridgedWemoLights b @ [new_light dev (next_object b)] \<and>
     gDevices b' = (gDevices b)[i := Some (next_object b)] \<and>
     V (ember b') = (V (ember b))(i := Some (ep, light_type dev)) \<and>
     gWemoDeviceToUdn b' = (gWemoDeviceToUdn b)(next_object b \<mapsto> wd_udn dev) \<and>
     (\<forall>r\<in>published b. heap b' r = heap b r) \<and>
     (\<exists>d. heap b' (next_object b) = Some d \<and> state_of K d = initial_state dev \<and>
        view_name (dview K d) = initial_name dev \<and> view_endpoint (dview K d) = ep)"

text \<open>Publication leaves the queues, the start of the id range and all older objects alone.\<close>

definition left_alone :: "('d, 'e) bridge \<Rightarrow> ('d, 'e) bridge \<Rightarrow> bool" where
  "left_alone b b' \<longleftrightarrow> work b' = work b \<and> threads b' = threads b \<and>
     gFirstDynamicEndpointId b' = gFirstDynamicEndpointId b \<and> next_object b \<le> next_object b' \<and>
     (\<forall>r<next_object b. heap b' r = heap b r)"

definition publish_post ::
    "('d, 'e) chip \<Rightarrow> 'e ember_view \<Rightarrow> wemo_device \<Rightarrow> ('d, 'e) bridge \<Rightarrow> ('d, 'e) bridge \<Rightarrow> bool" where
  "publish_post K V dev b b' \<longleftrightarrow>
     (\<exists>d r b2. add_post K V (next_object b) (light_type dev) (light_device_types dev)
        (length (endpoint_clusters (ids K) (light_type dev))) 1 (staged K dev d b) r b2 \<and>
        gCurrentEndpointId b' = gCurrentEndpointId b2 \<and>
        (if r < 0 then kept V b b'
         else published_as K V dev (nat r) (gCurrentEndpointId b2) b b'))"

lemma publish_device_law:
  assumes i: "ids_documented (ids K)" and dd: "device_documented (ids K) (dev_api K)"
    and ed: "ember_documented (ember_api K) V" and ok: "bridge_ok K V b"
  obtains b' where "publish_device K dev b = Some b'" "bridge_ok K V b'" "left_alone b b'"
    "endpointCapacity \<le> length (gBridgedWemoLights b) \<and> b' = b \<or>
     length (gBridgedWemoLights b) < endpointCapacity \<and> publish_post K V dev b b'"
proof (cases "endpointCapacity \<le> length (gBridgedWemoLights b)")
  case True
  then have "publish_device K dev b = Some b" by (simp add: publish_device_def)
  then show ?thesis using that [of b] ok True by (simp add: left_alone_def)
next
  case False
  let ?p = "next_object b"
  have sd: "set_endpoint_documented (ember_api K) V"
    using ed unfolding ember_documented_def by (rule conjunct1)
  obtain d w where s: "seed_light K dev = (d, w)" by (rule prod.exhaust)
  note law = seed_light_law [OF i dd s]
  then have w: "w = []" by blast
  have kind: "is_on_off d" "type_of_light d = light_type dev"
    using light_class_kind [of d dev] law by simp_all
  let ?b1 = "staged K dev d b"
  have hp: "heap ?b1 ?p = Some d" by simp
  let ?n = "length (endpoint_clusters (ids K) (light_type dev))"
  obtain r b2 where add: "AddDeviceEndpoint K ?p (light_type dev) (light_device_types dev) ?n 1 ?b1 = Some (r, b2)"
    and post: "add_post K V ?p (light_type dev) (light_device_types dev) ?n 1 ?b1 r b2"
    using AddDeviceEndpoint_law [OF dd sd staged_ok(1) [OF ok] hp kind staged_ok(2) [OF ok],
        where ts = "light_device_types dev" and n = ?n and p = 1] by blast
  have st: "put_device K ?p (seed_light K dev) (b\<lparr>next_object := ?p + 1\<rparr>)
      \<lparr>gBridgedWemoLights := gBridgedWemoLights (put_device K ?p (seed_light K dev) (b\<lparr>next_object := ?p + 1\<rparr>))
         @ [new_light dev ?p]\<rparr> = ?b1"
    by (simp add: staged_def s w put_device_def)
  have t2: "table_ok K V b2" and rest: "same_rest ?b1 b2"
    and h2: "\<forall>x. x \<noteq> ?p \<longrightarrow> heap b2 x = heap b x"
    using post by (simp_all add: add_post_def)
  obtain d2 where d2: "heap b2 ?p = Some d2" "same_light K d d2"
    using post hp by (auto simp: add_post_def)
  have c2: "dv_class d2 = light_class dev" using d2(2) law by (simp add: same_light_def same_shell_def)
  have pub: "\<forall>x\<in>published b. x \<noteq> ?p" using published_live(1) [OF ok] by blast
  show ?thesis
  proof (cases "r < 0")
    case True
    then have g: "gDevices b2 = gDevices b" "V (ember b2) = V (ember b)" using post by (auto simp: add_post_def)
    let ?b3 = "b2\<lparr>gBridgedWemoLights := butlast (gBridgedWemoLights b2), heap := (heap b2)(?p := None)\<rparr>"
    have run: "publish_device K dev b = Some ?b3"
      unfolding publish_device_def Let_def st using False add True by simp
    have "kept V b ?b3"
      using rest g h2 pub by (simp add: kept_def same_rest_def)
    then have pp: "publish_post K V dev b ?b3"
      unfolding publish_post_def
      by (intro exI [of _ d] exI [of _ r] exI [of _ b2] conjI) (use post True in simp_all)
    have "left_alone b ?b3" using rest h2 by (simp add: left_alone_def same_rest_def)
    then show ?thesis
      using that [OF run refused_ok [OF ok t2 rest g(1) h2]] pp False by simp
  next
    case nonneg: False
    then obtain k where k: "k < 16" "r = int k" "gDevices b ! k = None"
      "gDevices b2 = (gDevices b)[k := Some ?p]" "V (ember b2) = (V (ember b))(k := Some (gCurrentEndpointId b2, light_type dev))"
      using post by (auto simp: add_post_def)
    have ep: "view_endpoint (dview K d2) = gCurrentEndpointId b2"
    proof -
      have "slot_ok K V b2 k" using table_okD(4) [OF t2 k(1)] .
      then show ?thesis using k(4,5) d2(1) table_okD(1) [OF bridge_okD(1) [OF ok]] k(1)
        by (simp add: slot_ok_def)
    qed
    let ?d3 = "if wd_supports_level dev then DeviceDimmable_SetChangeCallback CbDimmableStatusChanged d2
        else DeviceOnOff_SetChangeCallback CbOnOffStatusChanged d2"
    let ?e3 = "if wd_supports_level dev
        then emberAfLevelControlClusterServerInitCallback (ember_api K)
          (base_GetEndpointId (dev_api K) (dv_base d2)) (ember b2) else ember b2"
    let ?b3 = "b2\<lparr>heap := (heap b2)(?p \<mapsto> ?d3), ember := ?e3,
        gWemoDeviceToUdn := (gWemoDeviceToUdn b2)(?p \<mapsto> wd_udn dev)\<rparr>"
    have run: "publish_device K dev b = Some ?b3"
      unfolding publish_device_def Let_def st using False add nonneg d2(1)
      by (simp add: on_object_def)
    have v3: "V (ember ?b3) = V (ember b2)" using ember_laws(4) [OF ed] by simp
    have ok3: "bridge_ok K V ?b3"
      by (rule added_ok [OF ok t2 rest k(1,3,4) h2 d2(1) c2 refl]) (use v3 in simp_all)
    have view: "dview K ?d3 = dview K d2" "mLevel ?d3 = mLevel d2"
      by (simp_all add: dview_def DeviceDimmable_SetChangeCallback_def DeviceOnOff_SetChangeCallback_def)
    have st3: "state_of K ?d3 = initial_state dev" "view_name (dview K ?d3) = initial_name dev"
      "view_endpoint (dview K ?d3) = gCurrentEndpointId b2"
      using law d2(2) ep view by (simp_all add: state_of_def same_light_def same_shell_def)
    have "published_as K V dev k (gCurrentEndpointId b2) b ?b3"
      unfolding published_as_def using rest k(4,5) v3 h2 pub st3
      by (intro conjI exI [of _ ?d3]) (simp_all add: same_rest_def)
    then have pp: "publish_post K V dev b ?b3"
      unfolding publish_post_def
      by (intro exI [of _ d] exI [of _ r] exI [of _ b2] conjI) (use post k(2) in simp_all)
    have "left_alone b ?b3" using rest h2 by (simp add: left_alone_def same_rest_def)
    then show ?thesis using that [OF run ok3] pp False by simp
  qed
qed

section \<open>The whole startup\<close>

text \<open>Every light shows a device of the list in its initial state.\<close>

definition shows_device :: "('d, 'e) chip \<Rightarrow> ('d, 'e) bridge \<Rightarrow> wemo_device \<Rightarrow> bridged_light \<Rightarrow> bool" where
  "shows_device K b dev e \<longleftrightarrow> e = new_light dev (bl_device e) \<and>
     (\<exists>d. heap b (bl_device e) = Some d \<and> state_of K d = initial_state dev \<and>
        view_name (dview K d) = initial_name dev)"

definition seeded :: "('d, 'e) chip \<Rightarrow> ('d, 'e) bridge \<Rightarrow> wemo_device set \<Rightarrow> bool" where
  "seeded K b D \<longleftrightarrow> (\<forall>e\<in>set (gBridgedWemoLights b). \<exists>dev\<in>D. shows_device K b dev e)"

lemma shows_device_kept:
  assumes "shows_device K b dev e" and "heap b' (bl_device e) = heap b (bl_device e)"
  shows "shows_device K b' dev e"
  using assms by (simp add: shows_device_def)

lemma seeded_step:
  assumes ok: "bridge_ok K V b" and s: "seeded K b D" and p: "publish_post K V dev b b'"
  shows "seeded K b' (insert dev D)"
proof -
  have old: "\<exists>dev'\<in>insert dev D. shows_device K b' dev' e"
    if e: "e \<in> set (gBridgedWemoLights b)" and h: "\<forall>r\<in>published b. heap b' r = heap b r" for e
  proof -
    have "bl_device e \<in> published b" using bridge_okD(4) [OF ok] e by blast
    then have "heap b' (bl_device e) = heap b (bl_device e)" using h by blast
    moreover obtain dev' where "dev' \<in> D" "shows_device K b dev' e" using s e by (auto simp: seeded_def)
    ultimately show ?thesis using shows_device_kept by blast
  qed
  from p obtain r ep where "kept V b b' \<or> published_as K V dev (nat r) ep b b'"
    unfolding publish_post_def by (auto split: if_splits)
  then show ?thesis
  proof
    assume "kept V b b'"
    then show ?thesis using old by (simp add: kept_def seeded_def)
  next
    assume "published_as K V dev (nat r) ep b b'"
    then have l: "gBridgedWemoLights b' = gBridgedWemoLights b @ [new_light dev (next_object b)]"
      and h: "\<forall>r\<in>published b. heap b' r = heap b r"
      and n: "shows_device K b' dev (new_light dev (next_object b))"
      by (auto simp: published_as_def shows_device_def new_light_def)
    show ?thesis unfolding seeded_def l using old h n by auto
  qed
qed

lemma publish_devices_law:
  assumes i: "ids_documented (ids K)" and dd: "device_documented (ids K) (dev_api K)"
    and ed: "ember_documented (ember_api K) V"
  shows "bridge_ok K V b \<Longrightarrow> seeded K b D \<Longrightarrow> length (gBridgedWemoLights b) \<le> endpointCapacity \<Longrightarrow>
    \<exists>b'. publish_devices K devs b = Some b' \<and> bridge_ok K V b' \<and> left_alone b b' \<and>
      seeded K b' (D \<union> set devs) \<and> length (gBridgedWemoLights b') \<le> endpointCapacity"
proof (induction devs arbitrary: b D)
  case Nil
  then show ?case by (simp add: left_alone_def)
next
  case (Cons dev devs)
  obtain b1 where b1: "publish_device K dev b = Some b1" "bridge_ok K V b1" "left_alone b b1"
    and o: "endpointCapacity \<le> length (gBridgedWemoLights b) \<and> b1 = b \<or>
      length (gBridgedWemoLights b) < endpointCapacity \<and> publish_post K V dev b b1"
    by (rule publish_device_law [OF i dd ed Cons.prems(1)])
  have s1: "seeded K b1 (insert dev D) \<and> length (gBridgedWemoLights b1) \<le> endpointCapacity"
    using o
  proof
    assume "endpointCapacity \<le> length (gBridgedWemoLights b) \<and> b1 = b"
    then show ?thesis using Cons.prems by (auto simp: seeded_def)
  next
    assume p: "length (gBridgedWemoLights b) < endpointCapacity \<and> publish_post K V dev b b1"
    then obtain r ep where "kept V b b1 \<or> published_as K V dev (nat r) ep b b1"
      unfolding publish_post_def by (auto split: if_splits)
    then have "length (gBridgedWemoLights b1) \<le> endpointCapacity"
      using p by (auto simp: kept_def published_as_def)
    then show ?thesis using seeded_step [OF Cons.prems(1,2)] p by blast
  qed
  obtain b' where "publish_devices K devs b1 = Some b'" "bridge_ok K V b'" "left_alone b1 b'"
    "seeded K b' (insert dev D \<union> set devs)" "length (gBridgedWemoLights b') \<le> endpointCapacity"
    using Cons.IH [OF b1(2)] s1 by blast
  then show ?case using b1(1,3) by (auto simp: left_alone_def)
qed

text \<open>The state the process starts in: no dynamic endpoint, and room for 16 after the fixed ones.\<close>

definition last_fixed_endpoint :: "('d, 'e) chip \<Rightarrow> 'e \<Rightarrow> u16" where
  "last_fixed_endpoint K e =
     emberAfEndpointFromIndex (ember_api K) (emberAfFixedEndpointCount (ember_api K) e - 1) e"

definition fresh_boot :: "('d, 'e) chip \<Rightarrow> 'e ember_view \<Rightarrow> ('d, 'e) bridge \<Rightarrow> bool" where
  "fresh_boot K V b \<longleftrightarrow> (\<forall>i. V (ember b) i = None) \<and> uint (last_fixed_endpoint K (ember b)) < 65519 \<and>
     (\<forall>p\<in>dom (heap b). p < next_object b)"

lemma reset_bridge_fields:
  assumes ed: "ember_documented (ember_api K) V"
  shows "V (ember (reset_bridge K b)) = V (ember b)" "gDevices (reset_bridge K b) = replicate 17 None"
    "gBridgedWemoLights (reset_bridge K b) = []" "gWemoDeviceToUdn (reset_bridge K b) = Map.empty"
    "gFirstDynamicEndpointId (reset_bridge K b) = to_u16 (uint (last_fixed_endpoint K (ember b)) + 1)"
    "gCurrentEndpointId (reset_bridge K b) = to_u16 (uint (last_fixed_endpoint K (ember b)) + 1)"
    "next_object (reset_bridge K b) = next_object b" "work (reset_bridge K b) = work b"
    "threads (reset_bridge K b) = threads b" "dom (heap (reset_bridge K b)) \<subseteq> dom (heap b)"
  using ember_laws(3) [OF ed]
  by (auto simp: reset_bridge_def Let_def last_fixed_endpoint_def split: if_splits)

lemma reset_bridge_ok:
  assumes ed: "ember_documented (ember_api K) V" and boot: "fresh_boot K V b"
  shows "bridge_ok K V (reset_bridge K b)"
proof -
  note f = reset_bridge_fields [OF ed, of b]
  have none: "V (ember (reset_bridge K b)) i = None" for i
    using boot f(1) by (simp add: fresh_boot_def)
  have first: "uint (gFirstDynamicEndpointId (reset_bridge K b)) \<le> 65519"
    using boot uint_u16_bounds [of "last_fixed_endpoint K (ember b)"]
    by (simp add: f(5) fresh_boot_def uint_to_u16_id)
  have "slot_ok K V (reset_bridge K b) i" if "i < 16" for i
    using none that by (simp add: slot_ok_def f(2))
  then have "table_ok K V (reset_bridge K b)"
    unfolding table_ok_def using none first f(2,5,6) by simp
  moreover have "published (reset_bridge K b) = {}" by (auto simp: published_def f(2))
  moreover have "p < next_object b" if "p \<in> dom (heap (reset_bridge K b))" for p
    using that f(10) boot unfolding fresh_boot_def by blast
  ultimately show ?thesis
    unfolding bridge_ok_def f(3,4,7) by simp
qed

text \<open>The engine adapter through startup: its protocol holds and no command is sent.\<close>

lemma startup_adapter:
  assumes inv: "engine_protocol a" and d: "Discover E a = (ds, a1)"
  shows "engine_protocol (Refresh E (RegisterStateCallback E cb a1)) \<and>
    actions (calls (Refresh E (RegisterStateCallback E cb a1))) = actions (calls a)"
proof -
  note k1 = Discover_keeps [OF inv d]
  then have i1: "engine_protocol a1" by blast
  note k2 = RegisterStateCallback_keeps [OF i1, of E cb]
  then have i2: "engine_protocol (RegisterStateCallback E cb a1)" by blast
  show ?thesis using k1 k2 Refresh_keeps [OF i2, of E] by simp
qed

end
