(* ===== verification/Boot.thy ===== *)
theory Boot
  imports Startup
begin

text \<open>
  Properties of startup: it always ends in a bridge that satisfies the invariant and shows
  only discovered devices; what it publishes does not depend on the order of discovery; and
  with an endpoint storage that accepts a free valid id it publishes the first sixteen devices
  of the sorted list, in that order, under consecutive endpoint ids.
\<close>

section \<open>Consecutive endpoints\<close>

text \<open>
  A storage that accepts a valid id no endpoint uses, in a free slot and with a data version
  for every cluster of the endpoint type, and reports an id in use as existing. About other
  calls it says nothing: the SDK refuses \<open>kInvalidEndpointId\<close> and a span that is too short.
\<close>

definition kInvalidEndpointId :: u16 where
  "kInvalidEndpointId = 0xFFFF"

definition storage_accepts :: "('d, 'e) chip \<Rightarrow> 'e ember_view \<Rightarrow> bool" where
  "storage_accepts K V \<longleftrightarrow>
     (\<forall>i ep t n ts p e. unat i < 16 \<longrightarrow> V e (unat i) = None \<longrightarrow> ep \<noteq> kInvalidEndpointId \<longrightarrow>
        length (endpoint_clusters (ids K) t) \<le> n \<longrightarrow>
        fst (emberAfSetDynamicEndpoint (ember_api K) i ep t n ts p e) =
          (if in_use V e ep then CHIP_ERROR_ENDPOINT_EXISTS (ember_api K) else CHIP_NO_ERROR (ember_api K)))"

lemma accepts_not_refused:
  assumes "storage_accepts K V" and "V e i = None" and "i < 16" and "ep \<noteq> kInvalidEndpointId"
    and "length (endpoint_clusters (ids K) t) \<le> n"
  shows "\<not> refused K V i ep t ts n p e"
proof
  assume "refused K V i ep t ts n p e"
  then obtain e1 where e1: "V e1 = V e"
    "fst (emberAfSetDynamicEndpoint (ember_api K) (of_nat i) ep t n ts p e1)
      \<notin> {CHIP_NO_ERROR (ember_api K), CHIP_ERROR_ENDPOINT_EXISTS (ember_api K)}"
    by (auto simp: refused_def)
  have u: "unat (of_nat i :: u16) = i" using assms(3) by (intro unat_of_nat_small) simp
  have "fst (emberAfSetDynamicEndpoint (ember_api K) (of_nat i) ep t n ts p e1) =
      (if in_use V e1 ep then CHIP_ERROR_ENDPOINT_EXISTS (ember_api K) else CHIP_NO_ERROR (ember_api K))"
    by (rule assms(1) [unfolded storage_accepts_def, rule_format])
      (unfold u e1(1), use assms(2-5) in simp_all)
  then show False using e1(2) by (auto split: if_splits)
qed

definition endpoint_at :: "u16 \<Rightarrow> nat \<Rightarrow> u16" where
  "endpoint_at first j = to_u16 (uint first + int j)"

lemma uint_endpoint_at:
  "uint first \<le> 65519 \<Longrightarrow> j \<le> 16 \<Longrightarrow> uint (endpoint_at first j) = uint first + int j"
  using uint_u16_bounds [of first] by (simp add: endpoint_at_def uint_to_u16_id)

lemma endpoint_at_inj:
  assumes "uint first \<le> 65519" and "i \<le> 16" and "j \<le> 16"
  shows "endpoint_at first i = endpoint_at first j \<longleftrightarrow> i = j"
  by (simp add: word_uint_eq_iff uint_endpoint_at assms)

lemma next_endpoint:
  assumes "uint first \<le> 65519" and "j < 16"
  shows "next_id first (endpoint_at first j) = endpoint_at first (Suc j)"
proof -
  have v: "uint (endpoint_at first j) = uint first + int j"
    "uint (endpoint_at first (Suc j)) = uint first + int (Suc j)"
    using uint_endpoint_at [OF assms(1), of j] uint_endpoint_at [OF assms(1), of "Suc j"] assms(2) by simp_all
  have s: "endpoint_at first j + 1 = endpoint_at first (Suc j)"
    by (rule word_uint_eqI) (use v assms in \<open>simp add: uint_inc_u16\<close>)
  have "\<not> endpoint_at first (Suc j) < first" using v by (simp add: word_less_def)
  then show ?thesis by (simp add: next_id_def s)
qed

text \<open>The search stops at the first id that is not in use.\<close>

lemma search_stops:
  assumes "\<forall>j<k. Q ((f ^^ j) c)"
  shows "\<not> Q c \<Longrightarrow> k = 0" "\<not> Q (f c) \<Longrightarrow> k \<le> 1"
proof -
  show "k = 0" if "\<not> Q c" using assms that by (cases k) (auto dest: spec [of _ 0])
  show "k \<le> 1" if q: "\<not> Q (f c)"
  proof (rule ccontr)
    assume "\<not> k \<le> 1"
    then have "Q ((f ^^ 1) c)" using assms by (intro assms [rule_format]) simp
    then show False using q by simp
  qed
qed

section \<open>The bridge while it is being filled\<close>

text \<open>The first slots hold the devices published so far, in order.\<close>

definition lined_up ::
    "('d, 'e) chip \<Rightarrow> 'e ember_view \<Rightarrow> u16 \<Rightarrow> wemo_device list \<Rightarrow> ('d, 'e) bridge \<Rightarrow> bool" where
  "lined_up K V first devs b \<longleftrightarrow>
     length (gBridgedWemoLights b) = length devs \<and> length devs \<le> 16 \<and>
     gFirstDynamicEndpointId b = first \<and> gCurrentEndpointId b = endpoint_at first (length devs - 1) \<and>
     (\<forall>j<16. gDevices b ! j = (if j < length devs then Some (bl_device (gBridgedWemoLights b ! j)) else None)) \<and>
     V (ember b) = (\<lambda>j. if j < length devs then Some (endpoint_at first j, light_type (devs ! j)) else None) \<and>
     (\<forall>j<length devs. shows_device K b (devs ! j) (gBridgedWemoLights b ! j))"

lemma lined_upD:
  assumes "lined_up K V first devs b"
  shows "length (gBridgedWemoLights b) = length devs" "length devs \<le> 16" "gFirstDynamicEndpointId b = first"
    "gCurrentEndpointId b = endpoint_at first (length devs - 1)"
    "j < 16 \<Longrightarrow> gDevices b ! j = (if j < length devs then Some (bl_device (gBridgedWemoLights b ! j)) else None)"
    "V (ember b) = (\<lambda>j. if j < length devs then Some (endpoint_at first j, light_type (devs ! j)) else None)"
    "j < length devs \<Longrightarrow> shows_device K b (devs ! j) (gBridgedWemoLights b ! j)"
  using assms unfolding lined_up_def by blast+

lemma lined_up_in_use:
  assumes l: "lined_up K V first devs b" and first: "uint first \<le> 65519" and j: "j \<le> 16"
  shows "in_use V (ember b) (endpoint_at first j) \<longleftrightarrow> j < length devs"
  using lined_upD(2) [OF l] endpoint_at_inj [OF first _ j]
  unfolding in_use_def lined_upD(6) [OF l] by auto

text \<open>The search tries the id of the last device, and then the next one, which is free.\<close>

lemma lined_up_tried:
  assumes l: "lined_up K V first devs b" and first: "uint first \<le> 65519" and room: "length devs < 16"
    and k: "\<forall>j<k. in_use V (ember b) ((next_id first ^^ j) (gCurrentEndpointId b))"
  shows "\<exists>m\<le>length devs. (next_id first ^^ k) (gCurrentEndpointId b) = endpoint_at first m"
proof (cases "length devs = 0")
  case True
  then have c: "gCurrentEndpointId b = endpoint_at first 0" using lined_upD(4) [OF l] by simp
  have "\<not> in_use V (ember b) (gCurrentEndpointId b)"
    using lined_up_in_use [OF l first, of 0] True by (simp add: c)
  from search_stops(1) [OF k this] show ?thesis by (intro exI [of _ 0]) (simp add: c)
next
  case False
  let ?m = "length devs - 1"
  have c: "gCurrentEndpointId b = endpoint_at first ?m" using lined_upD(4) [OF l] .
  have n: "next_id first (gCurrentEndpointId b) = endpoint_at first (length devs)"
    using next_endpoint [OF first, of ?m] room False by (simp add: c)
  have "\<not> in_use V (ember b) (next_id first (gCurrentEndpointId b))"
    unfolding n using lined_up_in_use [OF l first, of "length devs"] room by simp
  from search_stops(2) [OF k this] have "k = 0 \<or> k = 1" by auto
  then show ?thesis
  proof
    assume "k = 0"
    then show ?thesis by (intro exI [of _ ?m]) (simp add: c)
  next
    assume "k = 1"
    then show ?thesis by (intro exI [of _ "length devs"]) (simp add: n)
  qed
qed

text \<open>The device goes to the next slot, under the next id.\<close>

lemma lined_up_place:
  assumes sa: "storage_accepts K V" and l: "lined_up K V first devs b"
    and first: "uint first \<le> 65519" and room: "length devs < 16"
    and n: "length (endpoint_clusters (ids K) t) \<le> n"
    and post: "add_post K V p t ts n q (staged K dev d b) r b2"
  shows "r = int (length devs) \<and> gCurrentEndpointId b2 = endpoint_at first (length devs)"
proof -
  let ?n = "length devs"
  note L = lined_upD [OF l]
  have g: "gDevices b ! j = None \<longleftrightarrow> \<not> j < ?n" if "j < 16" for j
    using L(5) [OF that] by simp
  have tried: "\<exists>m\<le>?n. c = endpoint_at first m"
    if "\<exists>k. c = (next_id first ^^ k) (gCurrentEndpointId b) \<and>
      (\<forall>j<k. in_use V (ember b) ((next_id first ^^ j) (gCurrentEndpointId b)))" for c
    using that lined_up_tried [OF l first room] by blast
  have no: "r \<noteq> - 1"
  proof
    assume "r = - 1"
    moreover have "gDevices b ! ?n = None" using g room by blast
    ultimately obtain i where i: "i < 16" "gDevices b ! i = None"
      and rf: "refused K V i (gCurrentEndpointId b2) t ts n q (ember b)"
      and k: "\<exists>k. gCurrentEndpointId b2 = (next_id first ^^ k) (gCurrentEndpointId b) \<and>
        (\<forall>j<k. in_use V (ember b) ((next_id first ^^ j) (gCurrentEndpointId b)))"
      using post room by (auto simp: add_post_def L(3))
    obtain m where m: "m \<le> ?n" "gCurrentEndpointId b2 = endpoint_at first m" using tried [OF k] by blast
    have "uint (gCurrentEndpointId b2) < 65535" using uint_endpoint_at [OF first, of m] m room first by simp
    then have valid: "gCurrentEndpointId b2 \<noteq> kInvalidEndpointId" by (auto simp: kInvalidEndpointId_def)
    have "V (ember b) i = None" using g i L(6) by simp
    from accepts_not_refused [OF sa this i(1) valid n] rf show False by blast
  qed
  then obtain i where i: "i < 16" "r = int i" "gDevices b ! i = None" "\<forall>j<i. gDevices b ! j \<noteq> None"
    and u: "\<not> in_use V (ember b) (gCurrentEndpointId b2)"
    and k: "\<exists>k. gCurrentEndpointId b2 = (next_id first ^^ k) (gCurrentEndpointId b) \<and>
      (\<forall>j<k. in_use V (ember b) ((next_id first ^^ j) (gCurrentEndpointId b)))"
    using post by (auto simp: add_post_def L(3))
  have "\<not> i < ?n" using g i by blast
  moreover have "\<not> ?n < i" using g [OF room] i(4) by blast
  moreover obtain m where m: "m \<le> ?n" "gCurrentEndpointId b2 = endpoint_at first m" using tried [OF k] by blast
  have "m = ?n" using u lined_up_in_use [OF l first, of m] m room by simp
  ultimately show ?thesis using i(2) m(2) by simp
qed

lemma lined_up_step:
  assumes sa: "storage_accepts K V" and ok: "bridge_ok K V b" and l: "lined_up K V first devs b"
    and first: "uint first \<le> 65519" and room: "length devs < 16"
    and post: "publish_post K V dev b b'" and q: "left_alone b b'"
  shows "lined_up K V first (devs @ [dev]) b'"
proof -
  let ?n = "length devs" and ?p = "next_object b"
  note L = lined_upD [OF l]
  obtain d r b2 where a: "add_post K V ?p (light_type dev) (light_device_types dev)
      (length (endpoint_clusters (ids K) (light_type dev))) 1 (staged K dev d b) r b2"
    and c: "gCurrentEndpointId b' = gCurrentEndpointId b2"
    and o: "if r < 0 then kept V b b' else published_as K V dev (nat r) (gCurrentEndpointId b2) b b'"
    using post unfolding publish_post_def by blast
  have r: "r = int ?n" "gCurrentEndpointId b2 = endpoint_at first ?n"
    using lined_up_place [OF sa l first room order_refl a] by simp_all
  then have "published_as K V dev ?n (endpoint_at first ?n) b b'" using o by simp
  then have lights: "gBridgedWemoLights b' = gBridgedWemoLights b @ [new_light dev ?p]"
    and g: "gDevices b' = (gDevices b)[?n := Some ?p]"
    and v: "V (ember b') = (V (ember b))(?n := Some (endpoint_at first ?n, light_type dev))"
    and h: "\<forall>x\<in>published b. heap b' x = heap b x"
    and new: "shows_device K b' dev (new_light dev ?p)"
    by (auto simp: published_as_def shows_device_def new_light_def)
  have len: "length (gDevices b) = 17" by (rule table_okD(1) [OF bridge_okD(1) [OF ok]])
  have old: "shows_device K b' (devs ! j) (gBridgedWemoLights b ! j)" if "j < ?n" for j
  proof -
    have "gBridgedWemoLights b ! j \<in> set (gBridgedWemoLights b)" using that L(1) by simp
    then have "bl_device (gBridgedWemoLights b ! j) \<in> published b" using bridge_okD(4) [OF ok] by blast
    then show ?thesis using h shows_device_kept [OF L(7) [OF that]] by blast
  qed
  have slots: "gDevices b' ! j = (if j < Suc ?n then Some (bl_device (gBridgedWemoLights b' ! j)) else None)"
    if "j < 16" for j
    using L(1) L(5) [OF that] that room
    by (auto simp: g lights nth_append nth_list_update len new_light_def less_Suc_eq)
  have ids: "V (ember b') =
      (\<lambda>j. if j < Suc ?n then Some (endpoint_at first j, light_type ((devs @ [dev]) ! j)) else None)"
    by (auto simp: v L(6) nth_append fun_eq_iff)
  have shown: "shows_device K b' ((devs @ [dev]) ! j) (gBridgedWemoLights b' ! j)" if "j < Suc ?n" for j
    using old new that L(1) by (auto simp: lights nth_append less_Suc_eq)
  show ?thesis
    unfolding lined_up_def using slots ids shown r(2) c room L(1,3) q
    by (simp add: lights left_alone_def)
qed

lemma lined_up_devices:
  assumes "chip_documented K V" and sa: "storage_accepts K V" and first: "uint first \<le> 65519"
  shows "bridge_ok K V b \<Longrightarrow> lined_up K V first devs b \<Longrightarrow> publish_devices K rs b = Some b' \<Longrightarrow>
    bridge_ok K V b' \<and> lined_up K V first (take 16 (devs @ rs)) b'"
proof (induction rs arbitrary: devs b)
  case Nil
  then show ?case using lined_upD(2) by (fastforce simp: min_def)
next
  case (Cons dev rs)
  note c = chip_parts [OF assms(1)]
  obtain b1 where b1: "publish_device K dev b = Some b1" "bridge_ok K V b1" "left_alone b b1"
    and o: "endpointCapacity \<le> length (gBridgedWemoLights b) \<and> b1 = b \<or>
      length (gBridgedWemoLights b) < endpointCapacity \<and> publish_post K V dev b b1"
    by (rule publish_device_law [OF c(1-3) Cons.prems(1)])
  have run: "publish_devices K rs b1 = Some b'" using Cons.prems(3) b1(1) by simp
  have n: "length (gBridgedWemoLights b) = length devs" "length devs \<le> 16" "endpointCapacity = 16"
    using lined_upD(1,2) [OF Cons.prems(2)]
    by (simp_all add: endpointCapacity_def CHIP_DEVICE_CONFIG_DYNAMIC_ENDPOINT_COUNT_def)
  show ?case
  proof (cases "length devs < 16")
    case True
    then have "publish_post K V dev b b1" using o n by auto
    note lined_up_step [OF sa Cons.prems(1,2) first True this b1(3)]
    from Cons.IH [OF b1(2) this run] show ?thesis by (simp del: take_append)
  next
    case False
    then have "b1 = b" "take 16 (devs @ dev # rs) = take 16 (devs @ rs)" using o n by auto
    then show ?thesis using Cons.IH [OF Cons.prems(1,2)] run by simp
  qed
qed

lemma lined_up_reset:
  assumes "chip_documented K V" and boot: "fresh_boot K V b"
  shows "lined_up K V (gFirstDynamicEndpointId (reset_bridge K b)) [] (reset_bridge K b)"
    "uint (gFirstDynamicEndpointId (reset_bridge K b)) = uint (last_fixed_endpoint K (ember b)) + 1"
    "uint (gFirstDynamicEndpointId (reset_bridge K b)) \<le> 65519"
proof -
  note f = reset_bridge_fields [OF chip_parts(3) [OF assms(1)], of b]
  show u: "uint (gFirstDynamicEndpointId (reset_bridge K b)) = uint (last_fixed_endpoint K (ember b)) + 1"
    "uint (gFirstDynamicEndpointId (reset_bridge K b)) \<le> 65519"
    using boot uint_u16_bounds [of "last_fixed_endpoint K (ember b)"]
    by (simp_all add: f(5) fresh_boot_def uint_to_u16_id)
  have "V (ember b) = (\<lambda>j. None)" using boot by (simp add: fresh_boot_def fun_eq_iff)
  then show "lined_up K V (gFirstDynamicEndpointId (reset_bridge K b)) [] (reset_bridge K b)"
    using u by (simp add: lined_up_def f endpoint_at_def)
qed

section \<open>Properties\<close>

lemma ApplicationInit_cases:
  assumes "Discover E a = (ds, a1)"
  shows "ApplicationInit K E b a =
    map_option (\<lambda>b. (b, Refresh E (RegisterStateCallback E (Some CbOnWemoStateEvent) a1)))
      (publish_devices K (sort_devices ds) (reset_bridge K b))"
  by (simp add: ApplicationInit_def assms Let_def split: option.splits)

lemma startup_law:
  assumes "chip_documented K V" and boot: "fresh_boot K V b" and a: "engine_protocol a"
    and d: "Discover E a = (ds, a1)"
  shows "\<exists>b' a'. ApplicationInit K E b a = Some (b', a') \<and> bridge_ok K V b' \<and> engine_protocol a' \<and>
    length (gBridgedWemoLights b') \<le> 16 \<and>
    (\<forall>e\<in>set (gBridgedWemoLights b'). \<exists>dev\<in>set ds. shows_device K b' dev e) \<and>
    work b' = work b \<and> threads b' = threads b \<and> actions (calls a') = actions (calls a)"
proof -
  note c = chip_parts [OF assms(1)]
  note f = reset_bridge_fields [OF c(3), of b]
  have s0: "seeded K (reset_bridge K b) {}" "length (gBridgedWemoLights (reset_bridge K b)) \<le> endpointCapacity"
    by (simp_all add: seeded_def f)
  obtain b' where b': "publish_devices K (sort_devices ds) (reset_bridge K b) = Some b'" "bridge_ok K V b'"
    "left_alone (reset_bridge K b) b'" "seeded K b' ({} \<union> set (sort_devices ds))"
    "length (gBridgedWemoLights b') \<le> endpointCapacity"
    using publish_devices_law [OF c(1-3) reset_bridge_ok [OF c(3) boot] s0, of "sort_devices ds"] by blast
  let ?a = "Refresh E (RegisterStateCallback E (Some CbOnWemoStateEvent) a1)"
  have "ApplicationInit K E b a = Some (b', ?a)" by (simp add: ApplicationInit_cases [OF d] b'(1))
  moreover have "length (gBridgedWemoLights b') \<le> 16"
    using b'(5) by (simp add: endpointCapacity_def CHIP_DEVICE_CONFIG_DYNAMIC_ENDPOINT_COUNT_def)
  moreover have "\<forall>e\<in>set (gBridgedWemoLights b'). \<exists>dev\<in>set ds. shows_device K b' dev e"
    using b'(4) by (simp add: seeded_def sort_devices_def)
  ultimately show ?thesis
    using b'(2,3) startup_adapter [OF a d] f(8,9) by (auto simp: left_alone_def)
qed

text \<open>
  C7. From a fresh process, \<open>ApplicationInit\<close> always returns. Afterwards the bridge satisfies
  its invariant, publishes at most sixteen lights, each of which shows a discovered device in
  its discovered state, no work and no command thread has been started, and the engine was
  used according to its protocol without a single command being sent.
\<close>

theorem startup_establishes_invariant:
  assumes "chip_documented K V" and boot: "fresh_boot K V b" and a: "engine_protocol a"
    and d: "Discover E a = (ds, a1)"
  shows "\<exists>b' a'. ApplicationInit K E b a = Some (b', a') \<and> bridge_ok K V b' \<and> engine_protocol a' \<and>
    length (gBridgedWemoLights b') \<le> 16 \<and>
    (\<forall>e\<in>set (gBridgedWemoLights b'). \<exists>dev\<in>set ds. shows_device K b' dev e) \<and>
    work b' = work b \<and> threads b' = threads b \<and> actions (calls a') = actions (calls a)"
  using assms by (rule startup_law)

definition lamp_boot :: "(mem_dev, mem_slots) bridge" where
  "lamp_boot = empty_bridge Map.empty 0 (replicate 16 None)"

lemma lamp_boot_fresh: "fresh_boot mem_chip mem_slot lamp_boot"
  by (simp add: fresh_boot_def lamp_boot_def empty_bridge_def mem_slot_def last_fixed_endpoint_def
      mem_chip_def mem_ember_api_def)

lemma mem_storage_accepts: "storage_accepts mem_chip mem_slot"
  using find_slot_in_use
  by (auto simp: storage_accepts_def mem_chip_def mem_ember_api_def mem_set_endpoint_def kInvalidEndpointId_def
      endpoint_clusters_def bridgedLightClusters_def bridgedDimmableLightClusters_def split: endpoint_type.splits)

theorem startup_establishes_invariant_witness:
  "\<exists>b' a'. ApplicationInit mem_chip (list_engine [lamp_info]) lamp_boot (new_adapter ''127.0.0.1:49153'' ()) =
       Some (b', a') \<and> bridge_ok mem_chip mem_slot b' \<and> actions (calls a') = []"
proof -
  obtain a1 where d: "Discover (list_engine [lamp_info])
      (new_adapter ''127.0.0.1:49153'' () :: (unit, state_callback) adapter) = (map device_of_info [lamp_info], a1)"
    using list_engine_discover [of "[lamp_info]"] by auto
  have "calls (new_adapter ''127.0.0.1:49153'' () :: (unit, state_callback) adapter) = []"
    by (simp add: new_adapter_def)
  with startup_establishes_invariant [OF mem_chip_documented lamp_boot_fresh new_adapter_protocol d]
  show ?thesis by auto
qed

text \<open>
  C16. When the endpoint storage accepts every valid id that is free (for a free slot and a data
  version per cluster), startup publishes exactly the first
  sixteen devices of the sorted discovery list, in that order: the device at position \<open>j\<close>
  sits in slot \<open>j\<close>, in its discovered state, as the endpoint \<open>j\<close> after the first one behind
  the fixed endpoints, of the type its level support asks for.
\<close>

theorem startup_publishes_in_order:
  assumes "chip_documented K V" and sa: "storage_accepts K V" and boot: "fresh_boot K V b"
    and d: "Discover E a = (ds, a1)" and run: "ApplicationInit K E b a = Some (b', a')"
  shows "length (gBridgedWemoLights b') = min 16 (length ds) \<and>
    (\<forall>j<min 16 (length ds).
       gDevices b' ! j = Some (bl_device (gBridgedWemoLights b' ! j)) \<and>
       shows_device K b' (sort_devices ds ! j) (gBridgedWemoLights b' ! j) \<and>
       V (ember b') j = Some (to_u16 (uint (last_fixed_endpoint K (ember b)) + 1 + int j),
         light_type (sort_devices ds ! j)))"
proof -
  note c = chip_parts [OF assms(1)]
  note z = lined_up_reset [OF assms(1) boot]
  let ?top = "take 16 (sort_devices ds)"
  have "publish_devices K (sort_devices ds) (reset_bridge K b) = Some b'"
    using run by (auto simp: ApplicationInit_cases [OF d])
  then have l: "lined_up K V (gFirstDynamicEndpointId (reset_bridge K b)) ?top b'"
    using lined_up_devices [OF assms(1) sa z(3) reset_bridge_ok [OF c(3) boot] z(1)] by fastforce
  note L = lined_upD [OF l]
  have n: "length ?top = min 16 (length ds)" by (simp add: sort_devices_def)
  have "gDevices b' ! j = Some (bl_device (gBridgedWemoLights b' ! j)) \<and>
      shows_device K b' (sort_devices ds ! j) (gBridgedWemoLights b' ! j) \<and>
      V (ember b') j = Some (to_u16 (uint (last_fixed_endpoint K (ember b)) + 1 + int j),
         light_type (sort_devices ds ! j))" if "j < min 16 (length ds)" for j
    using that L(5) [of j] L(6) L(7) [of j] unfolding n by (simp add: endpoint_at_def z(2))
  then show ?thesis using L(1) n by simp
qed

definition switch_info :: we_device_info where
  "switch_info = \<lparr>wi_wemo_id = 3, wi_udn = ''uuid:fan'', wi_friendly_name = '''', wi_is_online = 0,
     wi_state = 0, wi_device_type = 1, wi_level = - 1\<rparr>"

lemma sorted_pair: "sort_devices (map device_of_info [lamp_info, switch_info]) =
    map device_of_info [switch_info, lamp_info]"
  by (simp add: sort_devices_def key_of_device_def lamp_info_def switch_info_def less_eq_device_key_def
      less_device_key_def device_before_def less_char_def)

theorem startup_publishes_in_order_witness:
  "\<exists>b' a'. ApplicationInit mem_chip (list_engine [lamp_info, switch_info]) lamp_boot
       (new_adapter ''127.0.0.1:49153'' ()) = Some (b', a') \<and>
     shows_device mem_chip b' (device_of_info switch_info) (gBridgedWemoLights b' ! 0) \<and>
     mem_slot (ember b') 1 = Some (4, bridgedDimmableLightEndpoint)"
proof -
  let ?a = "new_adapter ''127.0.0.1:49153'' () :: (unit, state_callback) adapter"
  let ?ds = "map device_of_info [lamp_info, switch_info]"
  obtain a1 where d: "Discover (list_engine [lamp_info, switch_info]) ?a = (?ds, a1)"
    using list_engine_discover [of "[lamp_info, switch_info]"] by auto
  note c = chip_parts [OF mem_chip_documented]
  note f = reset_bridge_fields [OF c(3), of lamp_boot]
  have s0: "seeded mem_chip (reset_bridge mem_chip lamp_boot) {}"
    "length (gBridgedWemoLights (reset_bridge mem_chip lamp_boot)) \<le> endpointCapacity"
    by (simp_all add: seeded_def f)
  obtain b' where "publish_devices mem_chip (sort_devices ?ds) (reset_bridge mem_chip lamp_boot) = Some b'"
    using publish_devices_law [OF c(1-3) reset_bridge_ok [OF c(3) lamp_boot_fresh] s0] by blast
  then have run: "ApplicationInit mem_chip (list_engine [lamp_info, switch_info]) lamp_boot ?a =
      Some (b', Refresh (list_engine [lamp_info, switch_info])
        (RegisterStateCallback (list_engine [lamp_info, switch_info]) (Some CbOnWemoStateEvent) a1))"
    by (simp add: ApplicationInit_cases [OF d])
  have "last_fixed_endpoint mem_chip (ember lamp_boot) = 2"
    by (simp add: last_fixed_endpoint_def mem_chip_def mem_ember_api_def)
  with startup_publishes_in_order [OF mem_chip_documented mem_storage_accepts lamp_boot_fresh d run] run
  show ?thesis
    unfolding sorted_pair by (auto simp: light_type_def device_of_info_def lamp_info_def to_u16_def kTypeDimmer_def)
qed

text \<open>
  C25. What is published does not depend on the order in which the engine lists the devices,
  nor on how the sort breaks ties: as long as the listed devices differ in UDN or name, every
  sorted arrangement of the same devices leads to the same bridge.
\<close>

theorem startup_order_irrelevant:
  assumes "Discover E a = (ds, a1)" and "Discover E' a' = (ds', a1')" and "mset ds' = mset ds"
    and "inj_on key_of_device (set ds)" and "mset ys = mset ds" and "sorted (map key_of_device ys)"
  shows "map_option fst (ApplicationInit K E' b a') = map_option fst (ApplicationInit K E b a) \<and>
    publish_devices K ys (reset_bridge K b) = map_option fst (ApplicationInit K E b a)"
proof -
  have "sort_devices ds' = sort_devices ds"
    unfolding sort_devices_def
    by (rule sort_key_unique [OF assms(4), of "sort_key key_of_device ds'"]) (simp_all add: assms(3))
  moreover have "ys = sort_devices ds"
    unfolding sort_devices_def by (rule sort_key_unique [OF assms(4-6)])
  ultimately show ?thesis
    by (simp add: ApplicationInit_cases [OF assms(1)] ApplicationInit_cases [OF assms(2)] option.map_comp
        comp_def option.map_ident)
qed

theorem startup_order_irrelevant_witness:
  "map_option fst (ApplicationInit mem_chip (list_engine [switch_info, lamp_info]) lamp_boot
       (new_adapter ''127.0.0.1:49153'' ())) =
     map_option fst (ApplicationInit mem_chip (list_engine [lamp_info, switch_info]) lamp_boot
       (new_adapter ''127.0.0.1:49153'' ()))"
proof -
  let ?a = "new_adapter ''127.0.0.1:49153'' () :: (unit, state_callback) adapter"
  let ?ds = "map device_of_info [lamp_info, switch_info]"
  obtain a1 where d: "Discover (list_engine [lamp_info, switch_info]) ?a = (?ds, a1)"
    using list_engine_discover [of "[lamp_info, switch_info]"] by auto
  obtain a2 where d2: "Discover (list_engine [switch_info, lamp_info]) ?a =
      (map device_of_info [switch_info, lamp_info], a2)"
    using list_engine_discover [of "[switch_info, lamp_info]"] by auto
  have m: "mset (map device_of_info [switch_info, lamp_info]) = mset ?ds" by simp
  have i: "inj_on key_of_device (set ?ds)"
    by (simp add: inj_on_def key_of_device_def lamp_info_def switch_info_def)
  have s: "mset (sort_devices ?ds) = mset ?ds" "sorted (map key_of_device (sort_devices ?ds))"
    unfolding sort_devices_def by (rule mset_sort, rule sorted_sort_key)
  from startup_order_irrelevant [OF d d2 m i s] show ?thesis by blast
qed

section \<open>The storage of the data versions\<close>






end
