(* ===== verification/Endpoint_Contract.thy ===== *)
theory Endpoint_Contract
  imports Boot
begin

text \<open>
  What the dynamic endpoint table of \<^verbatim>\<open>matter-bridge-app/main.cpp\<close> promises to the code that
  adds and removes devices: the contract \<open>endpoint_table\<close> of \<open>AddDeviceEndpoint\<close> and
  \<open>RemoveDeviceEndpoint\<close>, and that the one undoes the other.
\<close>

section \<open>The contract\<close>

text \<open>
  A state shows the device in each slot. \<open>fits p t s\<close> says that \<open>p\<close> is a live device of the
  endpoint type \<open>t\<close>; the argument \<open>x\<close> of \<open>add\<close> is what else the endpoint is declared with.
\<close>

locale endpoint_table =
  fixes add :: "'x \<Rightarrow> nat \<Rightarrow> endpoint_type \<Rightarrow> 's \<Rightarrow> (int \<times> 's) option"
    and remove :: "nat \<Rightarrow> 's \<Rightarrow> int \<times> 's"
    and slots :: "'s \<Rightarrow> nat \<Rightarrow> nat option"
    and fits :: "nat \<Rightarrow> endpoint_type \<Rightarrow> 's \<Rightarrow> bool"
    and inv :: "'s \<Rightarrow> bool"
  assumes add_law: "inv s \<Longrightarrow> fits p t s \<Longrightarrow> p \<notin> ran (slots s) \<Longrightarrow>
      \<exists>r s'. add x p t s = Some (r, s') \<and> inv s' \<and> (\<forall>q u. fits q u s \<longrightarrow> fits q u s') \<and>
        (r = - 1 \<and> slots s' = slots s \<or>
         (\<exists>i. r = int i \<and> slots s i = None \<and> (\<forall>j<i. slots s j \<noteq> None) \<and> slots s' = (slots s)(i \<mapsto> p)))"
    and remove_law: "inv s \<Longrightarrow> remove p s = (r, s') \<Longrightarrow>
      inv s' \<and> (\<forall>q u. fits q u s \<longrightarrow> fits q u s') \<and>
        (r = - 1 \<and> slots s' = slots s \<and> p \<notin> ran (slots s) \<or>
         (\<exists>i. r = int i \<and> slots s i = Some p \<and> slots s' = (slots s)(i := None)))"
    and one_slot: "inv s \<Longrightarrow> slots s i = Some p \<Longrightarrow> slots s j = Some p \<Longrightarrow> i = j"
begin

lemma removed:
  assumes "inv s" and "slots s i = Some p" and "remove p s = (r, s')"
  shows "r = int i \<and> slots s' = (slots s)(i := None) \<and> inv s' \<and> p \<notin> ran (slots s')"
proof -
  have "p \<in> ran (slots s)" using assms(2) by (auto simp: ran_def)
  then obtain j where "r = int j" "slots s j = Some p" "slots s' = (slots s)(j := None)" "inv s'"
    using remove_law [OF assms(1,3)] by blast
  moreover have "j = i" by (rule one_slot [OF assms(1) \<open>slots s j = Some p\<close> assms(2)])
  moreover have "p \<notin> ran ((slots s)(i := None))"
  proof
    assume "p \<in> ran ((slots s)(i := None))"
    then obtain l where "l \<noteq> i" "slots s l = Some p" by (auto simp: ran_def split: if_splits)
    then show False using one_slot [OF assms(1) _ assms(2)] by blast
  qed
  ultimately show ?thesis by simp
qed

text \<open>Adding a device and removing it again restores the slots.\<close>

lemma add_remove:
  assumes "inv s" and "fits p t s" and "p \<notin> ran (slots s)"
    and "add x p t s = Some (r, s1)" and "remove p s1 = (r2, s2)"
  shows "r2 = r \<and> slots s2 = slots s \<and> inv s2"
proof -
  have i1: "inv s1" and o: "r = - 1 \<and> slots s1 = slots s \<or>
      (\<exists>i. r = int i \<and> slots s i = None \<and> slots s1 = (slots s)(i \<mapsto> p))"
    using add_law [OF assms(1-3), of x] assms(4) by auto
  from o show ?thesis
  proof
    assume r: "r = - 1 \<and> slots s1 = slots s"
    then show ?thesis using remove_law [OF i1 assms(5)] assms(3) by (auto simp: ran_def)
  next
    assume "\<exists>i. r = int i \<and> slots s i = None \<and> slots s1 = (slots s)(i \<mapsto> p)"
    then obtain i where i: "r = int i" "slots s i = None" "slots s1 = (slots s)(i \<mapsto> p)" by blast
    then have "slots s1 i = Some p" by simp
    from removed [OF i1 this assms(5)] i show ?thesis by (simp add: fun_upd_idem)
  qed
qed

end

section \<open>The table of the bridge\<close>

text \<open>A handle carries the SDK with its view, and the bridge.\<close>

type_synonym ('d, 'e) table_handle = "('d, 'e) chip \<times> 'e ember_view \<times> ('d, 'e) bridge"

definition table_add ::
    "(u32 \<times> u8) list \<times> nat \<times> u16 \<Rightarrow> nat \<Rightarrow> endpoint_type \<Rightarrow> ('d, 'e) table_handle \<Rightarrow>
     (int \<times> ('d, 'e) table_handle) option" where
  "table_add x p t h = (case h of (K, V, b) \<Rightarrow> case x of (ts, n, parent) \<Rightarrow>
     map_option (\<lambda>(r, b). (r, K, V, b)) (AddDeviceEndpoint K p t ts n parent b))"

definition table_remove :: "nat \<Rightarrow> ('d, 'e) table_handle \<Rightarrow> int \<times> ('d, 'e) table_handle" where
  "table_remove p h = (case h of (K, V, b) \<Rightarrow> let (r, b) = RemoveDeviceEndpoint K p b in (r, K, V, b))"

definition table_slots :: "('d, 'e) table_handle \<Rightarrow> nat \<Rightarrow> nat option" where
  "table_slots h i = (case h of (K, V, b) \<Rightarrow> if i < 16 then gDevices b ! i else None)"

definition table_fits :: "nat \<Rightarrow> endpoint_type \<Rightarrow> ('d, 'e) table_handle \<Rightarrow> bool" where
  "table_fits p t h = (case h of (K, V, b) \<Rightarrow>
     case heap b p of None \<Rightarrow> False | Some d \<Rightarrow> is_on_off d \<and> type_of_light d = t)"

text \<open>\<open>Q\<close> is what else is assumed of the SDK.\<close>

definition table_inv ::
    "(('d, 'e) chip \<Rightarrow> 'e ember_view \<Rightarrow> bool) \<Rightarrow> ('d, 'e) table_handle \<Rightarrow> bool" where
  "table_inv Q h \<longleftrightarrow> (case h of (K, V, b) \<Rightarrow> chip_documented K V \<and> table_ok K V b \<and> Q K V)"

lemma table_simps:
  "table_add (ts, n, q) p t (K, V, b) = map_option (\<lambda>(r, b). (r, K, V, b)) (AddDeviceEndpoint K p t ts n q b)"
  "RemoveDeviceEndpoint K p b = (r, b') \<Longrightarrow> table_remove p (K, V, b) = (r, K, V, b')"
  "table_slots (K, V, b) i = (if i < 16 then gDevices b ! i else None)"
  "table_fits p t (K, V, b) \<longleftrightarrow> (\<exists>d. heap b p = Some d \<and> is_on_off d \<and> type_of_light d = t)"
  "table_inv Q (K, V, b) \<longleftrightarrow> chip_documented K V \<and> table_ok K V b \<and> Q K V"
  by (auto simp: table_add_def table_remove_def table_slots_def table_fits_def table_inv_def
      split: option.splits)

lemma table_ran: "p \<notin> ran (table_slots (K, V, b)) \<longleftrightarrow> (\<forall>i<16. gDevices b ! i \<noteq> Some p)"
  by (auto simp: ran_def table_simps)

lemma table_slots_update:
  assumes "table_ok K V b" and "i < 16" and "gDevices b' = (gDevices b)[i := x]"
  shows "table_slots (K, V, b') = (table_slots (K, V, b))(i := x)"
  using assms table_okD(1) [OF assms(1)] by (auto simp: fun_eq_iff table_simps nth_list_update)

lemma table_add_law:
  assumes "table_inv Q (K, V, b)" and "table_fits p t (K, V, b)" and "p \<notin> ran (table_slots (K, V, b))"
  obtains r b' where "table_add x p t (K, V, b) = Some (r, K, V, b')" "table_ok K V b'"
    "\<forall>q u. table_fits q u (K, V, b) \<longrightarrow> table_fits q u (K, V, b')"
    "r = - 1 \<and> table_slots (K, V, b') = table_slots (K, V, b) \<or>
     (\<exists>i. r = int i \<and> table_slots (K, V, b) i = None \<and> (\<forall>j<i. table_slots (K, V, b) j \<noteq> None) \<and>
        table_slots (K, V, b') = (table_slots (K, V, b))(i \<mapsto> p))"
proof -
  obtain ts n parent where x: "x = (ts, n, parent)" by (rule prod_cases3)
  have doc: "chip_documented K V" and ok: "table_ok K V b" using assms(1) by (simp_all add: table_simps)
  note c = chip_parts [OF doc]
  have sd: "set_endpoint_documented (ember_api K) V" using c(3) unfolding ember_documented_def by (rule conjunct1)
  obtain d where d: "heap b p = Some d" "is_on_off d" "type_of_light d = t"
    using assms(2) by (auto simp: table_simps)
  obtain r b' where a: "AddDeviceEndpoint K p t ts n parent b = Some (r, b')"
    and post: "add_post K V p t ts n parent b r b'"
    using AddDeviceEndpoint_law [OF c(2) sd ok d, of ts n parent] assms(3) unfolding table_ran by blast
  have fits: "table_fits q u (K, V, b')" if f: "table_fits q u (K, V, b)" for q u
  proof (cases "q = p")
    case True
    obtain d' where "heap b' p = Some d'" "same_light K d d'"
      using post d(1) unfolding add_post_def by blast
    then show ?thesis using f True d(1) same_light_type [of K d d'] by (simp add: table_simps)
  next
    case False
    then have "heap b' q = heap b q" using post unfolding add_post_def by blast
    then show ?thesis using f by (simp add: table_simps)
  qed
  have free: "table_slots (K, V, b) j = None" if "j < 16" "gDevices b ! j = None" for j
    using that by (simp add: table_simps)
  from post consider "r = - 1" "gDevices b' = gDevices b"
    | i where "i < 16" "r = int i" "gDevices b ! i = None" "\<forall>j<i. gDevices b ! j \<noteq> None"
      "gDevices b' = (gDevices b)[i := Some p]"
    unfolding add_post_def by blast
  then have out: "r = - 1 \<and> table_slots (K, V, b') = table_slots (K, V, b) \<or>
     (\<exists>i. r = int i \<and> table_slots (K, V, b) i = None \<and> (\<forall>j<i. table_slots (K, V, b) j \<noteq> None) \<and>
        table_slots (K, V, b') = (table_slots (K, V, b))(i \<mapsto> p))"
  proof cases
    case 1
    then show ?thesis by (simp add: fun_eq_iff table_simps)
  next
    case (2 i)
    then have "\<forall>j<i. table_slots (K, V, b) j \<noteq> None" by (simp add: table_simps)
    then show ?thesis using 2 free [OF 2(1,3)] table_slots_update [OF ok 2(1,5)] by blast
  qed
  have ok': "table_ok K V b'" using post unfolding add_post_def by blast
  have "table_add x p t (K, V, b) = Some (r, K, V, b')" by (simp add: x table_simps a)
  from that [OF this ok' _ out] fits show ?thesis by blast
qed

lemma table_remove_law:
  assumes "table_inv Q (K, V, b)"
  obtains r b' where "table_remove p (K, V, b) = (r, K, V, b')" "table_ok K V b'"
    "\<forall>q u. table_fits q u (K, V, b) \<longrightarrow> table_fits q u (K, V, b')"
    "r = - 1 \<and> table_slots (K, V, b') = table_slots (K, V, b) \<and> p \<notin> ran (table_slots (K, V, b)) \<or>
     (\<exists>i. r = int i \<and> table_slots (K, V, b) i = Some p \<and>
        table_slots (K, V, b') = (table_slots (K, V, b))(i := None))"
proof -
  have doc: "chip_documented K V" and ok: "table_ok K V b" using assms by (simp_all add: table_simps)
  obtain r b' where rm: "RemoveDeviceEndpoint K p b = (r, b')" by (rule prod.exhaust)
  note law = RemoveDeviceEndpoint_law [OF chip_parts(3) [OF doc] ok rm]
  have fits: "\<forall>q u. table_fits q u (K, V, b) \<longrightarrow> table_fits q u (K, V, b')" using law by (simp add: table_simps)
  from law consider "r = - 1" "b' = b" "\<forall>i<16. gDevices b ! i \<noteq> Some p"
    | i where "i < 16" "r = int i" "gDevices b ! i = Some p" "gDevices b' = (gDevices b)[i := None]"
    by blast
  then have "r = - 1 \<and> table_slots (K, V, b') = table_slots (K, V, b) \<and> p \<notin> ran (table_slots (K, V, b)) \<or>
     (\<exists>i. r = int i \<and> table_slots (K, V, b) i = Some p \<and>
        table_slots (K, V, b') = (table_slots (K, V, b))(i := None))"
  proof cases
    case 1
    then show ?thesis by (simp add: table_ran)
  next
    case (2 i)
    then show ?thesis using table_slots_update [OF ok 2(1,4)] by (auto simp: table_simps)
  qed
  from that [OF table_simps(2) [OF rm] _ fits this] law show ?thesis by blast
qed

lemma table_one_slot:
  assumes "table_inv Q h" and "table_slots h i = Some p" and "table_slots h j = Some p"
  shows "i = j"
proof -
  obtain K V b where h: "h = (K, V, b)" by (rule prod_cases3)
  show ?thesis
    using assms table_okD(5) [of K V b i j p] unfolding h by (auto simp: table_simps split: if_splits)
qed

interpretation bridge_table: endpoint_table table_add table_remove table_slots table_fits "table_inv Q" for Q
proof
  fix s p t x
  assume inv: "table_inv Q s" and f: "table_fits p t s" and n: "p \<notin> ran (table_slots s)"
  obtain K V b where s: "s = (K, V, b)" by (rule prod_cases3)
  have "chip_documented K V" "Q K V" using inv by (simp_all add: s table_simps)
  with table_add_law [OF inv [unfolded s] f [unfolded s] n [unfolded s], of x]
  show "\<exists>r s'. table_add x p t s = Some (r, s') \<and> table_inv Q s' \<and>
      (\<forall>q u. table_fits q u s \<longrightarrow> table_fits q u s') \<and>
      (r = - 1 \<and> table_slots s' = table_slots s \<or>
       (\<exists>i. r = int i \<and> table_slots s i = None \<and> (\<forall>j<i. table_slots s j \<noteq> None) \<and>
          table_slots s' = (table_slots s)(i \<mapsto> p)))"
    unfolding s table_simps(5) by (metis table_simps(5))
next
  fix s p r s'
  assume inv: "table_inv Q s" and rm: "table_remove p s = (r, s')"
  obtain K V b where s: "s = (K, V, b)" by (rule prod_cases3)
  have "chip_documented K V" "Q K V" using inv by (simp_all add: s table_simps)
  then have doc: "table_ok K V b' \<Longrightarrow> table_inv Q (K, V, b')" for b' by (simp add: table_simps)
  obtain r' b' where l: "table_remove p (K, V, b) = (r', K, V, b')" "table_ok K V b'"
    "\<forall>q u. table_fits q u (K, V, b) \<longrightarrow> table_fits q u (K, V, b')"
    "r' = - 1 \<and> table_slots (K, V, b') = table_slots (K, V, b) \<and> p \<notin> ran (table_slots (K, V, b)) \<or>
     (\<exists>i. r' = int i \<and> table_slots (K, V, b) i = Some p \<and>
        table_slots (K, V, b') = (table_slots (K, V, b))(i := None))"
    by (rule table_remove_law [OF inv [unfolded s]])
  then have r: "r' = r" "s' = (K, V, b')" using rm s by simp_all
  show "table_inv Q s' \<and> (\<forall>q u. table_fits q u s \<longrightarrow> table_fits q u s') \<and>
      (r = - 1 \<and> table_slots s' = table_slots s \<and> p \<notin> ran (table_slots s) \<or>
       (\<exists>i. r = int i \<and> table_slots s i = Some p \<and> table_slots s' = (table_slots s)(i := None)))"
    using doc [OF l(2)] l(3,4) unfolding s r by (intro conjI)
qed (rule table_one_slot)

section \<open>Properties\<close>

text \<open>
  C22. \<open>RemoveDeviceEndpoint\<close> undoes \<open>AddDeviceEndpoint\<close>: taking out a device right after it was
  published returns the index of the slot it was given and restores the table and the endpoint
  storage exactly as they were before, so that the slot and the endpoint id are free again; and
  when the device could not be published, both return -1 and nothing has changed. The table,
  the storage and the devices agree throughout.
\<close>

theorem remove_undoes_add:
  assumes "chip_documented K V" and "table_ok K V b" and "heap b dev = Some d" and "is_on_off d"
    and "type_of_light d = ep" and "\<forall>i<16. gDevices b ! i \<noteq> Some dev"
    and "AddDeviceEndpoint K dev ep ts n p b = Some (r, b1)" and "RemoveDeviceEndpoint K dev b1 = (r2, b2)"
  shows "r2 = r \<and> gDevices b2 = gDevices b \<and> V (ember b2) = V (ember b) \<and> table_ok K V b1 \<and> table_ok K V b2 \<and>
    (r = - 1 \<and> b2 = b1 \<or>
     (\<exists>i<16. r = int i \<and> gDevices b1 ! i = Some dev \<and>
        V (ember b1) i = Some (gCurrentEndpointId b1, ep) \<and> \<not> in_use V (ember b2) (gCurrentEndpointId b1)))"
proof -
  note c = chip_parts [OF assms(1)]
  have sd: "set_endpoint_documented (ember_api K) V" using c(3) unfolding ember_documented_def by (rule conjunct1)
  have inv: "table_inv (\<lambda>K V. True) (K, V, b)" using assms(1,2) by (simp add: table_simps)
  have fits: "table_fits dev ep (K, V, b)" using assms(3-5) by (simp add: table_simps)
  have ran: "dev \<notin> ran (table_slots (K, V, b))" using assms(6) by (simp add: table_ran)
  have t: "table_add (ts, n, p) dev ep (K, V, b) = Some (r, K, V, b1)" "table_remove dev (K, V, b1) = (r2, K, V, b2)"
    using assms(7) table_simps(2) [OF assms(8)] by (simp_all add: table_simps)
  from bridge_table.add_remove [OF inv fits ran t] have e: "r2 = r" "table_ok K V b2"
    by (simp_all add: table_simps)
  have post: "add_post K V dev ep ts n p b r b1"
    using AddDeviceEndpoint_law [OF c(2) sd assms(2-6), of ts n p] assms(7) by auto
  then have ok: "table_ok K V b1" by (simp add: add_post_def)
  note law = RemoveDeviceEndpoint_law [OF c(3) ok assms(8)]
  from post consider (not_added) "r = - 1" "gDevices b1 = gDevices b" "V (ember b1) = V (ember b)"
    | (added) i where "i < 16" "r = int i" "gDevices b ! i = None" "gDevices b1 = (gDevices b)[i := Some dev]"
      "\<not> in_use V (ember b) (gCurrentEndpointId b1)"
      "V (ember b1) = (V (ember b))(i := Some (gCurrentEndpointId b1, ep))"
    unfolding add_post_def by blast
  then show ?thesis
  proof cases
    case not_added
    then have "b2 = b1" using law assms(6) by auto
    then show ?thesis using not_added e ok by simp
  next
    case (added i)
    have l: "gDevices b2 = (gDevices b1)[i := None]" "V (ember b2) = (V (ember b1))(i := None)"
      using law added(2) e(1) by auto
    have "V (ember b) i = None"
      using table_okD(4) [OF assms(2) added(1)] added(3) by (simp add: slot_ok_def)
    then have v: "V (ember b2) = V (ember b)" using added(6) l(2) by (simp add: fun_upd_idem)
    have "gDevices b2 = gDevices b" using added(3,4) l(1) by (metis list_update_id list_update_overwrite)
    moreover have "gDevices b1 ! i = Some dev" using added(1,4) table_okD(1) [OF assms(2)] by simp
    moreover have "\<not> in_use V (ember b2) (gCurrentEndpointId b1)" using added(5) v by (simp add: in_use_def)
    ultimately show ?thesis using added(1,2,6) e ok v by auto
  qed
qed

theorem remove_undoes_add_witness:
  "\<exists>r b1 b2. AddDeviceEndpoint mem_chip 0 bridgedLightEndpoint [(0x0100, 1)] 3 1 mem_bridge = Some (r, b1) \<and>
     RemoveDeviceEndpoint mem_chip 0 b1 = (0, b2) \<and> gDevices b1 ! 0 = Some 0 \<and> gDevices b2 = gDevices mem_bridge"
proof -
  have h: "heap mem_bridge 0 = Some mem_light" by (simp add: mem_bridge_def empty_bridge_def)
  have fr: "\<forall>i<16. gDevices mem_bridge ! i \<noteq> Some 0" by (simp add: mem_bridge_def empty_bridge_def)
  have g: "gDevices mem_bridge = replicate 17 None" by (simp add: mem_bridge_def empty_bridge_def)
  have s: "find (\<lambda>index. gDevices mem_bridge ! index = None) [0..<endpoint_slots] = Some 0"
    by (simp add: find_upt_Some g endpoint_slots_def CHIP_DEVICE_CONFIG_DYNAMIC_ENDPOINT_COUNT_def)
  let ?b = "mem_bridge\<lparr>gDevices := (gDevices mem_bridge)[0 := Some 0]\<rparr>"
  obtain slots where set: "mem_set_endpoint 0 3 bridgedLightEndpoint 3 [(0x0100, 1)] 1 (replicate 16 None) = (0, slots)"
    using find_slot_in_use [of 3 "replicate 16 None"] by (auto simp: mem_set_endpoint_def in_use_def mem_slot_def)
  have f: "gCurrentEndpointId mem_bridge = 3" "ember mem_bridge = replicate 16 None" by (simp_all add: mem_bridge_def empty_bridge_def)
  have k: "emberAfSetDynamicEndpoint (ember_api mem_chip) = mem_set_endpoint" "CHIP_NO_ERROR (ember_api mem_chip) = 0"
    by (simp_all add: mem_chip_def mem_ember_api_def)
  have "\<exists>b1. add_endpoint_loop mem_chip 0 0 bridgedLightEndpoint [(0x0100, 1)] 3 1 ?b = Some (True, b1)"
    using set by (intro exI trans [OF add_endpoint_loop.simps]) (simp add: Let_def on_object_def f k)
  then obtain b1 where
    l: "add_endpoint_loop mem_chip 0 0 bridgedLightEndpoint [(0x0100, 1)] 3 1 ?b = Some (True, b1)" by blast
  have a: "AddDeviceEndpoint mem_chip 0 bridgedLightEndpoint [(0x0100, 1)] 3 1 mem_bridge = Some (0, b1)"
    using l by (simp add: AddDeviceEndpoint_def s)
  obtain r2 b2 where rm: "RemoveDeviceEndpoint mem_chip 0 b1 = (r2, b2)" by (rule prod.exhaust)
  from remove_undoes_add [OF mem_chip_documented mem_bridge_table_ok h mem_light_facts(1,2) fr a rm] a rm
  show ?thesis by auto
qed

end
