(* ===== verification/Bridge_System.thy ===== *)
theory Bridge_System
  imports Boot
begin

text \<open>
  The running program as a labelled step relation: the clock, attribute writes of a
  controller, state events of the engine, the work queue of the Matter thread and the
  detached command threads, which run in any order. From startup on, the invariant holds in
  every reachable state and no step can fault; the other properties are about the sequences
  of steps.
\<close>

section \<open>Steps\<close>

type_synonym attribute_path = "u16 \<times> u32 \<times> u32"

record ('d, 'e, 'g) system =
  clock :: int
  bridge_state :: "('d, 'e) bridge"
  adapter_state :: "('g, state_callback) adapter"
  reported :: "attribute_path list"

text \<open>One item of the work queue: a report to the subscribers, or an engine event.\<close>

definition run_work ::
    "('d, 'e) chip \<Rightarrow> int \<Rightarrow> work_item \<Rightarrow> ('d, 'e) bridge \<Rightarrow> fault + ('d, 'e) bridge \<times> attribute_path list" where
  "run_work K now item b =
     (case item of
        CallReportingCallback ep cluster attr \<Rightarrow> Inr (b, [(ep, cluster, attr)])
      | HandleWemoEvent ctx \<Rightarrow>
          (case HandleWemoEventOnMatterThread K now ctx b of
             Inl f \<Rightarrow> Inl f
           | Inr b \<Rightarrow> Inr (b, [])))"

text \<open>The engine calls \<open>OnWeStateEvent\<close>, which hands the event to the registered callback.\<close>

definition deliver_event ::
    "('d, 'e) chip \<Rightarrow> ('g, state_callback) adapter \<Rightarrow> int \<Rightarrow> we_state option \<Rightarrow> ('d, 'e) bridge \<Rightarrow>
     ('d, 'e) bridge" where
  "deliver_event K a wemo_id data b =
     (case OnWeStateEvent a wemo_id data of
        Some (CbOnWemoStateEvent, ev) \<Rightarrow> OnWemoStateEvent K ev b
      | None \<Rightarrow> b)"

definition run_command :: "'g engine \<Rightarrow> wemo_job \<Rightarrow> ('g, 'c) adapter \<Rightarrow> ('g, 'c) adapter" where
  "run_command E j a = run_job (\<lambda>a u on. SetOnOff E u on a) (\<lambda>a u p. SetLevelPercent E u p a) j a"

text \<open>The stack asks an endpoint only for the clusters it was declared with.\<close>

definition served :: "('d, 'e) chip \<Rightarrow> 'e ember_view \<Rightarrow> ('d, 'e) bridge \<Rightarrow> u16 \<Rightarrow> u32 \<Rightarrow> bool" where
  "served K V b ep cluster \<longleftrightarrow> (\<forall>i t. V (ember b) i = Some (ep, t) \<longrightarrow> cluster \<in> set (endpoint_clusters (ids K) t))"

datatype label =
    Tick int
  | Write u16 u32 u32 "u8 list"
  | EngineEvent int "we_state option"
  | RunWork
  | RunThread nat

inductive system_step ::
    "('d, 'e) chip \<Rightarrow> 'e ember_view \<Rightarrow> 'g engine \<Rightarrow> label \<Rightarrow> ('d, 'e, 'g) system \<Rightarrow> ('d, 'e, 'g) system \<Rightarrow> bool"
  for K :: "('d, 'e) chip" and V :: "'e ember_view" and E :: "'g engine" where
  tick: "0 \<le> dt \<Longrightarrow> system_step K V E (Tick dt) s (s\<lparr>clock := clock s + dt\<rparr>)"
| attr_write: "served K V (bridge_state s) ep cluster \<Longrightarrow> clock s \<le> later \<Longrightarrow>
    emberAfExternalAttributeWriteCallback K (clock s) later ep cluster attr buf (bridge_state s) = Inr (st, b') \<Longrightarrow>
    system_step K V E (Write ep cluster attr buf) s (s\<lparr>clock := later, bridge_state := b'\<rparr>)"
| engine_event: "system_step K V E (EngineEvent wemo_id data) s
    (s\<lparr>bridge_state := deliver_event K (adapter_state s) wemo_id data (bridge_state s)\<rparr>)"
| matter_work: "work (bridge_state s) = item # rest \<Longrightarrow>
    run_work K (clock s) item (bridge_state s\<lparr>work := rest\<rparr>) = Inr (b', rs) \<Longrightarrow>
    system_step K V E RunWork s (s\<lparr>bridge_state := b', reported := reported s @ rs\<rparr>)"
| thread: "i < length (threads (bridge_state s)) \<Longrightarrow>
    system_step K V E (RunThread i) s
      (s\<lparr>bridge_state := bridge_state s\<lparr>threads := take i (threads (bridge_state s)) @
            drop (Suc i) (threads (bridge_state s))\<rparr>,
         adapter_state := run_command E (threads (bridge_state s) ! i) (adapter_state s)\<rparr>)"

inductive_cases tickE: "system_step K V E (Tick dt) s s'"
inductive_cases writeE: "system_step K V E (Write ep cluster attr buf) s s'"
inductive_cases eventE: "system_step K V E (EngineEvent wemo_id data) s s'"
inductive_cases workE: "system_step K V E RunWork s s'"
inductive_cases threadE: "system_step K V E (RunThread i) s s'"

text \<open>A step that the source would take into undefined behaviour.\<close>

definition can_fault :: "('d, 'e) chip \<Rightarrow> 'e ember_view \<Rightarrow> ('d, 'e, 'g) system \<Rightarrow> bool" where
  "can_fault K V s \<longleftrightarrow>
     (\<exists>ep cluster attr buf later f. served K V (bridge_state s) ep cluster \<and>
        emberAfExternalAttributeWriteCallback K (clock s) later ep cluster attr buf (bridge_state s) = Inl f) \<or>
     (\<exists>ep cluster attr buf n f. served K V (bridge_state s) ep cluster \<and>
        emberAfExternalAttributeReadCallback K ep cluster attr buf n (bridge_state s) = Inl f) \<or>
     (\<exists>item rest f. work (bridge_state s) = item # rest \<and>
        run_work K (clock s) item (bridge_state s\<lparr>work := rest\<rparr>) = Inl f)"

inductive system_run ::
    "('d, 'e) chip \<Rightarrow> 'e ember_view \<Rightarrow> 'g engine \<Rightarrow> ('d, 'e, 'g) system \<Rightarrow> label list \<Rightarrow> ('d, 'e, 'g) system \<Rightarrow> bool"
  for K :: "('d, 'e) chip" and V :: "'e ember_view" and E :: "'g engine" and s :: "('d, 'e, 'g) system" where
  run_nil: "system_run K V E s [] s"
| run_step: "system_run K V E s ls s1 \<Longrightarrow> system_step K V E l s1 s2 \<Longrightarrow> system_run K V E s (ls @ [l]) s2"

section \<open>What a step leaves alone\<close>

text \<open>Which lights there are, and how they are wired to the table and the engine.\<close>

definition same_setup :: "('d, 'e) bridge \<Rightarrow> ('d, 'e) bridge \<Rightarrow> bool" where
  "same_setup b b' \<longleftrightarrow>
     map (\<lambda>e. (bl_wemo_id e, bl_udn e, bl_is_dimmable e, bl_device e)) (gBridgedWemoLights b') =
     map (\<lambda>e. (bl_wemo_id e, bl_udn e, bl_is_dimmable e, bl_device e)) (gBridgedWemoLights b) \<and>
     gDevices b' = gDevices b \<and> gWemoDeviceToUdn b' = gWemoDeviceToUdn b \<and> ember b' = ember b"

lemma same_setup_refl [simp]: "same_setup b b"
  by (simp add: same_setup_def)

lemma same_setup_trans: "same_setup a b \<Longrightarrow> same_setup b c \<Longrightarrow> same_setup a c"
  by (simp add: same_setup_def)

lemma same_setup_ops [simp]:
  "same_setup b (put_device K p r b1) = same_setup b b1"
  "same_setup b (start_thread j b1) = same_setup b b1"
  "same_setup b (ScheduleWork K w b1) = same_setup b b1"
  "same_setup b (b1\<lparr>work := ws\<rparr>) = same_setup b b1" "same_setup b (b1\<lparr>threads := js\<rparr>) = same_setup b b1"
  by (simp_all add: same_setup_def ScheduleWork_frame)

lemma same_setup_update:
  assumes "same_setup b b1"
    and "\<And>e. (bl_wemo_id (f e), bl_udn (f e), bl_is_dimmable (f e), bl_device (f e)) =
      (bl_wemo_id e, bl_udn e, bl_is_dimmable e, bl_device e)"
  shows "same_setup b (update_light p f b1)"
    "same_setup b (b1\<lparr>gBridgedWemoLights := update_first P f (gBridgedWemoLights b1)\<rparr>)"
  using assms by (simp_all add: same_setup_def map_update_first)

text \<open>A command on its way to the engine: for a published light, with a percentage.\<close>

fun job_known :: "('d, 'e) bridge \<Rightarrow> wemo_job \<Rightarrow> bool" where
  "job_known b (JobOnOff udn on) = (udn \<in> ran (gWemoDeviceToUdn b))"
| "job_known b (JobLevel udn p) = (udn \<in> ran (gWemoDeviceToUdn b) \<and> uint p \<le> 100)"

lemma job_known_setup: "same_setup b b' \<Longrightarrow> job_known b' j = job_known b j"
  by (cases j) (simp_all add: same_setup_def)

lemma job_known_queues [simp]:
  "job_known (b\<lparr>threads := js\<rparr>) j = job_known b j" "job_known (b\<lparr>work := ws\<rparr>) j = job_known b j"
  by (cases j; simp)+

definition one_more_job :: "('d, 'e) bridge \<Rightarrow> ('d, 'e) bridge \<Rightarrow> bool" where
  "one_more_job b b' \<longleftrightarrow>
     threads b' = threads b \<or> (\<exists>j. threads b' = threads b @ [j] \<and> job_known b j)"

lemma on_off_frame:
  "same_setup b (snd (HandleWriteOnOffAttribute K now p d a buf b)) \<and>
   one_more_job b (snd (HandleWriteOnOffAttribute K now p d a buf b))"
  by (auto simp: HandleWriteOnOffAttribute_def Let_def one_more_job_def same_setup_update ranI
      split: option.splits)

lemma level_frame:
  "same_setup b (snd (HandleWriteLevelControlAttribute K now later p d a buf b)) \<and>
   one_more_job b (snd (HandleWriteLevelControlAttribute K now later p d a buf b))"
  by (auto simp: HandleWriteLevelControlAttribute_def Let_def one_more_job_def same_setup_update ranI
      matter_to_wemo_le_100 split: option.splits)

lemma basic_frame:
  "same_setup b (snd (HandleWriteBridgedDeviceBasicAttribute K p d a buf b)) \<and>
   one_more_job b (snd (HandleWriteBridgedDeviceBasicAttribute K p d a buf b))"
  by (auto simp: HandleWriteBridgedDeviceBasicAttribute_def Let_def one_more_job_def split: prod.splits)

text \<open>A write either fails, or is one of the three handlers at the device in the slot.\<close>

lemma write_callback_cases:
  assumes "emberAfExternalAttributeWriteCallback K now later ep cluster attr buf b = Inr (st, b')"
  obtains (none) "b' = b"
  | (on_off) i p d where "unat (emberAfGetDynamicIndexFromEndpoint (ember_api K) ep (ember b)) = i"
      "i < endpoint_slots" "gDevices b ! i = Some p" "heap b p = Some d" "cluster = OnOff_Id (ids K)"
      "b' = snd (HandleWriteOnOffAttribute K now p d attr buf b)"
  | (level) i p d where "unat (emberAfGetDynamicIndexFromEndpoint (ember_api K) ep (ember b)) = i"
      "i < endpoint_slots" "gDevices b ! i = Some p" "heap b p = Some d" "cluster = LevelControl_Id (ids K)"
      "b' = snd (HandleWriteLevelControlAttribute K now later p d attr buf b)"
  | (basic) i p d where "unat (emberAfGetDynamicIndexFromEndpoint (ember_api K) ep (ember b)) = i"
      "i < endpoint_slots" "gDevices b ! i = Some p" "heap b p = Some d"
      "b' = snd (HandleWriteBridgedDeviceBasicAttribute K p d attr buf b)"
proof -
  let ?i = "unat (emberAfGetDynamicIndexFromEndpoint (ember_api K) ep (ember b))"
  note run = assms [unfolded emberAfExternalAttributeWriteCallback_def Let_def]
  show ?thesis
  proof (cases "?i < endpoint_slots")
    case False
    then show ?thesis using run none by simp
  next
    case True
    then obtain p where p: "gDevices b ! ?i = Some p" using run by (cases "gDevices b ! ?i") simp_all
    then obtain d where d: "heap b p = Some d" using run True by (cases "heap b p") simp_all
    have "b' = b \<or>
        cluster = OnOff_Id (ids K) \<and> HandleWriteOnOffAttribute K now p d attr buf b = (st, b') \<or>
        cluster = LevelControl_Id (ids K) \<and> HandleWriteLevelControlAttribute K now later p d attr buf b = (st, b') \<or>
        HandleWriteBridgedDeviceBasicAttribute K p d attr buf b = (st, b')"
      using run True p d by (simp split: if_splits)
    then show ?thesis
      using none on_off [OF refl True p d] level [OF refl True p d] basic [OF refl True p d]
      by (metis snd_conv)
  qed
qed

lemma write_callback_frame:
  assumes "emberAfExternalAttributeWriteCallback K now later ep cluster attr buf b = Inr (st, b')"
  shows "same_setup b b' \<and> one_more_job b b'"
  using assms
proof (cases rule: write_callback_cases)
  case none
  then show ?thesis by (simp add: one_more_job_def)
qed (simp_all add: on_off_frame level_frame basic_frame)


section \<open>The invariant of the running program\<close>

definition system_inv :: "('d, 'e) chip \<Rightarrow> 'e ember_view \<Rightarrow> ('d, 'e, 'g) system \<Rightarrow> bool" where
  "system_inv K V s \<longleftrightarrow> bridge_ok K V (bridge_state s) \<and> engine_protocol (adapter_state s) \<and>
     (\<forall>j\<in>set (threads (bridge_state s)). job_known (bridge_state s) j)"

lemma bridge_ok_queues [simp]:
  "bridge_ok K V (b\<lparr>work := ws\<rparr>) = bridge_ok K V b" "bridge_ok K V (b\<lparr>threads := js\<rparr>) = bridge_ok K V b"
proof -
  have t: "table_ok K V (b\<lparr>work := ws\<rparr>) = table_ok K V b" "table_ok K V (b\<lparr>threads := js\<rparr>) = table_ok K V b"
    by ((rule iffI; erule table_ok_cong), simp_all)+
  show "bridge_ok K V (b\<lparr>work := ws\<rparr>) = bridge_ok K V b" "bridge_ok K V (b\<lparr>threads := js\<rparr>) = bridge_ok K V b"
    unfolding bridge_ok_def t by (simp_all add: light_ok_def published_def)
qed

lemma bridge_ok_schedule: "bridge_ok K V b \<Longrightarrow> bridge_ok K V (ScheduleWork K w b)"
  by (simp add: ScheduleWork_def)

lemma deliver_event_cases:
  "deliver_event K a i data b = b \<or>
   (\<exists>ev. OnWeStateEvent a i data = Some (CbOnWemoStateEvent, ev) \<and>
      deliver_event K a i data b = ScheduleWork K (HandleWemoEvent (context_of_event ev)) b)"
  by (cases "OnWeStateEvent a i data")
    (auto simp: deliver_event_def OnWemoStateEvent_def intro: state_callback.exhaust split: state_callback.splits)

text \<open>What handling an engine event does to the bridge.\<close>

lemma event_effect:
  assumes "chip_documented K V" and ok: "bridge_ok K V b"
    and run: "HandleWemoEventOnMatterThread K now ctx b = Inr b'"
  obtains (unknown) "b' = b"
  | (light) e d d' w where "find (\<lambda>entry. bl_wemo_id entry = cx_wemo_id ctx) (gBridgedWemoLights b) = Some e"
      "heap b (bl_device e) = Some d"
      "b' = put_device K (bl_device e) (d', w)
         (b\<lparr>gBridgedWemoLights := update_first (\<lambda>entry. bl_wemo_id entry = cx_wemo_id ctx)
           (event_entry now ctx) (gBridgedWemoLights b)\<rparr>)"
      "state_of K d' = event_spec now ctx e (state_of K d)" "same_wiring K d d'"
      "w = change_reports K (view_endpoint (dview K d)) (state_of K d) (state_of K d')"
proof (cases "find (\<lambda>entry. bl_wemo_id entry = cx_wemo_id ctx) (gBridgedWemoLights b)")
  case None
  then show ?thesis using run unknown by (simp add: HandleWemoEventOnMatterThread_def)
next
  case (Some e)
  note c = chip_parts [OF assms(1)]
  have "e \<in> set (gBridgedWemoLights b)" using Some by (auto simp: find_Some_iff)
  then obtain d where h: "heap b (bl_device e) = Some d"
    using bridge_okD(2) [OF ok] by (auto simp: light_ok_def)
  from event_on_bridge [OF c(1,2) ok Some h, of now] show ?thesis
    using light [OF Some h] run by (metis sum.inject(2))
qed

lemma event_frame:
  assumes "chip_documented K V" and "bridge_ok K V b"
    and "HandleWemoEventOnMatterThread K now ctx b = Inr b'"
  shows "same_setup b b'"
  using assms
proof (cases rule: event_effect)
  case (light e d d' w)
  show ?thesis unfolding light(3) same_setup_ops by (rule same_setup_update) simp_all
qed simp

lemma run_work_keeps:
  assumes "chip_documented K V" and ok: "bridge_ok K V b"
  obtains b' rs where "run_work K now item b = Inr (b', rs)" "bridge_ok K V b'" "same_setup b b'"
    "threads b' = threads b"
proof (cases item)
  case (CallReportingCallback ep cluster attr)
  then show ?thesis using that ok by (simp add: run_work_def)
next
  case (HandleWemoEvent ctx)
  obtain b' where "HandleWemoEventOnMatterThread K now ctx b = Inr b'" "bridge_ok K V b'" "threads b' = threads b"
    using event_keeps [OF chip_parts(1,2) [OF assms(1)] ok] by blast
  then show ?thesis using that event_frame [OF assms] HandleWemoEvent by (simp add: run_work_def)
qed

lemma run_command_keeps:
  assumes "engine_protocol a"
  shows "engine_protocol (run_command E j a) \<and>
    (actions (calls (run_command E j a)) = actions (calls a) \<or>
     (\<exists>i. actions (calls (run_command E j a)) = actions (calls a) @ [(i, job_command j)]))"
  using openwemo.run_job_law [OF assms, of E j] by (simp add: run_command_def)

lemma system_step_keeps:
  assumes doc: "chip_documented K V" and inv: "system_inv K V s" and step: "system_step K V E l s s'"
  shows "system_inv K V s' \<and> same_setup (bridge_state s) (bridge_state s')"
  using step
proof cases
  case (tick dt)
  then show ?thesis using inv by (simp add: system_inv_def)
next
  case (attr_write ep cluster later attr buf st b')
  have ok: "bridge_ok K V (bridge_state s)" using inv by (simp add: system_inv_def)
  note f = write_callback_frame [OF attr_write(5)]
  have "bridge_ok K V b'"
    using callbacks_served [OF doc ok attr_write(3) [unfolded served_def], of attr buf 0 "clock s" later]
      attr_write(5) by simp
  moreover have "\<forall>j\<in>set (threads b'). job_known b' j"
    using f inv by (auto simp: one_more_job_def system_inv_def job_known_setup)
  ultimately show ?thesis using attr_write(2) f inv by (simp add: system_inv_def)
next
  case (engine_event i data)
  let ?b = "bridge_state s"
  have "same_setup ?b (deliver_event K (adapter_state s) i data ?b)"
    "bridge_ok K V ?b \<Longrightarrow> bridge_ok K V (deliver_event K (adapter_state s) i data ?b)"
    "threads (deliver_event K (adapter_state s) i data ?b) = threads ?b"
    using deliver_event_cases [of K "adapter_state s" i data ?b] bridge_ok_schedule
    by (auto simp: ScheduleWork_frame)
  then show ?thesis using engine_event(2) inv by (simp add: system_inv_def job_known_setup)
next
  case (matter_work item rest b' rs)
  have "bridge_ok K V (bridge_state s\<lparr>work := rest\<rparr>)" using inv by (simp add: system_inv_def)
  then obtain b1 rs1 where "run_work K (clock s) item (bridge_state s\<lparr>work := rest\<rparr>) = Inr (b1, rs1)"
    "bridge_ok K V b1" "same_setup (bridge_state s\<lparr>work := rest\<rparr>) b1"
    "threads b1 = threads (bridge_state s\<lparr>work := rest\<rparr>)"
    by (rule run_work_keeps [OF doc])
  then have k: "bridge_ok K V b'" "same_setup (bridge_state s) b'" "threads b' = threads (bridge_state s)"
    using matter_work(4) by (simp_all add: same_setup_def)
  then show ?thesis using matter_work(2) inv by (simp add: system_inv_def job_known_setup [OF k(2)])
next
  case (thread i)
  let ?b = "bridge_state s"
  have t: "set (take i (threads ?b) @ drop (Suc i) (threads ?b)) \<subseteq> set (threads ?b)"
    by (auto dest: in_set_takeD in_set_dropD)
  then have "\<forall>j\<in>set (take i (threads ?b) @ drop (Suc i) (threads ?b)). job_known ?b j"
    using inv unfolding system_inv_def by blast
  then show ?thesis
    using thread(2) inv run_command_keeps [of "adapter_state s" E "threads ?b ! i"]
    by (simp add: system_inv_def)
qed

lemma system_inv_no_fault:
  assumes doc: "chip_documented K V" and inv: "system_inv K V s"
  shows "\<not> can_fault K V s"
proof -
  have ok: "bridge_ok K V (bridge_state s)" using inv by (simp add: system_inv_def)
  have "\<exists>x. run_work K (clock s) item (bridge_state s\<lparr>work := rest\<rparr>) = Inr x" for item rest
    using run_work_keeps [OF doc, of "bridge_state s\<lparr>work := rest\<rparr>" "clock s" item] ok
    by (metis bridge_ok_queues(1))
  then have w: "run_work K (clock s) item (bridge_state s\<lparr>work := rest\<rparr>) \<noteq> Inl f" for item rest f
    by (metis sum.distinct(1))
  have c: "emberAfExternalAttributeWriteCallback K (clock s) later ep cluster attr buf (bridge_state s) \<noteq> Inl f"
    "emberAfExternalAttributeReadCallback K ep cluster attr buf n (bridge_state s) \<noteq> Inl f"
    if "served K V (bridge_state s) ep cluster" for later ep cluster attr buf n f
    using callbacks_served [OF doc ok that [unfolded served_def], of attr buf n "clock s" later] by auto
  show ?thesis unfolding can_fault_def using w c by blast
qed

lemma system_run_keeps:
  assumes doc: "chip_documented K V"
  shows "system_run K V E s ls s' \<Longrightarrow> system_inv K V s \<Longrightarrow>
    system_inv K V s' \<and> same_setup (bridge_state s) (bridge_state s')"
proof (induction rule: system_run.induct)
  case (run_step ls s1 l s2)
  then have "system_inv K V s1" "same_setup (bridge_state s) (bridge_state s1)" by simp_all
  from system_step_keeps [OF doc this(1) run_step.hyps(2)] same_setup_trans [OF this(2)]
  show ?case by blast
qed simp

text \<open>The state in which the main loop starts.\<close>

definition boots_to ::
    "('d, 'e) chip \<Rightarrow> 'e ember_view \<Rightarrow> 'g engine \<Rightarrow> ('d, 'e, 'g) system \<Rightarrow> bool" where
  "boots_to K V E s \<longleftrightarrow>
     (\<exists>b a. fresh_boot K V b \<and> threads b = [] \<and> engine_protocol a \<and> actions (calls a) = [] \<and>
        ApplicationInit K E b a = Some (bridge_state s, adapter_state s))"

lemma boots_to_inv:
  assumes doc: "chip_documented K V" and "boots_to K V E s"
  shows "system_inv K V s \<and> actions (calls (adapter_state s)) = [] \<and> threads (bridge_state s) = []"
proof -
  obtain b a where b: "fresh_boot K V b" "threads b = []" "engine_protocol a" "actions (calls a) = []"
    "ApplicationInit K E b a = Some (bridge_state s, adapter_state s)"
    using assms(2) unfolding boots_to_def by blast
  obtain ds a1 where d: "Discover E a = (ds, a1)" by (rule prod.exhaust)
  show ?thesis using startup_law [OF doc b(1,3) d] b(2,4,5) by (auto simp: system_inv_def)
qed


section \<open>Properties\<close>

text \<open>
  C4. From startup on, whatever sequence of clock ticks, attribute writes, engine events,
  queued work and command threads the program goes through, no read, write or queued event
  can dereference a null or dangling device or misuse one; the lights stay published, each
  with its engine id, UDN, slot and endpoint; the engine is used according to its protocol;
  and every command still on its way is for a published light.
\<close>

theorem system_never_faults:
  assumes "chip_documented K V" and "boots_to K V E s" and "system_run K V E s ls s'"
  shows "\<not> can_fault K V s' \<and> bridge_ok K V (bridge_state s') \<and> same_setup (bridge_state s) (bridge_state s') \<and>
    engine_protocol (adapter_state s') \<and> (\<forall>j\<in>set (threads (bridge_state s')). job_known (bridge_state s) j)"
proof -
  note b = boots_to_inv [OF assms(1,2)]
  have r: "system_inv K V s'" "same_setup (bridge_state s) (bridge_state s')"
    using system_run_keeps [OF assms(1,3)] b by blast+
  then show ?thesis
    using system_inv_no_fault [OF assms(1) r(1)] by (simp add: system_inv_def job_known_setup [OF r(2)])
qed

lemma lamp_boots:
  obtains s where "boots_to mem_chip mem_slot (list_engine [lamp_info]) s" "clock s = 0"
proof -
  let ?a = "new_adapter ''127.0.0.1:49153'' () :: (unit, state_callback) adapter"
  obtain ds a1 where d: "Discover (list_engine [lamp_info]) ?a = (ds, a1)" by (rule prod.exhaust)
  obtain b' a' where run: "ApplicationInit mem_chip (list_engine [lamp_info]) lamp_boot ?a = Some (b', a')"
    using startup_law [OF mem_chip_documented lamp_boot_fresh new_adapter_protocol d] by blast
  have "threads lamp_boot = []" "actions (calls ?a) = []"
    by (simp_all add: lamp_boot_def empty_bridge_def new_adapter_def)
  then show ?thesis
    using that [of "\<lparr>clock = 0, bridge_state = b', adapter_state = a', reported = []\<rparr>"] run
      lamp_boot_fresh new_adapter_protocol [of "''127.0.0.1:49153''" "()"]
    unfolding boots_to_def by fastforce
qed

theorem system_never_faults_witness:
  "\<exists>s s'. boots_to mem_chip mem_slot (list_engine [lamp_info]) s \<and>
     system_run mem_chip mem_slot (list_engine [lamp_info]) s [EngineEvent 7 (Some \<lparr>ws_is_online = 1, ws_state = 1, ws_level = 40\<rparr>)] s' \<and>
     \<not> can_fault mem_chip mem_slot s'"
proof -
  obtain s where s: "boots_to mem_chip mem_slot (list_engine [lamp_info]) s" by (rule lamp_boots)
  obtain s' where r: "system_run mem_chip mem_slot (list_engine [lamp_info]) s
      ([] @ [EngineEvent 7 (Some \<lparr>ws_is_online = 1, ws_state = 1, ws_level = 40\<rparr>)]) s'"
    using run_step [OF run_nil engine_event] by blast
  from system_never_faults [OF mem_chip_documented s r] s r show ?thesis by auto
qed

fun is_write :: "label \<Rightarrow> bool" where
  "is_write (Write ep cluster attr buf) = True"
| "is_write l = False"

text \<open>The commands sent so far, and those still on their way.\<close>

definition command_count :: "('d, 'e, 'g) system \<Rightarrow> nat" where
  "command_count s = length (actions (calls (adapter_state s))) + length (threads (bridge_state s))"

definition commands_wf :: "('d, 'e, 'g) system \<Rightarrow> bool" where
  "commands_wf s \<longleftrightarrow> (\<forall>c\<in>set (actions (calls (adapter_state s))). command_wf (snd c))"

lemma system_step_commands:
  assumes doc: "chip_documented K V" and inv: "system_inv K V s" and step: "system_step K V E l s s'"
  shows "command_count s' \<le> command_count s + (if is_write l then 1 else 0) \<and>
    (commands_wf s \<longrightarrow> commands_wf s')"
  using step
proof cases
  case (attr_write ep cluster later attr buf st b')
  show ?thesis
    using write_callback_frame [OF attr_write(5)] attr_write(1,2)
    by (auto simp: command_count_def commands_wf_def one_more_job_def)
next
  case (engine_event i data)
  have "threads (deliver_event K (adapter_state s) i data (bridge_state s)) = threads (bridge_state s)"
    using deliver_event_cases [of K "adapter_state s" i data "bridge_state s"] by (auto simp: ScheduleWork_frame)
  then show ?thesis using engine_event by (simp add: command_count_def commands_wf_def)
next
  case (matter_work item rest b' rs)
  have "bridge_ok K V (bridge_state s\<lparr>work := rest\<rparr>)" using inv by (simp add: system_inv_def)
  then obtain b1 rs1 where "run_work K (clock s) item (bridge_state s\<lparr>work := rest\<rparr>) = Inr (b1, rs1)"
    "threads b1 = threads (bridge_state s\<lparr>work := rest\<rparr>)"
    using run_work_keeps [OF doc] by metis
  then show ?thesis using matter_work by (simp add: command_count_def commands_wf_def)
next
  case (thread i)
  have p: "engine_protocol (adapter_state s)" using inv by (simp add: system_inv_def)
  note k = run_command_keeps [OF p, of E "threads (bridge_state s) ! i"]
  then have "length (actions (calls (run_command E (threads (bridge_state s) ! i) (adapter_state s)))) \<le>
      Suc (length (actions (calls (adapter_state s))))" by auto
  moreover have "commands_wf s \<longrightarrow> commands_wf s'"
    using k thread(2) job_command_wf by (auto simp: commands_wf_def)
  ultimately show ?thesis using thread by (auto simp: command_count_def)
qed (simp_all add: command_count_def commands_wf_def)

text \<open>
  No echo: the engine is never commanded unless a controller wrote an attribute. Over any
  run from startup the commands sent, together with those still on their way, are at most as
  many as the attribute writes, whatever events the engine delivers in between; and each
  command is a well-formed state.
\<close>

theorem commands_only_from_writes:
  assumes doc: "chip_documented K V" and boot: "boots_to K V E s" and run: "system_run K V E s ls s'"
  shows "length (actions (calls (adapter_state s'))) + length (threads (bridge_state s'))
      \<le> length (filter is_write ls) \<and>
    (\<forall>c\<in>set (actions (calls (adapter_state s'))). command_wf (snd c))"
proof -
  note b = boots_to_inv [OF doc boot]
  have "command_count s' \<le> length (filter is_write ls) \<and> commands_wf s'"
    using run
  proof (induction rule: system_run.induct)
    case run_nil
    then show ?case using b by (simp add: command_count_def commands_wf_def)
  next
    case (run_step ls s1 l s2)
    have "system_inv K V s1" using system_run_keeps [OF doc run_step.hyps(1)] b by blast
    from system_step_commands [OF doc this run_step.hyps(2)] run_step.IH show ?case by auto
  qed
  then show ?thesis by (simp add: command_count_def commands_wf_def)
qed

theorem commands_only_from_writes_witness:
  "\<exists>s s'. boots_to mem_chip mem_slot (list_engine [lamp_info]) s \<and>
     system_run mem_chip mem_slot (list_engine [lamp_info]) s [Tick 5] s' \<and>
     actions (calls (adapter_state s')) = []"
proof -
  obtain s where s: "boots_to mem_chip mem_slot (list_engine [lamp_info]) s" by (rule lamp_boots)
  have r: "system_run mem_chip mem_slot (list_engine [lamp_info]) s ([] @ [Tick 5]) (s\<lparr>clock := clock s + 5\<rparr>)"
    by (rule run_step [OF run_nil tick]) simp
  from commands_only_from_writes [OF mem_chip_documented s r]
  have "actions (calls (adapter_state (s\<lparr>clock := clock s + 5\<rparr>))) = []" by simp
  with s r show ?thesis by (metis append_Nil)
qed

end
