(* ===== verification/Settle_Window.thy ===== *)
theory Settle_Window
  imports Bridge_System
begin

text \<open>
  The settle windows of the bridge as a contract: what has to hold of a commanded value so that
  every step of the program, until the window closes, leaves it in place. The on/off and the
  level window of \<^verbatim>\<open>matter-bridge-app/main.cpp\<close> are its two instances.
\<close>

section \<open>A light with an open window\<close>

text \<open>
  The entry of the light at \<open>p\<close> satisfies \<open>Q\<close>, and the light shows a state that satisfies \<open>R\<close>
  at the endpoint \<open>ep\<close>.
\<close>

definition pinned ::
    "('d, 'e) chip \<Rightarrow> nat \<Rightarrow> u16 \<Rightarrow> (bridged_light \<Rightarrow> bool) \<Rightarrow> (light_state \<Rightarrow> bool) \<Rightarrow> ('d, 'e) bridge \<Rightarrow> bool" where
  "pinned K p ep Q R b \<longleftrightarrow>
     (\<exists>e\<in>set (gBridgedWemoLights b). bl_device e = p \<and> Q e) \<and>
     (\<exists>d. heap b p = Some d \<and> R (state_of K d) \<and> view_endpoint (dview K d) = ep)"

lemma pinned_put:
  assumes "pinned K p ep Q R b" and "heap b q = Some d"
    and "q = p \<Longrightarrow> R (state_of K d) \<Longrightarrow> R (state_of K d')"
    and "q = p \<Longrightarrow> view_endpoint (dview K d') = view_endpoint (dview K d)"
  shows "pinned K p ep Q R (put_device K q (d', w) b)"
  using assms by (auto simp: pinned_def)

lemma pinned_update:
  assumes h: "pinned K p ep Q R b"
    and f: "\<And>e. P e \<Longrightarrow> bl_device e = p \<Longrightarrow> Q e \<Longrightarrow> bl_device (f e) = p \<and> Q (f e)"
  shows "pinned K p ep Q R (b\<lparr>gBridgedWemoLights := update_first P f (gBridgedWemoLights b)\<rparr>)"
proof -
  obtain e where e: "e \<in> set (gBridgedWemoLights b)" "bl_device e = p" "Q e"
    using h unfolding pinned_def by blast
  have "\<exists>e\<in>set (update_first P f (gBridgedWemoLights b)). bl_device e = p \<and> Q e"
    using update_first_member [OF e(1), of P f] e(2,3) f [of e] by auto
  then show ?thesis using h by (simp add: pinned_def)
qed

lemma pinned_light:
  assumes "pinned K p ep Q R b"
    and "\<And>e. q = p \<Longrightarrow> bl_device e = p \<Longrightarrow> Q e \<Longrightarrow> bl_device (f e) = p \<and> Q (f e)"
  shows "pinned K p ep Q R (update_light q f b)"
  unfolding update_light_def by (rule pinned_update [OF assms(1)]) (use assms(2) in blast)

lemma pinned_queues [simp]:
  "pinned K p ep Q R (start_thread j b) = pinned K p ep Q R b"
  "pinned K p ep Q R (b\<lparr>work := ws\<rparr>) = pinned K p ep Q R b"
  "pinned K p ep Q R (b\<lparr>threads := js\<rparr>) = pinned K p ep Q R b"
  "pinned K p ep Q R (ScheduleWork K w b) = pinned K p ep Q R b"
  by (simp_all add: pinned_def ScheduleWork_frame)

lemma slot_of_endpoint:
  assumes doc: "chip_documented K V" and ok: "bridge_ok K V b"
    and i: "unat (emberAfGetDynamicIndexFromEndpoint (ember_api K) ep (ember b)) = i" "i < endpoint_slots"
    and g: "gDevices b ! i = Some p" and h: "heap b p = Some d"
  shows "view_endpoint (dview K d) = ep"
proof -
  note c = chip_parts [OF doc]
  have "in_use V (ember b) ep"
    using unpublished_index [OF c(3), of b ep] i by blast
  then obtain j t where j: "V (ember b) j = Some (ep, t)" by (auto simp: in_use_def)
  obtain e d' where e: "e \<in> set (gBridgedWemoLights b)" "heap b (bl_device e) = Some d'" "view_endpoint (dview K d') = ep"
    "gDevices b ! j = Some (bl_device e)"
    by (rule light_of_slot [OF c(4) ok j])
  have "unat (emberAfGetDynamicIndexFromEndpoint (ember_api K) ep (ember b)) = j"
    using c(3) j table_okD(6) [OF bridge_okD(1) [OF ok]] unfolding ember_documented_def by blast
  then show ?thesis using i(1) g h e(2-4) by simp
qed

lemma step_clock: "system_step K V E l s s' \<Longrightarrow> clock s \<le> clock s'"
  by (cases rule: system_step.cases) auto

text \<open>The writes that change a commanded value: to the on/off cluster, or to the level cluster.\<close>

definition switches :: "('d, 'e) chip \<Rightarrow> u16 \<Rightarrow> label \<Rightarrow> bool" where
  "switches K ep l \<longleftrightarrow> (\<exists>attr buf. l = Write ep (OnOff_Id (ids K)) attr buf)"

definition dims :: "('d, 'e) chip \<Rightarrow> u16 \<Rightarrow> label \<Rightarrow> bool" where
  "dims K ep l \<longleftrightarrow> (\<exists>attr buf. l = Write ep (LevelControl_Id (ids K)) attr buf)"

section \<open>The contract\<close>

text \<open>
  \<open>until\<close> is the end of the window; \<open>on_off_kept\<close> and \<open>level_kept\<close> say which writes of a
  controller do not touch the commanded value.
\<close>

locale command_window =
  fixes Q :: "bridged_light \<Rightarrow> bool" and R :: "light_state \<Rightarrow> bool" and until :: int
    and on_off_kept :: bool and level_kept :: bool
  assumes expired: "now \<le> until \<Longrightarrow> Q e \<Longrightarrow> Q (clear_expired now e)"
    and on_off_write: "on_off_kept \<Longrightarrow> Q e \<Longrightarrow> Q (on_off_window on t e)"
    and on_off_state: "on_off_kept \<Longrightarrow> R s \<Longrightarrow> R (s\<lparr>ls_on := on\<rparr>)"
    and level_write: "level_kept \<Longrightarrow> Q e \<Longrightarrow> Q (level_window l t e)"
    and level_state: "level_kept \<Longrightarrow> R s \<Longrightarrow> R (s\<lparr>ls_level := l\<rparr>)"
    and entry_kept: "now \<le> until \<Longrightarrow> Q e \<Longrightarrow> Q (event_entry now ctx e)"
    and event_state: "now \<le> until \<Longrightarrow> Q e \<Longrightarrow> R s \<Longrightarrow> R (event_spec now ctx e s)"
begin

lemma kept_on_off_write:
  assumes h: "pinned K p ep Q R b" and i: "ids_documented (ids K)"
    and dd: "device_documented (ids K) (dev_api K)" and d: "heap b q = Some d" and other: "q = p \<longrightarrow> on_off_kept"
  shows "pinned K p ep Q R (snd (HandleWriteOnOffAttribute K now q d attr buf b))"
proof -
  obtain d' w where r: "dev_SetOnOff K (hd buf \<noteq> 0) d = (d', w)" by (rule prod.exhaust)
  note law = dev_SetOnOff_law [OF i dd r]
  then have st: "state_of K d' = (state_of K d)\<lparr>ls_on := (hd buf \<noteq> 0)\<rparr>"
    by (simp add: state_of_def same_shell_def)
  have 1: "pinned K p ep Q R (put_device K q (d', w) b)"
    by (rule pinned_put [OF h d]) (use other law on_off_state in \<open>simp_all add: st\<close>)
  have 2: "pinned K p ep Q R (update_light q (on_off_window (hd buf \<noteq> 0) now) (put_device K q (d', w) b))"
    by (rule pinned_light [OF 1]) (use other on_off_write in \<open>simp add: on_off_window_def\<close>)
  show ?thesis using 1 2 h r
    by (auto simp: HandleWriteOnOffAttribute_def Let_def on_off_window_def [abs_def] split: option.splits)
qed

lemma kept_level_write:
  assumes h: "pinned K p ep Q R b" and now: "now \<le> until" and i: "ids_documented (ids K)"
    and d: "heap b q = Some d" and other: "q = p \<longrightarrow> level_kept"
  shows "pinned K p ep Q R (snd (HandleWriteLevelControlAttribute K now later q d attr buf b))"
proof -
  obtain d' w where r: "SetLevel K (hd buf) d = (d', w)" by (rule prod.exhaust)
  have v: "dview K d' = dview K d" and st: "state_of K d' = (state_of K d)\<lparr>ls_level := hd buf\<rparr>"
    using SetLevel_law [OF i r] by (simp_all add: dview_def state_of_def)
  let ?b1 = "update_light q (clear_expired now) b"
  have ce: "(\<lambda>entry. if commandedOnOff entry \<ge> 0 \<and> now > commandedOnOffUntil entry
      then entry\<lparr>commandedOnOff := - 1\<rparr> else entry) = clear_expired now"
    by (simp add: clear_expired_def fun_eq_iff)
  have 1: "pinned K p ep Q R ?b1" by (rule pinned_light [OF h]) (use expired [OF now] in simp)
  have 2: "pinned K p ep Q R (put_device K q (d', w) ?b1)"
    by (rule pinned_put [OF 1]) (use d v other level_state in \<open>auto simp: st\<close>)
  have 3: "pinned K p ep Q R (update_light q (level_window (hd buf) later) (put_device K q (d', w) ?b1))"
    by (rule pinned_light [OF 2]) (use other level_write in \<open>simp add: level_window_def\<close>)
  show ?thesis using 1 2 3 h r
    unfolding HandleWriteLevelControlAttribute_def ce
    by (auto simp: Let_def level_window_def [abs_def] split: option.splits)
qed

lemma kept_basic_write:
  assumes h: "pinned K p ep Q R b" and i: "ids_documented (ids K)"
    and dd: "device_documented (ids K) (dev_api K)" and d: "heap b q = Some d"
  shows "pinned K p ep Q R (snd (HandleWriteBridgedDeviceBasicAttribute K q d attr buf b))"
proof -
  obtain d' w where r: "dev_SetName K (cstr (fromZclString (ember_api K) buf)) d = (d', w)"
    by (rule prod.exhaust)
  note law = dev_SetName_law [OF i dd r]
  then have st: "state_of K d' = state_of K d" by (simp add: state_of_def same_shell_def)
  have "pinned K p ep Q R (put_device K q (d', v) b)" for v
    by (rule pinned_put [OF h d]) (use law in \<open>simp_all add: st\<close>)
  then show ?thesis using h by (simp add: HandleWriteBridgedDeviceBasicAttribute_def Let_def r)
qed

lemma kept_event:
  assumes doc: "chip_documented K V" and ok: "bridge_ok K V b" and h: "pinned K p ep Q R b"
    and now: "now \<le> until" and run: "HandleWemoEventOnMatterThread K now ctx b = Inr b'"
  shows "pinned K p ep Q R b'"
  using doc ok run
proof (cases rule: event_effect)
  case unknown
  then show ?thesis using h by simp
next
  case (light e d d' w)
  let ?b = "b\<lparr>gBridgedWemoLights := update_first (\<lambda>entry. bl_wemo_id entry = cx_wemo_id ctx)
      (event_entry now ctx) (gBridgedWemoLights b)\<rparr>"
  have 1: "pinned K p ep Q R ?b" by (rule pinned_update [OF h]) (use entry_kept [OF now] in simp)
  have e: "e \<in> set (gBridgedWemoLights b)" using light(1) by (auto simp: find_Some_iff)
  have st: "R (state_of K d')" if p: "bl_device e = p" and R: "R (state_of K d)"
  proof -
    obtain e2 where e2: "e2 \<in> set (gBridgedWemoLights b)" "bl_device e2 = p" "Q e2"
      using h unfolding pinned_def by blast
    have "e2 = e" using bridge_okD(3) [OF ok] e e2(1,2) p by (metis find_device option.inject)
    then show ?thesis using event_state [OF now _ R] e2(3) by (simp add: light(4))
  qed
  show ?thesis unfolding light(3)
    by (rule pinned_put [OF 1]) (use light(2,5) st in \<open>simp_all add: same_wiring_def\<close>)
qed

text \<open>A step before the end of the window, and a run that ends before it.\<close>

lemma kept_step:
  assumes doc: "chip_documented K V" and inv: "system_inv K V s" and h: "pinned K p ep Q R (bridge_state s)"
    and step: "system_step K V E l s s'" and now: "clock s \<le> until"
    and l: "switches K ep l \<longrightarrow> on_off_kept" "dims K ep l \<longrightarrow> level_kept"
  shows "pinned K p ep Q R (bridge_state s')"
  using step
proof cases
  case (attr_write ep' cluster later attr buf st b')
  note c = chip_parts [OF doc]
  have ok: "bridge_ok K V (bridge_state s)" using inv by (simp add: system_inv_def)
  have same: "ep' = ep" if "unat (emberAfGetDynamicIndexFromEndpoint (ember_api K) ep' (ember (bridge_state s))) = i"
    "i < endpoint_slots" "gDevices (bridge_state s) ! i = Some p" "heap (bridge_state s) p = Some d" for i d
    using slot_of_endpoint [OF doc ok that] h that(4) by (auto simp: pinned_def)
  from attr_write(5) have "pinned K p ep Q R b'"
  proof (cases rule: write_callback_cases)
    case none
    then show ?thesis using h by simp
  next
    case (on_off i q d)
    have "q = p \<longrightarrow> on_off_kept" using same [OF on_off(1,2)] on_off(3-5) l(1) attr_write(1) by (auto simp: switches_def)
    then show ?thesis unfolding on_off(6) by (rule kept_on_off_write [OF h c(1,2) on_off(4)])
  next
    case (level i q d)
    have "q = p \<longrightarrow> level_kept" using same [OF level(1,2)] level(3-5) l(2) attr_write(1) by (auto simp: dims_def)
    then show ?thesis unfolding level(6) by (rule kept_level_write [OF h now c(1) level(4)])
  next
    case (basic i q d)
    then show ?thesis using kept_basic_write [OF h c(1,2)] by simp
  qed
  then show ?thesis using attr_write(2) by simp
next
  case (engine_event i data)
  then show ?thesis
    using h deliver_event_cases [of K "adapter_state s" i data "bridge_state s"] by auto
next
  case (matter_work item rest b' rs)
  have ok: "bridge_ok K V (bridge_state s\<lparr>work := rest\<rparr>)" using inv by (simp add: system_inv_def)
  have h1: "pinned K p ep Q R (bridge_state s\<lparr>work := rest\<rparr>)" using h by simp
  have "pinned K p ep Q R b'"
  proof (cases item)
    case (CallReportingCallback e2 cl at)
    then show ?thesis using matter_work(4) h1 by (auto simp: run_work_def)
  next
    case (HandleWemoEvent ctx)
    then have "HandleWemoEventOnMatterThread K (clock s) ctx (bridge_state s\<lparr>work := rest\<rparr>) = Inr b'"
      using matter_work(4) by (auto simp: run_work_def split: sum.splits)
    from kept_event [OF doc ok h1 now this] show ?thesis .
  qed
  then show ?thesis using matter_work(2) by simp
qed (use h in simp_all)

lemma kept_run:
  assumes doc: "chip_documented K V"
  shows "system_run K V E s ls s' \<Longrightarrow> system_inv K V s \<Longrightarrow> pinned K p ep Q R (bridge_state s) \<Longrightarrow>
    clock s' \<le> until \<Longrightarrow> \<forall>l\<in>set ls. (switches K ep l \<longrightarrow> on_off_kept) \<and> (dims K ep l \<longrightarrow> level_kept) \<Longrightarrow>
    pinned K p ep Q R (bridge_state s')"
proof (induction rule: system_run.induct)
  case (run_step ls s1 l s2)
  have inv: "system_inv K V s1" using system_run_keeps [OF doc run_step.hyps(1)] run_step.prems(1) by blast
  have t: "clock s1 \<le> until" using step_clock [OF run_step.hyps(2)] run_step.prems(3) by simp
  have h: "pinned K p ep Q R (bridge_state s1)" using run_step t by simp
  show ?case by (rule kept_step [OF doc inv h run_step.hyps(2) t]) (use run_step.prems(4) in simp_all)
qed simp

end

section \<open>The two windows of the bridge\<close>

definition on_off_pinned :: "bool \<Rightarrow> int \<Rightarrow> bridged_light \<Rightarrow> bool" where
  "on_off_pinned on until e \<longleftrightarrow> commandedOnOff e = (if on then 1 else 0) \<and> commandedOnOffUntil e = until"

definition level_pinned :: "u8 \<Rightarrow> int \<Rightarrow> bridged_light \<Rightarrow> bool" where
  "level_pinned l until e \<longleftrightarrow> commandedLevel e = uint l \<and> commandedLevelUntil e = until"

interpretation on_off_command: command_window "on_off_pinned on until" "\<lambda>s. ls_on s = on" until False True
  for on until
  by unfold_locales (auto simp: on_off_pinned_def clear_expired_def level_window_def event_entry_def event_spec_def
      settling_def Let_def)

interpretation level_command: command_window "level_pinned l until" "\<lambda>s. ls_level s = l" until True False
  for l until
  by unfold_locales (auto simp: level_pinned_def on_off_window_def event_entry_def event_spec_def
      level_settling_def Let_def word_uint_eq_iff)

text \<open>The writes that open them.\<close>

lemma on_off_opened:
  assumes doc: "chip_documented K V" and inv: "system_inv K V s"
    and e: "e \<in> set (gBridgedWemoLights (bridge_state s))" and h: "heap (bridge_state s) (bl_device e) = Some d"
    and r: "view_reachable (dview K d)"
    and step: "system_step K V E (Write (view_endpoint (dview K d)) (OnOff_Id (ids K)) (OnOff_OnOff_Id (ids K)) (x # bs)) s s'"
  shows "pinned K (bl_device e) (view_endpoint (dview K d)) (on_off_pinned (x \<noteq> 0) (clock s + kCommandSettleWindow))
      (\<lambda>s. ls_on s = (x \<noteq> 0)) (bridge_state s') \<and> system_inv K V s'"
proof -
  note c = chip_parts [OF doc]
  have ok: "bridge_ok K V (bridge_state s)" using inv by (simp add: system_inv_def)
  obtain d' w where run: "dev_SetOnOff K (x \<noteq> 0) d = (d', w)" by (rule prod.exhaust)
  note law = dev_SetOnOff_law [OF c(1,2) run]
  let ?b = "put_device K (bl_device e) (d', w) (bridge_state s)"
  have b': "bridge_state s' = start_thread (JobOnOff (bl_udn e) (x \<noteq> 0))
      (update_light (bl_device e) (on_off_window (x \<noteq> 0) (clock s)) ?b)"
    using step write_callback_light(1) [OF c(1,3) ok e h r] write_on_off [OF c(1,2) ok e h r run]
    by (auto elim: writeE)
  have f: "find (\<lambda>y. bl_device y = bl_device e) (gBridgedWemoLights (bridge_state s')) =
      Some (on_off_window (x \<noteq> 0) (clock s) e)"
    by (simp add: b' find_update_first on_off_window_def find_device [OF bridge_okD(3) [OF ok] e])
  then have m: "on_off_window (x \<noteq> 0) (clock s) e \<in> set (gBridgedWemoLights (bridge_state s'))"
    by (auto simp: find_Some_iff)
  have "heap (bridge_state s') (bl_device e) = Some d'" by (simp add: b')
  then show ?thesis
    using m law system_step_keeps [OF doc inv step] unfolding pinned_def
    by (auto simp: on_off_window_def on_off_pinned_def state_of_def intro!: bexI [OF _ m])
qed

lemma level_opened:
  assumes doc: "chip_documented K V" and inv: "system_inv K V s"
    and e: "e \<in> set (gBridgedWemoLights (bridge_state s))" and h: "heap (bridge_state s) (bl_device e) = Some d"
    and r: "view_reachable (dview K d)" "bl_is_dimmable e" "\<not> settling (clock s) e" "1 < l"
    and step: "system_step K V E (Write (view_endpoint (dview K d)) (LevelControl_Id (ids K)) (CurrentLevel_Id (ids K)) (l # bs)) s s'"
  shows "pinned K (bl_device e) (view_endpoint (dview K d)) (level_pinned l (clock s' + kCommandSettleWindow))
      (\<lambda>s. ls_level s = l) (bridge_state s') \<and> system_inv K V s'"
proof -
  note c = chip_parts [OF doc]
  have ok: "bridge_ok K V (bridge_state s)" using inv by (simp add: system_inv_def)
  obtain d' w where run: "SetLevel K l d = (d', w)" by (rule prod.exhaust)
  note law = SetLevel_law [OF c(1) run]
  let ?b1 = "update_light (bl_device e) (clear_expired (clock s)) (bridge_state s)"
  let ?b = "put_device K (bl_device e) (d', w) ?b1"
  have "\<not> l \<le> 1" using r(4) by simp
  then have b': "bridge_state s' = start_thread (JobLevel (bl_udn e) (matter_to_wemo l))
      (update_light (bl_device e) (level_window l (clock s')) ?b)"
    using step write_callback_light(2) [OF c(1,3) ok e h r(1,2)] write_level [OF ok e h r(1) run] r(3)
    by (auto elim!: writeE simp: Let_def)
  have f: "find (\<lambda>y. bl_device y = bl_device e) (gBridgedWemoLights (bridge_state s')) =
      Some (level_window l (clock s') (clear_expired (clock s) e))"
    by (simp add: b' find_update_first level_window_def find_device [OF bridge_okD(3) [OF ok] e])
  then have m: "level_window l (clock s') (clear_expired (clock s) e) \<in> set (gBridgedWemoLights (bridge_state s'))"
    by (auto simp: find_Some_iff)
  have "heap (bridge_state s') (bl_device e) = Some d'" by (simp add: b')
  then show ?thesis
    using m law system_step_keeps [OF doc inv step] unfolding pinned_def
    by (auto simp: level_window_def level_pinned_def state_of_def dview_def intro!: bexI [OF _ m])
qed

end
