(* ===== verification/Bridge_Runs.thy ===== *)
theory Bridge_Runs
  imports Settle_Window
begin

text \<open>
  Properties of runs of the bridge: a commanded on/off state or level is held for the whole
  settle window whatever the engine reports, the queues can always be drained, and two commands of
  one controller can reach the engine in the wrong order.
\<close>

section \<open>Draining the queues\<close>

lemma system_run_trans:
  "system_run K V E s1 ls' s2 \<Longrightarrow> system_run K V E s ls s1 \<Longrightarrow> system_run K V E s (ls @ ls') s2"
proof (induction rule: system_run.induct)
  case (run_step ls' s2 l s3)
  then have "system_run K V E s (ls @ ls') s2" by simp
  from system_run.run_step [OF this run_step.hyps(2)] show ?case by simp
qed simp

lemma system_run_Cons:
  "system_step K V E l s s1 \<Longrightarrow> system_run K V E s1 ls s2 \<Longrightarrow> system_run K V E s (l # ls) s2"
  using system_run_trans [of K V E s1 ls s2 s "[l]"] run_step [OF run_nil] by fastforce

text \<open>The steps the program takes by itself, and how many of them the pending work allows.\<close>

fun is_internal :: "label \<Rightarrow> bool" where
  "is_internal RunWork = True"
| "is_internal (RunThread i) = True"
| "is_internal l = False"

fun item_weight :: "work_item \<Rightarrow> nat" where
  "item_weight (CallReportingCallback ep cluster attr) = 1"
| "item_weight (HandleWemoEvent ctx) = 4"

lemma item_weight_nonzero [simp]: "item_weight w \<noteq> 0"
  by (cases w) simp_all

definition pending :: "('d, 'e, 'g) system \<Rightarrow> nat" where
  "pending s = sum_list (map item_weight (work (bridge_state s))) + length (threads (bridge_state s))"

lemma change_reports_weight:
  assumes "set vs \<subseteq> set (change_reports K ep s s')"
  shows "sum_list (map item_weight vs) = length vs" "length (change_reports K ep s s') \<le> 3"
proof -
  have "\<forall>w\<in>set (change_reports K ep s s'). item_weight w = 1"
    by (auto simp: change_reports_def Let_def)
  then have "\<forall>w\<in>set vs. item_weight w = 1" using assms by blast
  then show "sum_list (map item_weight vs) = length vs" by (induction vs) auto
  show "length (change_reports K ep s s') \<le> 3" by (auto simp: change_reports_def Let_def)
qed

lemma event_weight:
  assumes "chip_documented K V" and "bridge_ok K V b"
    and "HandleWemoEventOnMatterThread K now ctx b = Inr b'"
  shows "sum_list (map item_weight (work b')) < 4 + sum_list (map item_weight (work b))"
  using assms
proof (cases rule: event_effect)
  case (light e d d' w)
  obtain vs where "work b' = work b @ vs" "set vs \<subseteq> set w" "length vs \<le> length w"
    using schedule_all_appends [of K w "(b\<lparr>gBridgedWemoLights := update_first (\<lambda>entry. bl_wemo_id entry = cx_wemo_id ctx)
           (event_entry now ctx) (gBridgedWemoLights b)\<rparr>)\<lparr>heap := (heap b)(bl_device e \<mapsto> d')\<rparr>"]
    unfolding light(3) put_device_def by auto
  then show ?thesis
    using change_reports_weight [of vs K "view_endpoint (dview K d)" "state_of K d" "state_of K d'"] light(6)
    by simp
qed simp

lemma internal_step:
  assumes doc: "chip_documented K V" and inv: "system_inv K V s" and step: "system_step K V E l s s'"
    and l: "is_internal l"
  shows "pending s' < pending s \<and> clock s' = clock s"
  using step
proof cases
  case (matter_work item rest b' rs)
  have ok: "bridge_ok K V (bridge_state s\<lparr>work := rest\<rparr>)" using inv by (simp add: system_inv_def)
  obtain b1 rs1 where "run_work K (clock s) item (bridge_state s\<lparr>work := rest\<rparr>) = Inr (b1, rs1)"
    "threads b1 = threads (bridge_state s\<lparr>work := rest\<rparr>)"
    using run_work_keeps [OF doc ok] by metis
  then have t: "threads b' = threads (bridge_state s)" using matter_work(4) by simp
  have "sum_list (map item_weight (work b')) < sum_list (map item_weight (work (bridge_state s)))"
  proof (cases item)
    case (CallReportingCallback ep cluster attr)
    then show ?thesis using matter_work(3,4) by (auto simp: run_work_def)
  next
    case (HandleWemoEvent ctx)
    then have "HandleWemoEventOnMatterThread K (clock s) ctx (bridge_state s\<lparr>work := rest\<rparr>) = Inr b'"
      using matter_work(4) by (auto simp: run_work_def split: sum.splits)
    from event_weight [OF doc ok this] show ?thesis using HandleWemoEvent matter_work(3) by simp
  qed
  then show ?thesis using matter_work(2) t by (simp add: pending_def)
next
  case (thread i)
  then show ?thesis by (simp add: pending_def)
qed (use l in simp_all)

lemma internal_step_exists:
  assumes doc: "chip_documented K V" and inv: "system_inv K V s" and p: "0 < pending s"
  shows "\<exists>l s'. is_internal l \<and> system_step K V E l s s'"
proof (cases "work (bridge_state s)")
  case Nil
  then have "0 < length (threads (bridge_state s))" using p by (simp add: pending_def)
  from thread [OF this] show ?thesis by (metis is_internal.simps(2))
next
  case (Cons item rest)
  have ok: "bridge_ok K V (bridge_state s\<lparr>work := rest\<rparr>)" using inv by (simp add: system_inv_def)
  obtain b' rs where "run_work K (clock s) item (bridge_state s\<lparr>work := rest\<rparr>) = Inr (b', rs)"
    using run_work_keeps [OF doc ok] by metis
  from matter_work [OF Cons this] show ?thesis by (metis is_internal.simps(1))
qed

lemma internal_run_bound:
  assumes doc: "chip_documented K V"
  shows "system_run K V E s ls s' \<Longrightarrow> system_inv K V s \<Longrightarrow> \<forall>l\<in>set ls. is_internal l \<Longrightarrow>
    length ls + pending s' \<le> pending s"
proof (induction rule: system_run.induct)
  case (run_step ls s1 l s2)
  have "system_inv K V s1" using system_run_keeps [OF doc run_step.hyps(1)] run_step.prems(1) by blast
  from internal_step [OF doc this run_step.hyps(2)] run_step show ?case by simp
qed simp

lemma drained_run:
  assumes doc: "chip_documented K V"
  shows "system_inv K V s \<Longrightarrow> \<exists>ls s'. system_run K V E s ls s' \<and> (\<forall>l\<in>set ls. is_internal l) \<and>
    pending s' = 0 \<and> clock s' = clock s"
proof (induction "pending s" arbitrary: s rule: less_induct)
  case less
  show ?case
  proof (cases "pending s = 0")
    case True
    then show ?thesis using run_nil by fastforce
  next
    case False
    then obtain l s1 where l: "is_internal l" "system_step K V E l s s1"
      using internal_step_exists [OF doc less.prems] by blast
    note st = internal_step [OF doc less.prems l(2,1)]
    have "system_inv K V s1" using system_step_keeps [OF doc less.prems l(2)] by blast
    then obtain ls s' where "system_run K V E s1 ls s'" "\<forall>l\<in>set ls. is_internal l" "pending s' = 0"
      "clock s' = clock s1"
      using less.hyps st by blast
    then show ?thesis
      using system_run_Cons [OF l(2)] l(1) st by (intro exI [of _ "l # ls"] exI [of _ s']) simp
  qed
qed

section \<open>Switching a light\<close>

lemma on_off_step:
  assumes doc: "chip_documented K V" and inv: "system_inv K V s"
    and e: "e \<in> set (gBridgedWemoLights (bridge_state s))" and h: "heap (bridge_state s) (bl_device e) = Some d"
    and r: "view_reachable (dview K d)"
  obtains s1 e1 d1 where
    "system_step K V E (Write (view_endpoint (dview K d)) (OnOff_Id (ids K)) (OnOff_OnOff_Id (ids K)) (x # bs)) s s1"
    "e1 \<in> set (gBridgedWemoLights (bridge_state s1))" "bl_device e1 = bl_device e" "bl_udn e1 = bl_udn e"
    "heap (bridge_state s1) (bl_device e) = Some d1" "view_endpoint (dview K d1) = view_endpoint (dview K d)"
    "view_reachable (dview K d1)" "view_on (dview K d1) = (x \<noteq> 0)"
    "threads (bridge_state s1) = threads (bridge_state s) @ [JobOnOff (bl_udn e) (x \<noteq> 0)]"
    "adapter_state s1 = adapter_state s" "system_inv K V s1" "clock s1 = clock s"
proof -
  note c = chip_parts [OF doc]
  have ok: "bridge_ok K V (bridge_state s)" using inv by (simp add: system_inv_def)
  obtain d' w where run: "dev_SetOnOff K (x \<noteq> 0) d = (d', w)" by (rule prod.exhaust)
  note law = dev_SetOnOff_law [OF c(1,2) run]
  let ?b = "start_thread (JobOnOff (bl_udn e) (x \<noteq> 0))
      (update_light (bl_device e) (on_off_window (x \<noteq> 0) (clock s)) (put_device K (bl_device e) (d', w) (bridge_state s)))"
  have sv: "served K V (bridge_state s) ep (OnOff_Id (ids K))" for ep
    by (auto simp: served_def endpoint_clusters_def bridgedLightClusters_def bridgedDimmableLightClusters_def
        split: endpoint_type.splits)
  have cb: "emberAfExternalAttributeWriteCallback K (clock s) (clock s) (view_endpoint (dview K d)) (OnOff_Id (ids K))
      (OnOff_OnOff_Id (ids K)) (x # bs) (bridge_state s) = Inr (Success, ?b)"
    using write_callback_light(1) [OF c(1,3) ok e h r] write_on_off [OF c(1,2) ok e h r run] by simp
  let ?s = "s\<lparr>clock := clock s, bridge_state := ?b\<rparr>"
  have step: "system_step K V E (Write (view_endpoint (dview K d)) (OnOff_Id (ids K)) (OnOff_OnOff_Id (ids K)) (x # bs)) s ?s"
    by (rule attr_write [OF sv _ cb]) simp
  have "find (\<lambda>y. bl_device y = bl_device e) (gBridgedWemoLights ?b) = Some (on_off_window (x \<noteq> 0) (clock s) e)"
    by (simp add: find_update_first on_off_window_def find_device [OF bridge_okD(3) [OF ok] e])
  then have m: "on_off_window (x \<noteq> 0) (clock s) e \<in> set (gBridgedWemoLights (bridge_state ?s))"
    by (auto simp: find_Some_iff)
  show ?thesis
    by (rule that [OF step m, of d']) (use law r system_step_keeps [OF doc inv step] in \<open>simp_all add: on_off_window_def\<close>)
qed

lemma cached_on_off:
  assumes "HAVE_OPENWEMO_ENGINE E" and "initialized a" and "mUdnToWemoId a udn = Some i"
  shows "calls (run_command E (JobOnOff udn on) a) = calls a @ [CSetAction i (onoff_command on)] \<and>
    initialized (run_command E (JobOnOff udn on) a) \<and> mUdnToWemoId (run_command E (JobOnOff udn on) a) = mUdnToWemoId a"
proof -
  obtain r a' where s: "SendState E i (if on then 1 else 0) (- 1) a = (r, a')" by (rule prod.exhaust)
  from SendState_fields [OF s] assms s show ?thesis
    by (simp add: run_command_def SetOnOff_def EnsureEngineInitialized_def send_to_udn_def onoff_command_def)
qed

section \<open>Properties\<close>

text \<open>
  C5. A command is not flicked back. After a controller has switched a reachable light, the
  light shows the commanded state for the whole two-second settle window, in every run of a
  system that satisfies its invariant and whatever stale or contrary states the engine reports in between, until another on/off
  write to the same endpoint.
\<close>

theorem commanded_state_held:
  assumes doc: "chip_documented K V" and inv: "system_inv K V s"
    and e: "e \<in> set (gBridgedWemoLights (bridge_state s))" and h: "heap (bridge_state s) (bl_device e) = Some d"
    and r: "view_reachable (dview K d)"
    and step: "system_step K V E (Write (view_endpoint (dview K d)) (OnOff_Id (ids K)) (OnOff_OnOff_Id (ids K)) (x # bs)) s s1"
    and run: "system_run K V E s1 ls s2" and window: "clock s2 \<le> clock s + 2000"
    and other: "\<forall>l\<in>set ls. \<not> switches K (view_endpoint (dview K d)) l"
  shows "\<exists>d2. heap (bridge_state s2) (bl_device e) = Some d2 \<and> view_on (dview K d2) = (x \<noteq> 0)"
proof -
  note a = on_off_opened [OF doc inv e h r step]
  have "pinned K (bl_device e) (view_endpoint (dview K d)) (on_off_pinned (x \<noteq> 0) (clock s + kCommandSettleWindow))
      (\<lambda>s. ls_on s = (x \<noteq> 0)) (bridge_state s2)"
    by (rule on_off_command.kept_run [OF doc run]) (use a window other in \<open>simp_all add: kCommandSettleWindow_def\<close>)
  then show ?thesis by (auto simp: pinned_def state_of_def)
qed


definition lamp_adapter :: "(unit, state_callback) adapter" where
  "lamp_adapter = \<lparr>mEngineSocket = ''x'', mUdnToWemoId = [''uuid:lamp'' \<mapsto> 7], target_configured = True,
     initialized = True, gStateCallback = Some CbOnWemoStateEvent, engine_state = (), calls = [CInit]\<rparr>"

definition lamp_system :: "(mem_dev, mem_slots, unit) system" where
  "lamp_system = \<lparr>clock = 1000, bridge_state = lamp_bridge, adapter_state = lamp_adapter, reported = []\<rparr>"

lemma lamp_system_inv: "system_inv mem_chip mem_slot lamp_system"
proof -
  have "engine_protocol lamp_adapter"
    unfolding engine_protocol_def lamp_adapter_def
    by (intro exI [of _ "[]"] exI [of _ 1]) simp
  then show ?thesis
    by (simp add: system_inv_def lamp_system_def lamp_bridge_ok lamp_facts)
qed

lemma lamp_system_light:
  "lamp_light \<in> set (gBridgedWemoLights (bridge_state lamp_system))"
  "heap (bridge_state lamp_system) (bl_device lamp_light) = Some lamp_device"
  "view_reachable (dview mem_chip lamp_device)" "clock lamp_system = 1000"
  by (simp_all add: lamp_system_def lamp_facts lamp_view)

text \<open>
  The witness: the lamp is switched on, the engine then reports it as off, and all queued
  work is done 1.9 seconds later; the lamp is still shown as on.
\<close>

theorem commanded_state_held_witness:
  "\<exists>s1 ls s2. system_run mem_chip mem_slot (list_engine [lamp_info]) s1
       (EngineEvent 7 (Some \<lparr>ws_is_online = 1, ws_state = 0, ws_level = 0\<rparr>) # Tick 1900 # ls) s2 \<and>
     pending s2 = 0 \<and> (\<exists>d2. heap (bridge_state s2) 0 = Some d2 \<and> view_on (dview mem_chip d2))"
proof -
  let ?E = "list_engine [lamp_info]"
  note L = lamp_system_light
  obtain s1 where s1: "system_step mem_chip mem_slot ?E (Write (view_endpoint (dview mem_chip lamp_device))
      (OnOff_Id (ids mem_chip)) (OnOff_OnOff_Id (ids mem_chip)) (1 # [])) lamp_system s1"
    "system_inv mem_chip mem_slot s1" "clock s1 = clock lamp_system"
    by (rule on_off_step [OF mem_chip_documented lamp_system_inv L(1-3)])
  let ?d = "Some \<lparr>ws_is_online = 1, ws_state = 0, ws_level = 0\<rparr>"
  let ?s2 = "s1\<lparr>bridge_state := deliver_event mem_chip (adapter_state s1) 7 ?d (bridge_state s1)\<rparr>"
  let ?s3 = "?s2\<lparr>clock := clock ?s2 + 1900\<rparr>"
  have st2: "system_step mem_chip mem_slot ?E (EngineEvent 7 ?d) s1 ?s2" by (rule engine_event)
  have st3: "system_step mem_chip mem_slot ?E (Tick 1900) ?s2 ?s3" by (rule tick) simp
  note inv2 = system_step_keeps [OF mem_chip_documented s1(2) st2, THEN conjunct1]
  note inv3 = system_step_keeps [OF mem_chip_documented inv2 st3, THEN conjunct1]
  obtain ls s4 where s4: "system_run mem_chip mem_slot ?E ?s3 ls s4" "\<forall>l\<in>set ls. is_internal l"
    "pending s4 = 0" "clock s4 = clock ?s3"
    using drained_run [OF mem_chip_documented inv3] by blast
  have run: "system_run mem_chip mem_slot ?E s1 (EngineEvent 7 ?d # Tick 1900 # ls) s4"
    by (rule system_run_Cons [OF st2 system_run_Cons [OF st3 s4(1)]])
  have w: "clock s4 \<le> clock lamp_system + 2000" using s4(4) s1(3) by simp
  have o: "\<forall>l\<in>set (EngineEvent 7 ?d # Tick 1900 # ls).
      \<not> switches mem_chip (view_endpoint (dview mem_chip lamp_device)) l"
    using s4(2) by (auto simp: switches_def)
  from commanded_state_held [OF mem_chip_documented lamp_system_inv L(1-3) s1(1) run w o] run s4(3)
  show ?thesis by (auto simp: lamp_facts)
qed

text \<open>
  C6. A dimmed light does not jump back. After a controller has set the level of a reachable
  dimmer, at a moment when no on/off command settles, the light shows that level for the
  whole two-second window, in every run and whatever levels the engine reports in between,
  and on/off writes included, until another level write to the same endpoint.
\<close>

theorem commanded_level_held:
  assumes doc: "chip_documented K V" and inv: "system_inv K V s"
    and e: "e \<in> set (gBridgedWemoLights (bridge_state s))" and h: "heap (bridge_state s) (bl_device e) = Some d"
    and r: "view_reachable (dview K d)" "bl_is_dimmable e" "\<not> settling (clock s) e" "1 < l"
    and step: "system_step K V E (Write (view_endpoint (dview K d)) (LevelControl_Id (ids K)) (CurrentLevel_Id (ids K)) (l # bs)) s s1"
    and run: "system_run K V E s1 ls s2" and window: "clock s2 \<le> clock s1 + 2000"
    and other: "\<forall>w\<in>set ls. \<not> dims K (view_endpoint (dview K d)) w"
  shows "\<exists>d2. heap (bridge_state s2) (bl_device e) = Some d2 \<and> mLevel d2 = l"
proof -
  note a = level_opened [OF doc inv e h r step]
  have "pinned K (bl_device e) (view_endpoint (dview K d)) (level_pinned l (clock s1 + kCommandSettleWindow))
      (\<lambda>s. ls_level s = l) (bridge_state s2)"
    by (rule level_command.kept_run [OF doc run]) (use a window other in \<open>simp_all add: kCommandSettleWindow_def\<close>)
  then show ?thesis by (auto simp: pinned_def state_of_def)
qed

lemma mem_level_ids: "LevelControl_Id (ids mem_chip) = 8" "CurrentLevel_Id (ids mem_chip) = 0"
  by (simp_all add: mem_chip_def mem_ids_def)

lemma lamp_level_step:
  obtains s1 where "system_step mem_chip mem_slot E (Write 3 8 0 [200]) lamp_system s1" "system_inv mem_chip mem_slot s1"
    "clock s1 = clock lamp_system"
proof -
  note i = mem_level_ids
  have b: "bridge_state lamp_system = lamp_bridge" by (simp add: lamp_system_def)
  obtain d' w where run: "SetLevel mem_chip 200 lamp_device = (d', w)" by (rule prod.exhaust)
  have sv: "served mem_chip mem_slot (bridge_state lamp_system) 3 8"
    by (auto simp: served_def b lamp_slot endpoint_clusters_def bridgedDimmableLightClusters_def i split: if_splits)
  obtain st b' where cb: "emberAfExternalAttributeWriteCallback mem_chip (clock lamp_system) (clock lamp_system) 3 8 0 [200]
      (bridge_state lamp_system) = Inr (st, b')"
    using write_callback_light(2) [OF mem_chip_parts(1,3) lamp_bridge_ok lamp_facts(12,13), of "clock lamp_system"
        "clock lamp_system" 0 "[200]"]
    by (auto simp: lamp_view i b lamp_facts) (metis surj_pair)
  have step: "system_step mem_chip mem_slot E (Write 3 8 0 [200]) lamp_system
      (lamp_system\<lparr>clock := clock lamp_system, bridge_state := b'\<rparr>)" for E :: "unit engine"
    by (rule attr_write [OF sv order_refl cb])
  show ?thesis
    by (rule that [OF step]) (use system_step_keeps [OF mem_chip_documented lamp_system_inv step] in simp_all)
qed

theorem commanded_level_held_witness:
  "\<exists>s1 ls s2. system_run mem_chip mem_slot (list_engine [lamp_info]) s1
       (EngineEvent 7 (Some \<lparr>ws_is_online = 1, ws_state = 1, ws_level = 40\<rparr>) # Tick 1900 # ls) s2 \<and>
     pending s2 = 0 \<and> (\<exists>d2. heap (bridge_state s2) 0 = Some d2 \<and> mLevel d2 = 200)"
proof -
  let ?E = "list_engine [lamp_info]" and ?d = "Some \<lparr>ws_is_online = 1, ws_state = 1, ws_level = 40\<rparr>"
  note L = lamp_system_light
  obtain s1 where s1: "system_step mem_chip mem_slot ?E (Write 3 8 0 [200]) lamp_system s1" "system_inv mem_chip mem_slot s1"
    "clock s1 = clock lamp_system"
    by (rule lamp_level_step)
  then have st1: "system_step mem_chip mem_slot ?E (Write (view_endpoint (dview mem_chip lamp_device))
      (LevelControl_Id (ids mem_chip)) (CurrentLevel_Id (ids mem_chip)) (200 # [])) lamp_system s1"
    by (simp add: lamp_view mem_level_ids)
  let ?s2 = "s1\<lparr>bridge_state := deliver_event mem_chip (adapter_state s1) 7 ?d (bridge_state s1)\<rparr>"
  let ?s3 = "?s2\<lparr>clock := clock ?s2 + 1900\<rparr>"
  have st2: "system_step mem_chip mem_slot ?E (EngineEvent 7 ?d) s1 ?s2" by (rule engine_event)
  have st3: "system_step mem_chip mem_slot ?E (Tick 1900) ?s2 ?s3" by (rule tick) simp
  note inv2 = system_step_keeps [OF mem_chip_documented s1(2) st2, THEN conjunct1]
  note inv3 = system_step_keeps [OF mem_chip_documented inv2 st3, THEN conjunct1]
  obtain ls s4 where s4: "system_run mem_chip mem_slot ?E ?s3 ls s4" "\<forall>l\<in>set ls. is_internal l"
    "pending s4 = 0" "clock s4 = clock ?s3"
    using drained_run [OF mem_chip_documented inv3] by blast
  have run: "system_run mem_chip mem_slot ?E s1 (EngineEvent 7 ?d # Tick 1900 # ls) s4"
    by (rule system_run_Cons [OF st2 system_run_Cons [OF st3 s4(1)]])
  have w: "clock s4 \<le> clock s1 + 2000" using s4(4) by simp
  have o: "\<forall>w\<in>set (EngineEvent 7 ?d # Tick 1900 # ls). \<not> dims mem_chip (view_endpoint (dview mem_chip lamp_device)) w"
    using s4(2) by (auto simp: dims_def)
  have n: "bl_is_dimmable lamp_light" "\<not> settling (clock lamp_system) lamp_light" "(1 :: u8) < 200"
    by (simp_all add: settling_def lamp_facts)
  from commanded_level_held [OF mem_chip_documented lamp_system_inv L(1-3) n st1 run w o] run s4(3)
  show ?thesis by (auto simp: lamp_facts)
qed

text \<open>
  The queues always drain. From any reachable state the steps the program takes by itself
  (queued work and command threads, in any order) are bounded by the pending work, counting
  four steps for a queued engine event, and some such run empties both queues without
  waiting: handling events never generates work endlessly.
\<close>

theorem queues_drain:
  assumes doc: "chip_documented K V" and inv: "system_inv K V s"
  shows "(\<forall>ls s'. system_run K V E s ls s' \<longrightarrow> (\<forall>l\<in>set ls. is_internal l) \<longrightarrow> length ls \<le> pending s) \<and>
    (\<exists>ls s'. system_run K V E s ls s' \<and> (\<forall>l\<in>set ls. is_internal l) \<and>
       work (bridge_state s') = [] \<and> threads (bridge_state s') = [] \<and> clock s' = clock s)"
proof (intro conjI allI impI)
  show "length ls \<le> pending s" if "system_run K V E s ls s'" "\<forall>l\<in>set ls. is_internal l" for ls s'
    using internal_run_bound [OF doc that(1) inv that(2)] by simp
  obtain ls s' where r: "system_run K V E s ls s'" "\<forall>l\<in>set ls. is_internal l" "pending s' = 0" "clock s' = clock s"
    using drained_run [OF doc inv] by blast
  have "work (bridge_state s') = []"
    using r(3) by (cases "work (bridge_state s')") (auto simp: pending_def)
  then show "\<exists>ls s'. system_run K V E s ls s' \<and> (\<forall>l\<in>set ls. is_internal l) \<and>
       work (bridge_state s') = [] \<and> threads (bridge_state s') = [] \<and> clock s' = clock s"
    using r by (intro exI [of _ ls] exI [of _ s']) (simp add: pending_def)
qed

theorem queues_drain_witness:
  "\<exists>ls s'. system_run mem_chip mem_slot (list_engine [lamp_info]) lamp_system ls s' \<and>
     work (bridge_state s') = []"
  using queues_drain [OF mem_chip_documented lamp_system_inv] by blast

text \<open>
  C27. Commands can overtake each other. Each command runs on its own detached thread, so a
  controller that switches a light on and then off again can leave the bridge showing off
  while the engine received off first and on last.
\<close>

theorem commands_can_overtake:
  assumes doc: "chip_documented K V" and inv: "system_inv K V s"
    and e: "e \<in> set (gBridgedWemoLights (bridge_state s))" and h: "heap (bridge_state s) (bl_device e) = Some d"
    and r: "view_reachable (dview K d)" and idle: "threads (bridge_state s) = []"
    and a: "HAVE_OPENWEMO_ENGINE E" "initialized (adapter_state s)" "mUdnToWemoId (adapter_state s) (bl_udn e) = Some i"
  shows "\<exists>s' d'. system_run K V E s
      [Write (view_endpoint (dview K d)) (OnOff_Id (ids K)) (OnOff_OnOff_Id (ids K)) [1],
       Write (view_endpoint (dview K d)) (OnOff_Id (ids K)) (OnOff_OnOff_Id (ids K)) [0],
       RunThread 1, RunThread 0] s' \<and>
    heap (bridge_state s') (bl_device e) = Some d' \<and> \<not> view_on (dview K d') \<and>
    actions (calls (adapter_state s')) =
      actions (calls (adapter_state s)) @ [(i, onoff_command False), (i, onoff_command True)]"
proof -
  let ?w = "\<lambda>x. Write (view_endpoint (dview K d)) (OnOff_Id (ids K)) (OnOff_OnOff_Id (ids K)) [x]"
  obtain s1 e1 d1 where s1: "system_step K V E
        (Write (view_endpoint (dview K d)) (OnOff_Id (ids K)) (OnOff_OnOff_Id (ids K)) [1]) s s1"
    "e1 \<in> set (gBridgedWemoLights (bridge_state s1))" "bl_device e1 = bl_device e" "bl_udn e1 = bl_udn e"
    "heap (bridge_state s1) (bl_device e) = Some d1" "view_endpoint (dview K d1) = view_endpoint (dview K d)"
    "view_reachable (dview K d1)" "view_on (dview K d1) = ((1 :: u8) \<noteq> 0)"
    "threads (bridge_state s1) = threads (bridge_state s) @ [JobOnOff (bl_udn e) ((1 :: u8) \<noteq> 0)]"
    "adapter_state s1 = adapter_state s" "system_inv K V s1" "clock s1 = clock s"
    by (rule on_off_step [OF doc inv e h r])
  have h1: "heap (bridge_state s1) (bl_device e1) = Some d1" using s1(3,5) by simp
  obtain s2 e2 d2 where s2: "system_step K V E
        (Write (view_endpoint (dview K d1)) (OnOff_Id (ids K)) (OnOff_OnOff_Id (ids K)) [0]) s1 s2"
    "e2 \<in> set (gBridgedWemoLights (bridge_state s2))" "bl_device e2 = bl_device e1" "bl_udn e2 = bl_udn e1"
    "heap (bridge_state s2) (bl_device e1) = Some d2" "view_endpoint (dview K d2) = view_endpoint (dview K d1)"
    "view_reachable (dview K d2)" "view_on (dview K d2) = ((0 :: u8) \<noteq> 0)"
    "threads (bridge_state s2) = threads (bridge_state s1) @ [JobOnOff (bl_udn e1) ((0 :: u8) \<noteq> 0)]"
    "adapter_state s2 = adapter_state s1" "system_inv K V s2" "clock s2 = clock s1"
    by (rule on_off_step [OF doc s1(11,2) h1 s1(7)])
  have q: "adapter_state s2 = adapter_state s" "heap (bridge_state s2) (bl_device e) = Some d2" "\<not> view_on (dview K d2)"
    "threads (bridge_state s2) = [JobOnOff (bl_udn e) True, JobOnOff (bl_udn e) False]"
    using s1(3,4,9,10) s2(5,8,9,10) idle by simp_all
  let ?b3 = "bridge_state s2\<lparr>threads := [JobOnOff (bl_udn e) True]\<rparr>"
  let ?a3 = "run_command E (JobOnOff (bl_udn e) False) (adapter_state s)"
  let ?s3 = "s2\<lparr>bridge_state := ?b3, adapter_state := ?a3\<rparr>"
  have s3: "system_step K V E (RunThread 1) s2 ?s3"
    using thread [of 1 s2 K V E] q by simp
  let ?a4 = "run_command E (JobOnOff (bl_udn e) True) ?a3"
  let ?s4 = "?s3\<lparr>bridge_state := ?b3\<lparr>threads := []\<rparr>, adapter_state := ?a4\<rparr>"
  have s4: "system_step K V E (RunThread 0) ?s3 ?s4"
    using thread [of 0 ?s3 K V E] by simp
  have "calls ?a4 = calls (adapter_state s) @ [CSetAction i (onoff_command False)] @ [CSetAction i (onoff_command True)]"
    using cached_on_off [OF a, of False] cached_on_off [OF a(1), of ?a3 "bl_udn e" i True] a(3) by simp
  then have "actions (calls (adapter_state ?s4)) =
      actions (calls (adapter_state s)) @ [(i, onoff_command False), (i, onoff_command True)]" by simp
  moreover have "system_run K V E s [?w 1, ?w 0, RunThread 1, RunThread 0] ?s4"
    by (intro system_run_Cons [OF s1(1)] system_run_Cons [OF s2(1) [unfolded s1(6)]] system_run_Cons [OF s3] system_run_Cons [OF s4]
        run_nil)
  ultimately show ?thesis using q(2,3) by (intro exI [of _ ?s4] exI [of _ d2]) simp
qed

theorem commands_can_overtake_witness:
  "\<exists>s'. actions (calls (adapter_state (s' :: (mem_dev, mem_slots, unit) system))) =
     [(7, onoff_command False), (7, onoff_command True)]"
proof -
  have a: "HAVE_OPENWEMO_ENGINE (list_engine [lamp_info])" "initialized (adapter_state lamp_system)"
    "mUdnToWemoId (adapter_state lamp_system) (bl_udn lamp_light) = Some 7"
    by (simp_all add: list_engine_def lamp_system_def lamp_adapter_def lamp_facts)
  have t: "threads (bridge_state lamp_system) = []" "actions (calls (adapter_state lamp_system)) = []"
    by (simp_all add: lamp_system_def lamp_facts lamp_adapter_def)
  from commands_can_overtake [OF mem_chip_documented lamp_system_inv lamp_system_light(1-3) t(1) a] t(2)
  show ?thesis by auto
qed

end
