(* ===== verification/Level_Drift.thy ===== *)
theory Level_Drift
  imports Events
begin

text \<open>
  What the truncating conversions between the two brightness scales do: their ranges and
  order, and the drift they cause when a device confirms a commanded level.
\<close>

section \<open>The conversions\<close>

text \<open>
  Both conversions stay in range and keep the order of levels: a Matter level becomes a
  percentage of at most 100, which is 0 only for level 0 (so dimming never switches a light
  off), and a percentage becomes a level of at most 254; different percentages give
  different levels.
\<close>

theorem level_conversions_ordered:
  assumes "l \<le> m" and "0 \<le> p" and "p < q" and "q \<le> 100"
  shows "matter_to_wemo l \<le> matter_to_wemo m \<and> uint (matter_to_wemo l) \<le> 100 \<and>
    (matter_to_wemo l = 0 \<longleftrightarrow> l = 0) \<and> wemo_to_matter p < wemo_to_matter q \<and>
    uint (wemo_to_matter q) \<le> 254"
  using assms matter_to_wemo_mono matter_to_wemo_le_100 matter_to_wemo_zero_iff wemo_to_matter_inj
    wemo_to_matter_le_254 [of q] by simp

theorem level_conversions_ordered_witness:
  "matter_to_wemo 1 \<le> matter_to_wemo 254 \<and> wemo_to_matter 39 < wemo_to_matter 40"
proof -
  have "(1 :: u8) \<le> 254" "(0 :: int) \<le> 39" "(39 :: int) < 40" "(40 :: int) \<le> 100" by simp_all
  from level_conversions_ordered [OF this] show ?thesis by blast
qed

text \<open>
  Round trips through the scales. A level that is sent to a device and comes back in its
  confirmation is the same level only for 0, 2, 127 and 254; any other level from 2 up comes
  back at most 3 lower. Writing back the level shown for a percentage lowers the percentage
  by one, except for 0, 1, 50 and 100.
\<close>

theorem level_roundtrips:
  assumes "2 \<le> uint l" and "0 \<le> p" and "p \<le> 100"
  shows "(wemo_to_matter (uint (matter_to_wemo l)) = l \<longleftrightarrow> l \<in> {0, 2, 127, 254}) \<and>
    uint l - 3 \<le> uint (wemo_to_matter (uint (matter_to_wemo l))) \<and>
    uint (wemo_to_matter (uint (matter_to_wemo l))) \<le> uint l \<and>
    uint (matter_to_wemo (wemo_to_matter p)) = (if p \<in> {0, 1, 50, 100} then p else p - 1)"
  using level_echo_exact_iff level_echo_error [OF assms(1)] percent_write_back [OF assms(2,3)] by blast

theorem level_roundtrips_witness:
  "wemo_to_matter (uint (matter_to_wemo 128)) \<noteq> 128 \<and> uint (matter_to_wemo (wemo_to_matter 40)) = 39"
proof -
  have "2 \<le> uint (128 :: u8)" "(0 :: int) \<le> 40" "(40 :: int) \<le> 100" by simp_all
  from level_roundtrips [OF this] show ?thesis by simp
qed

section \<open>The drift of a confirmed level\<close>

text \<open>
  C26. The drift on the bridge. A dimmer that was commanded to level \<open>l\<close> and confirms exactly
  the percentage it was sent keeps showing \<open>l\<close> while the settle window is open. The same
  confirmation after the window replaces the level by the converted percentage: at most 3
  lower, and different from the commanded level unless that was 2, 127 or 254.
\<close>

theorem confirmed_level_drifts:
  assumes doc: "chip_documented K V" and ok: "bridge_ok K V b"
    and f: "find (\<lambda>entry. bl_wemo_id entry = cx_wemo_id ctx) (gBridgedWemoLights b) = Some e"
    and h: "heap b (bl_device e) = Some d" and dim: "bl_is_dimmable e"
    and cmd: "commandedLevel e = uint l" "mLevel d = l" "2 \<le> uint l"
    and ev: "cx_is_online ctx" "cx_level ctx = uint (matter_to_wemo l)"
    and t: "early \<le> commandedLevelUntil e" "commandedLevelUntil e < late"
  shows "(\<exists>b' d'. HandleWemoEventOnMatterThread K early ctx b = Inr b' \<and> heap b' (bl_device e) = Some d' \<and>
      mLevel d' = l) \<and>
    (\<exists>b' d'. HandleWemoEventOnMatterThread K late ctx b = Inr b' \<and> heap b' (bl_device e) = Some d' \<and>
      (mLevel d' = l \<longleftrightarrow> l \<in> {2, 127, 254}) \<and> uint l - 3 \<le> uint (mLevel d') \<and> uint (mLevel d') \<le> uint l)"
proof -
  note c = chip_parts [OF doc]
  let ?echo = "wemo_to_matter (cx_level ctx)"
  have lv: "0 \<le> cx_level ctx" by (simp add: ev(2))
  have run: "\<exists>b' d'. HandleWemoEventOnMatterThread K now ctx b = Inr b' \<and> heap b' (bl_device e) = Some d' \<and>
      mLevel d' = ls_level (event_spec now ctx e (state_of K d))" for now
  proof -
    obtain d' where d': "HandleWemoEventOnMatterThread K now ctx b =
       Inr (put_device K (bl_device e)
         (d', change_reports K (view_endpoint (dview K d)) (state_of K d) (state_of K d'))
         (b\<lparr>gBridgedWemoLights := update_first (\<lambda>entry. bl_wemo_id entry = cx_wemo_id ctx)
           (event_entry now ctx) (gBridgedWemoLights b)\<rparr>))"
      "state_of K d' = event_spec now ctx e (state_of K d)"
      by (rule event_on_bridge [OF c(1,2) ok f h])
    have "mLevel d' = ls_level (event_spec now ctx e (state_of K d))"
      unfolding d'(2) [symmetric] by (simp add: state_of_def)
    then show ?thesis using d'(1) by simp
  qed
  have early: "ls_level (event_spec early ctx e (state_of K d)) = l"
    using cmd t(1) dim ev(1) lv by (auto simp: event_spec_def level_settling_def state_of_def word_uint_eq_iff)
  have late: "ls_level (event_spec late ctx e (state_of K d)) = ?echo"
    using t(2) dim ev(1) lv by (simp add: event_spec_def level_settling_def)
  have nz: "l \<noteq> 0" using cmd(3) by auto
  have "(?echo = l \<longleftrightarrow> l \<in> {2, 127, 254}) \<and> uint l - 3 \<le> uint ?echo \<and> uint ?echo \<le> uint l"
    unfolding ev(2) using level_echo_exact_iff [of l] level_echo_error [OF cmd(3)] nz by simp
  then show ?thesis using run [of early] run [of late] unfolding early late by metis
qed

text \<open>The dimmer of the concrete bridge, commanded to level 128 at time 0.\<close>

definition dim_bridge :: "(mem_dev, mem_slots) bridge" where
  "dim_bridge = snd (HandleWriteLevelControlAttribute mem_chip 0 0 0 lamp_device 0 [128] lamp_bridge)"

lemma dim_facts:
  "bridge_ok mem_chip mem_slot dim_bridge"
  "gBridgedWemoLights dim_bridge = [lamp_light\<lparr>commandedLevel := 128, commandedLevelUntil := 2000\<rparr>]"
  "\<exists>d. heap dim_bridge 0 = Some d \<and> mLevel d = 128"
proof -
  have i: "CurrentLevel_Id (ids mem_chip) = 0" by (simp add: mem_chip_def mem_ids_def)
  have r: "view_reachable (dview mem_chip lamp_device)" by (simp add: lamp_view)
  note c = chip_parts [OF mem_chip_documented]
  show "bridge_ok mem_chip mem_slot dim_bridge"
    using level_keeps [OF c(1) lamp_bridge_ok lamp_facts(12,13), of 0 0 0 "[128]"]
    by (simp add: dim_bridge_def lamp_facts)
  obtain d' w where s: "SetLevel mem_chip 128 lamp_device = (d', w)" by (rule prod.exhaust)
  then have d': "mLevel d' = 128" using SetLevel_law [OF c(1) s] by simp
  have n: "\<not> settling 0 lamp_light" by (simp add: settling_def lamp_facts)
  have u: "(128 :: u8) \<le> 1 \<longleftrightarrow> False" by (simp add: word_le_nat_alt)
  have b: "dim_bridge = start_thread (JobLevel (bl_udn lamp_light) (matter_to_wemo 128))
      (update_light 0 (level_window 128 0) (put_device mem_chip 0 (d', w) (update_light 0 (clear_expired 0) lamp_bridge)))"
    using write_level [OF lamp_bridge_ok lamp_facts(12,13) r s, of 0 0 "[]", unfolded i u] n
    by (simp add: dim_bridge_def lamp_facts Let_def)
  show "gBridgedWemoLights dim_bridge = [lamp_light\<lparr>commandedLevel := 128, commandedLevelUntil := 2000\<rparr>]"
    by (simp add: b lamp_facts clear_expired_def level_window_def kCommandSettleWindow_def)
  show "\<exists>d. heap dim_bridge 0 = Some d \<and> mLevel d = 128" by (simp add: b d')
qed

theorem confirmed_level_drifts_witness:
  "\<exists>b' d'. HandleWemoEventOnMatterThread mem_chip 2001 (lamp_event True 1 50) dim_bridge = Inr b' \<and>
     heap b' 0 = Some d' \<and> mLevel d' \<noteq> 128"
proof -
  let ?e = "lamp_light\<lparr>commandedLevel := 128, commandedLevelUntil := 2000\<rparr>"
  let ?ctx = "lamp_event True 1 50"
  obtain d where d: "heap dim_bridge 0 = Some d" "mLevel d = 128" using dim_facts(3) by blast
  have f: "find (\<lambda>entry. bl_wemo_id entry = cx_wemo_id ?ctx) (gBridgedWemoLights dim_bridge) = Some ?e"
    by (simp add: dim_facts(2) lamp_facts lamp_event_def)
  have h: "heap dim_bridge (bl_device ?e) = Some d" "bl_is_dimmable ?e" using d by (simp_all add: lamp_facts)
  have c: "commandedLevel ?e = uint (128 :: u8)" "2 \<le> uint (128 :: u8)" by simp_all
  have ev: "cx_is_online ?ctx" "cx_level ?ctx = uint (matter_to_wemo 128)"
    by (simp_all add: lamp_event_def uint_matter_to_wemo)
  have t: "2000 \<le> commandedLevelUntil ?e" "commandedLevelUntil ?e < 2001" by simp_all
  from confirmed_level_drifts [OF mem_chip_documented dim_facts(1) f h c(1) d(2) c(2) ev t]
  show ?thesis by (auto simp: lamp_facts)
qed

end
