(* ===== verification/Reports.thy ===== *)
theory Reports
  imports Level_Drift
begin

text \<open>
  Attribute reports: every change of a published device schedules exactly one report of the
  attribute that changed, and nothing is reported when nothing changes; a written node label
  is the exception.
\<close>

text \<open>
  C30. A setter of a light with its change callback installed, as startup leaves every published
  light, plain or dimmable, changes what its name says and nothing else, and schedules one
  report of that attribute at the device's endpoint if the value changed, none if it did not.
  A label longer than 31 characters is shortened. The level is a dimmer's only.
\<close>

theorem change_reported_once:
  assumes "chip_documented K V" and "bridge_ok K V b" and "e \<in> set (gBridgedWemoLights b)"
    and "heap b (bl_device e) = Some d"
    and s: "dev_SetReachable K r d = (d1, w1)" "dev_SetOnOff K on d = (d2, w2)" "dev_SetName K n d = (d3, w3)"
  shows "dview K d1 = (dview K d)\<lparr>view_reachable := r\<rparr> \<and> mLevel d1 = mLevel d \<and>
    w1 = (if view_reachable (dview K d) \<noteq> r
      then [report K d (BridgedDeviceBasicInformation_Id (ids K)) (Reachable_Id (ids K))] else []) \<and>
    dview K d2 = (dview K d)\<lparr>view_on := on\<rparr> \<and> mLevel d2 = mLevel d \<and>
    w2 = (if view_on (dview K d) \<noteq> on then [report K d (OnOff_Id (ids K)) (OnOff_OnOff_Id (ids K))] else []) \<and>
    dview K d3 = (dview K d)\<lparr>view_name := take 31 n\<rparr> \<and> mLevel d3 = mLevel d \<and>
    w3 = (if view_name (dview K d) \<noteq> n
      then [report K d (BridgedDeviceBasicInformation_Id (ids K)) (NodeLabel_Id (ids K))] else []) \<and>
    (bl_is_dimmable e \<longrightarrow> (case SetLevel K l d of (d4, w4) \<Rightarrow>
       dview K d4 = dview K d \<and> mLevel d4 = l \<and>
       w4 = (if mLevel d \<noteq> l then [report K d (LevelControl_Id (ids K)) (CurrentLevel_Id (ids K))] else [])))"
proof -
  note c = chip_parts [OF assms(1)]
  have w: "wired d" "bl_is_dimmable e \<Longrightarrow> is_dimmer d"
    using bridge_okD(2) [OF assms(2,3)] assms(4) by (simp_all add: light_ok_def)
  obtain d4 w4 where s4: "SetLevel K l d = (d4, w4)" by (rule prod.exhaust)
  note l1 = dev_SetReachable_law [OF c(1,2) s(1)] and l2 = dev_SetOnOff_law [OF c(1,2) s(2)]
    and l3 = dev_SetName_law [OF c(1,2) s(3)] and l4 = SetLevel_law [OF c(1) s4]
  have v: "dview K d4 = dview K d" "mLevel d4 = l" using l4 by (simp_all add: dview_def)
  show ?thesis using l1 l2 l3 l4 v w s4 by (simp add: same_shell_def)
qed

theorem change_reported_once_witness:
  "\<exists>d2 w2 d4 w4. dev_SetOnOff mem_chip True lamp_device = (d2, w2) \<and> w2 = [CallReportingCallback 3 6 0] \<and>
     SetLevel mem_chip 5 lamp_device = (d4, w4) \<and> mLevel d4 = 5"
proof -
  obtain d1 w1 where s1: "dev_SetReachable mem_chip True lamp_device = (d1, w1)" by (rule prod.exhaust)
  obtain d2 w2 where s2: "dev_SetOnOff mem_chip True lamp_device = (d2, w2)" by (rule prod.exhaust)
  obtain d3 w3 where s3: "dev_SetName mem_chip ''Lamp'' lamp_device = (d3, w3)" by (rule prod.exhaust)
  obtain d4 w4 where s4: "SetLevel mem_chip 5 lamp_device = (d4, w4)" by (rule prod.exhaust)
  have i: "OnOff_Id (ids mem_chip) = 6" "OnOff_OnOff_Id (ids mem_chip) = 0"
    by (simp_all add: mem_chip_def mem_ids_def)
  have "bl_is_dimmable lamp_light" by (rule lamp_facts(4))
  with change_reported_once [OF mem_chip_documented lamp_bridge_ok lamp_facts(12,13) s1 s2 s3, of 5] s2 s4
  show ?thesis by (simp add: lamp_view report_def i)
qed

lemma name_report:
  assumes "ids_documented (ids K)"
  shows "HandleDeviceStatusChanged K d (kChanged_Name (ids K)) =
    [report K d (BridgedDeviceBasicInformation_Id (ids K)) (NodeLabel_Id (ids K))]"
  using masks_disjoint [OF assms]
  by (simp add: HandleDeviceStatusChanged_def ScheduleReportingCallback_def report_def dview_def look_simps Let_def)

text \<open>
  C31. A written node label is reported twice: once by the change callback of the device and
  once more by the write handler, and still once when the label did not change.
\<close>

theorem label_write_reports_twice:
  assumes doc: "chip_documented K V" and ok: "bridge_ok K V b" and q: "queue_open K"
    and e: "e \<in> set (gBridgedWemoLights b)" and h: "heap b (bl_device e) = Some d"
    and r: "view_reachable (dview K d)"
    and name: "fromZclString (ember_api K) buf = s" "CHR 0x00 \<notin> set s" "length s \<le> 32"
  shows "\<exists>b'. emberAfExternalAttributeWriteCallback K now later (view_endpoint (dview K d))
       (BridgedDeviceBasicInformation_Id (ids K)) (NodeLabel_Id (ids K)) buf b = Inr (Success, b') \<and>
    work b' = work b @ replicate (if view_name (dview K d) \<noteq> s then 2 else 1)
      (report K d (BridgedDeviceBasicInformation_Id (ids K)) (NodeLabel_Id (ids K)))"
proof -
  note c = chip_parts [OF doc]
  obtain d' w where n: "dev_SetName K s d = (d', w)" by (rule prod.exhaust)
  note law = dev_SetName_law [OF c(1,2) n]
  have wd: "wired d" using bridge_okD(2) [OF ok e] h by (simp add: light_ok_def)
  have rep: "report K d' cl at = report K d cl at" for cl at using law by (simp add: report_def)
  show ?thesis
    using write_callback_light(3) [OF c(1,3) ok e h r, of now later] name law wd
    by (simp add: HandleWriteBridgedDeviceBasicAttribute_def Let_def kNodeLabelSize_def cstr_id n
        name_report [OF c(1)] rep put_device_work [OF q] numeral_2_eq_2)
qed

theorem label_write_reports_twice_witness:
  "\<exists>b'. emberAfExternalAttributeWriteCallback mem_chip 0 0 3 57 5 [2, 72, 105] lamp_bridge = Inr (Success, b') \<and>
     length (work b') = 2"
proof -
  have i: "BridgedDeviceBasicInformation_Id (ids mem_chip) = 57" "NodeLabel_Id (ids mem_chip) = 5"
    by (simp_all add: mem_chip_def mem_ids_def)
  have v: "view_reachable (dview mem_chip lamp_device)" by (simp add: lamp_view)
  have n: "fromZclString (ember_api mem_chip) [2, 72, 105] = ''Hi''"
    by (simp add: mem_chip_def mem_ember_api_def char_of_def bit_0)
  have s: "CHR 0x00 \<notin> set ''Hi''" "length ''Hi'' \<le> 32" by simp_all
  from label_write_reports_twice [OF mem_chip_documented lamp_bridge_ok mem_queue_open lamp_facts(12,13) v n s, of 0 0]
  show ?thesis unfolding i by (auto simp: lamp_view lamp_facts)
qed

end
