(* ===== verification/Declarations.thy ===== *)
theory Declarations
  imports Control
begin

text \<open>
  The endpoint declarations of \<^verbatim>\<open>matter-bridge-app/main.cpp\<close>: the attributes, with their types
  and sizes, and the commands each cluster of a bridged endpoint is declared with. Every
  attribute is external, so the read callback has to serve exactly what is declared here.
\<close>

section \<open>Declarations\<close>

datatype attribute_type = BOOLEAN | ARRAY | CHAR_STRING | INT8U | INT16U | INT32U | BITMAP32 | INT16S | ENUM8

record attribute_decl =
  ad_id :: u32
  ad_type :: attribute_type
  ad_size :: nat
  ad_writable :: bool

text \<open>The ids of the SDK that only the declarations use.\<close>

record decl_ids =
  DeviceTypeList_Id :: u32
  ServerList_Id :: u32
  ClientList_Id :: u32
  PartsList_Id :: u32
  Off_Id :: u32
  On_Id :: u32
  Toggle_Id :: u32
  OffWithEffect_Id :: u32
  OnWithRecallGlobalScene_Id :: u32
  OnWithTimedOff_Id :: u32
  MoveToLevel_Id :: u32
  Move_Id :: u32
  Step_Id :: u32
  Stop_Id :: u32
  MoveToLevelWithOnOff_Id :: u32
  MoveWithOnOff_Id :: u32
  StepWithOnOff_Id :: u32
  StopWithOnOff_Id :: u32
  kInvalidCommandId :: u32
  PowerSource_Id :: u32
  BatChargeLevel_Id :: u32
  BatReplacementNeeded_Id :: u32
  BatReplaceability_Id :: u32
  Order_Id :: u32
  Status_Id :: u32
  Description_Id :: u32
  EndpointList_Id :: u32

definition attribute_of :: "u32 \<Rightarrow> attribute_type \<Rightarrow> nat \<Rightarrow> attribute_decl" where
  "attribute_of i t n = \<lparr>ad_id = i, ad_type = t, ad_size = n, ad_writable = False\<rparr>"

definition kUniqueIdSize :: nat where
  "kUniqueIdSize = 32"

definition kDescriptorAttributeArraySize :: nat where
  "kDescriptorAttributeArraySize = 254"

text \<open>
  \<open>DECLARE_DYNAMIC_ATTRIBUTE_LIST_END\<close> of the SDK closes every list with the cluster revision
  (0xFFFD, two bytes), which is external too.
\<close>

definition attribute_list_end :: "chip_ids \<Rightarrow> attribute_decl list" where
  "attribute_list_end I = [attribute_of (ClusterRevision_Id I) INT16U 2]"

definition onOffAttrs :: "chip_ids \<Rightarrow> attribute_decl list" where
  "onOffAttrs I = [attribute_of (OnOff_OnOff_Id I) BOOLEAN 1] @ attribute_list_end I"

definition descriptorAttrs :: "chip_ids \<Rightarrow> decl_ids \<Rightarrow> attribute_decl list" where
  "descriptorAttrs I J =
     [attribute_of (DeviceTypeList_Id J) ARRAY kDescriptorAttributeArraySize,
      attribute_of (ServerList_Id J) ARRAY kDescriptorAttributeArraySize,
      attribute_of (ClientList_Id J) ARRAY kDescriptorAttributeArraySize,
      attribute_of (PartsList_Id J) ARRAY kDescriptorAttributeArraySize] @ attribute_list_end I"

definition bridgedDeviceBasicAttrs :: "chip_ids \<Rightarrow> attribute_decl list" where
  "bridgedDeviceBasicAttrs I =
     [(attribute_of (NodeLabel_Id I) CHAR_STRING kNodeLabelSize)\<lparr>ad_writable := True\<rparr>,
      attribute_of (Reachable_Id I) BOOLEAN 1,
      attribute_of (UniqueID_Id I) CHAR_STRING kUniqueIdSize,
      attribute_of (ConfigurationVersion_Id I) INT32U 4,
      attribute_of (FeatureMap_Id I) BITMAP32 4] @ attribute_list_end I"

definition levelControlAttrs :: "chip_ids \<Rightarrow> attribute_decl list" where
  "levelControlAttrs I =
     [attribute_of (CurrentLevel_Id I) INT8U 1, attribute_of (MinLevel_Id I) INT8U 1,
      attribute_of (MaxLevel_Id I) INT8U 1, attribute_of (ClusterRevision_Id I) INT16U 2,
      attribute_of (FeatureMap_Id I) BITMAP32 4] @ attribute_list_end I"

definition tempSensorAttrs :: "chip_ids \<Rightarrow> attribute_decl list" where
  "tempSensorAttrs I =
     [attribute_of (MeasuredValue_Id I) INT16S 2, attribute_of (MinMeasuredValue_Id I) INT16S 2,
      attribute_of (MaxMeasuredValue_Id I) INT16S 2, attribute_of (FeatureMap_Id I) BITMAP32 4] @ attribute_list_end I"

definition powerSourceAttrs :: "chip_ids \<Rightarrow> decl_ids \<Rightarrow> attribute_decl list" where
  "powerSourceAttrs I J =
     [attribute_of (BatChargeLevel_Id J) ENUM8 1, attribute_of (BatReplacementNeeded_Id J) BOOLEAN 1,
      attribute_of (BatReplaceability_Id J) ENUM8 1, attribute_of (Order_Id J) INT8U 1,
      attribute_of (Status_Id J) ENUM8 1, attribute_of (Description_Id J) CHAR_STRING 32,
      attribute_of (EndpointList_Id J) ARRAY 0, attribute_of (FeatureMap_Id I) BITMAP32 4] @ attribute_list_end I"

record cluster_decl =
  cd_id :: u32
  cd_attributes :: "attribute_decl list"
  cd_commands :: "u32 list"

definition onOffIncomingCommands :: "decl_ids \<Rightarrow> u32 list" where
  "onOffIncomingCommands J =
     [Off_Id J, On_Id J, Toggle_Id J, OffWithEffect_Id J, OnWithRecallGlobalScene_Id J, OnWithTimedOff_Id J,
      kInvalidCommandId J]"

definition levelControlIncomingCommands :: "decl_ids \<Rightarrow> u32 list" where
  "levelControlIncomingCommands J =
     [MoveToLevel_Id J, Move_Id J, Step_Id J, Stop_Id J, MoveToLevelWithOnOff_Id J, MoveWithOnOff_Id J,
      StepWithOnOff_Id J, StopWithOnOff_Id J, kInvalidCommandId J]"

definition light_cluster_decls :: "chip_ids \<Rightarrow> decl_ids \<Rightarrow> cluster_decl list" where
  "light_cluster_decls I J =
     [\<lparr>cd_id = OnOff_Id I, cd_attributes = onOffAttrs I, cd_commands = onOffIncomingCommands J\<rparr>,
      \<lparr>cd_id = Descriptor_Id I, cd_attributes = descriptorAttrs I J, cd_commands = []\<rparr>,
      \<lparr>cd_id = BridgedDeviceBasicInformation_Id I, cd_attributes = bridgedDeviceBasicAttrs I, cd_commands = []\<rparr>]"

definition dimmable_cluster_decls :: "chip_ids \<Rightarrow> decl_ids \<Rightarrow> cluster_decl list" where
  "dimmable_cluster_decls I J =
     [\<lparr>cd_id = OnOff_Id I, cd_attributes = onOffAttrs I, cd_commands = onOffIncomingCommands J\<rparr>,
      \<lparr>cd_id = LevelControl_Id I, cd_attributes = levelControlAttrs I, cd_commands = levelControlIncomingCommands J\<rparr>,
      \<lparr>cd_id = Descriptor_Id I, cd_attributes = descriptorAttrs I J, cd_commands = []\<rparr>,
      \<lparr>cd_id = BridgedDeviceBasicInformation_Id I, cd_attributes = bridgedDeviceBasicAttrs I, cd_commands = []\<rparr>]"

text \<open>The declarations of the sensor endpoints, which the application never publishes.\<close>

definition bridgedTempSensorClusters :: "chip_ids \<Rightarrow> decl_ids \<Rightarrow> cluster_decl list" where
  "bridgedTempSensorClusters I J =
     [\<lparr>cd_id = TemperatureMeasurement_Id I, cd_attributes = tempSensorAttrs I, cd_commands = []\<rparr>,
      \<lparr>cd_id = Descriptor_Id I, cd_attributes = descriptorAttrs I J, cd_commands = []\<rparr>,
      \<lparr>cd_id = BridgedDeviceBasicInformation_Id I, cd_attributes = bridgedDeviceBasicAttrs I, cd_commands = []\<rparr>]"

definition bridgedComposedDeviceClusters :: "chip_ids \<Rightarrow> decl_ids \<Rightarrow> cluster_decl list" where
  "bridgedComposedDeviceClusters I J =
     [\<lparr>cd_id = Descriptor_Id I, cd_attributes = descriptorAttrs I J, cd_commands = []\<rparr>,
      \<lparr>cd_id = BridgedDeviceBasicInformation_Id I, cd_attributes = bridgedDeviceBasicAttrs I, cd_commands = []\<rparr>,
      \<lparr>cd_id = PowerSource_Id J, cd_attributes = powerSourceAttrs I J, cd_commands = []\<rparr>]"

definition endpoint_decl :: "chip_ids \<Rightarrow> decl_ids \<Rightarrow> endpoint_type \<Rightarrow> cluster_decl list" where
  "endpoint_decl I J t =
     (case t of bridgedLightEndpoint \<Rightarrow> light_cluster_decls I J
      | bridgedDimmableLightEndpoint \<Rightarrow> dimmable_cluster_decls I J)"

lemma endpoint_decl_clusters: "map cd_id (endpoint_decl I J t) = endpoint_clusters I t"
  by (cases t) (simp_all add: endpoint_decl_def light_cluster_decls_def dimmable_cluster_decls_def
      endpoint_clusters_def bridgedLightClusters_def bridgedDimmableLightClusters_def)

text \<open>The level control cluster names its revision itself, so that its list has it twice.\<close>

lemma revision_declared_twice:
  assumes "ids_documented I"
  shows "filter (\<lambda>at. ad_id at = ClusterRevision_Id I) (levelControlAttrs I) =
    replicate 2 (attribute_of (ClusterRevision_Id I) INT16U 2)"
proof -
  have "distinct [ClusterRevision_Id I, FeatureMap_Id I, CurrentLevel_Id I, MinLevel_Id I, MaxLevel_Id I]"
    using assms unfolding ids_documented_def by blast
  then show ?thesis by (auto simp: levelControlAttrs_def attribute_list_end_def attribute_of_def numeral_2_eq_2)
qed

section \<open>Every declared attribute is served\<close>

text \<open>
  The bytes that are values of a type: a boolean is 0 or 1, a string's length byte counts
  characters within its size, and a number has its width. Lists are left to the stack.
\<close>

fun well_typed :: "attribute_type \<Rightarrow> u8 list \<Rightarrow> bool" where
  "well_typed BOOLEAN bs \<longleftrightarrow> bs = [0] \<or> bs = [1]"
| "well_typed CHAR_STRING bs \<longleftrightarrow> bs \<noteq> [] \<and> unat (hd bs) < length bs"
| "well_typed INT8U bs \<longleftrightarrow> length bs = 1"
| "well_typed ENUM8 bs \<longleftrightarrow> length bs = 1"
| "well_typed INT16U bs \<longleftrightarrow> length bs = 2"
| "well_typed INT16S bs \<longleftrightarrow> length bs = 2"
| "well_typed INT32U bs \<longleftrightarrow> length bs = 4"
| "well_typed BITMAP32 bs \<longleftrightarrow> length bs = 4"
| "well_typed ARRAY bs \<longleftrightarrow> False"

text \<open>
  A read succeeded, gave a value of the attribute's type and touched nothing behind the
  attribute.
\<close>

definition reads_fine :: "im_status \<times> u8 list \<Rightarrow> attribute_decl \<Rightarrow> u8 list \<Rightarrow> bool" where
  "reads_fine r at buf \<longleftrightarrow> fst r = Success \<and> well_typed (ad_type at) (take (ad_size at) (snd r)) \<and>
     length (snd r) = length buf \<and> drop (ad_size at) (snd r) = drop (ad_size at) buf"

lemma reads_fine_bytes:
  "length bs = ad_size at \<Longrightarrow> ad_size at \<le> length buf \<Longrightarrow> well_typed (ad_type at) bs \<Longrightarrow>
   reads_fine (Success, put_bytes bs buf) at buf"
  using take_put_bytes [of bs buf] by (simp add: reads_fine_def drop_put_bytes)

lemma reads_fine_string:
  assumes "zcl_documented M" and "32 \<le> length buf" and "ad_size at = 32" and "ad_type at = CHAR_STRING"
  shows "reads_fine (Success, put_zcl_string M 32 s buf) at buf"
proof -
  have "take 32 buf \<noteq> []" using assms(2) by auto
  then have "length (MakeZclCharString M (take 32 buf) s) = 32"
    "unat (hd (MakeZclCharString M (take 32 buf) s)) < 32"
    using assms(1) [unfolded zcl_documented_def, THEN conjunct1, THEN spec, THEN spec, of "take 32 buf" s]
      assms(2) by simp_all
  moreover from this(1) have "MakeZclCharString M (take 32 buf) s \<noteq> []" by auto
  ultimately show ?thesis
    using assms(2-) unfolding put_zcl_string_def by (intro reads_fine_bytes) simp_all
qed

lemma on_off_served:
  assumes "ids_documented (ids K)" and "at \<in> set (onOffAttrs (ids K))" and "ad_size at \<le> length buf"
  shows "reads_fine (HandleReadOnOffAttribute K d (ad_id at) buf (of_nat (ad_size at))) at buf"
proof -
  have "distinct [ClusterRevision_Id (ids K), FeatureMap_Id (ids K), OnOff_OnOff_Id (ids K)]"
    using assms(1) unfolding ids_documented_def by blast
  then show ?thesis
    using assms(2,3)
    by (auto simp: onOffAttrs_def attribute_list_end_def attribute_of_def HandleReadOnOffAttribute_def Let_def
        intro!: reads_fine_bytes)
qed

lemma level_served:
  assumes "ids_documented (ids K)" and "at \<in> set (levelControlAttrs (ids K))" and "ad_size at \<le> length buf"
  shows "reads_fine (HandleReadLevelControlAttribute K d (ad_id at) buf (of_nat (ad_size at))) at buf"
proof -
  have "distinct [ClusterRevision_Id (ids K), FeatureMap_Id (ids K), CurrentLevel_Id (ids K), MinLevel_Id (ids K),
      MaxLevel_Id (ids K)]"
    using assms(1) unfolding ids_documented_def by blast
  then show ?thesis
    using assms(2,3)
    by (auto simp: levelControlAttrs_def attribute_list_end_def attribute_of_def HandleReadLevelControlAttribute_def Let_def
        intro!: reads_fine_bytes)
qed

lemma basic_served:
  assumes "ids_documented (ids K)" and z: "zcl_documented (ember_api K)"
    and "at \<in> set (bridgedDeviceBasicAttrs (ids K))" and "ad_size at \<le> length buf"
  shows "reads_fine (HandleReadBridgedDeviceBasicAttribute K d (ad_id at) buf (of_nat (ad_size at))) at buf"
proof -
  have "distinct [ClusterRevision_Id (ids K), FeatureMap_Id (ids K), Reachable_Id (ids K), NodeLabel_Id (ids K),
      UniqueID_Id (ids K), ConfigurationVersion_Id (ids K)]"
    using assms(1) unfolding ids_documented_def by blast
  note n = this [simplified]
  from assms(3) consider "at = (attribute_of (NodeLabel_Id (ids K)) CHAR_STRING 32)\<lparr>ad_writable := True\<rparr>"
    | "at = attribute_of (Reachable_Id (ids K)) BOOLEAN 1" | "at = attribute_of (UniqueID_Id (ids K)) CHAR_STRING 32"
    | "at = attribute_of (ConfigurationVersion_Id (ids K)) INT32U 4"
    | "at = attribute_of (FeatureMap_Id (ids K)) BITMAP32 4" | "at = attribute_of (ClusterRevision_Id (ids K)) INT16U 2"
    unfolding bridgedDeviceBasicAttrs_def attribute_list_end_def kNodeLabelSize_def kUniqueIdSize_def by auto
  then show ?thesis
    using assms(4) n
    by cases (simp_all add: attribute_of_def HandleReadBridgedDeviceBasicAttribute_def Let_def
        reads_fine_bytes reads_fine_string [OF z])
qed

lemma read_declared:
  assumes doc: "chip_documented K V" and ok: "bridge_ok K V b" and e: "e \<in> set (gBridgedWemoLights b)"
    and h: "heap b (bl_device e) = Some d" and cl: "cl \<in> set (endpoint_decl (ids K) J (type_of_light d))"
    and nd: "cd_id cl \<noteq> Descriptor_Id (ids K)" and at: "at \<in> set (cd_attributes cl)"
    and buf: "ad_size at \<le> length buf"
  shows "\<exists>r. emberAfExternalAttributeReadCallback K (view_endpoint (dview K d)) (cd_id cl) (ad_id at) buf
      (of_nat (ad_size at)) b = Inr r \<and> reads_fine r at buf"
proof -
  note c = chip_parts [OF doc]
  note rd = read_callback_light [OF c(1,3) ok e h, of "ad_id at" buf "of_nat (ad_size at)"]
  have dim: "bl_is_dimmable e" if "type_of_light d = bridgedDimmableLightEndpoint"
    using bridge_okD(2) [OF ok e] h that by (auto simp: light_ok_def type_of_light_def split: if_splits)
  consider "cd_id cl = OnOff_Id (ids K)" "at \<in> set (onOffAttrs (ids K))"
    | "cd_id cl = BridgedDeviceBasicInformation_Id (ids K)" "at \<in> set (bridgedDeviceBasicAttrs (ids K))"
    | "cd_id cl = LevelControl_Id (ids K)" "at \<in> set (levelControlAttrs (ids K))" "bl_is_dimmable e"
    using cl nd at dim
    by (cases "type_of_light d") (auto simp: endpoint_decl_def light_cluster_decls_def dimmable_cluster_decls_def)
  then show ?thesis
    using rd on_off_served [OF c(1), of at buf d] basic_served [OF c(1,5), of at buf d] level_served [OF c(1), of at buf d] buf
    by cases auto
qed

text \<open>Only three attributes take writes.\<close>

lemma other_write_refused:
  assumes doc: "chip_documented K V" and ok: "bridge_ok K V b" and e: "e \<in> set (gBridgedWemoLights b)"
    and h: "heap b (bl_device e) = Some d"
    and cl: "cl \<in> set (endpoint_decl (ids K) J (type_of_light d))"
    and a: "(cd_id cl, a) \<notin> {(OnOff_Id (ids K), OnOff_OnOff_Id (ids K)),
      (LevelControl_Id (ids K), CurrentLevel_Id (ids K)),
      (BridgedDeviceBasicInformation_Id (ids K), NodeLabel_Id (ids K))}"
  shows "\<exists>st. st \<noteq> Success \<and> emberAfExternalAttributeWriteCallback K now later (view_endpoint (dview K d))
      (cd_id cl) a buf b = Inr (st, b)"
proof -
  note c = chip_parts [OF doc]
  note wr = write_callback_light [OF c(1,3) ok e h, of now later]
  obtain i where i: "i < endpoint_slots" "gDevices b ! i = Some (bl_device e)"
    "unat (emberAfGetDynamicIndexFromEndpoint (ember_api K) (view_endpoint (dview K d)) (ember b)) = i"
    "is_dimmer d = bl_is_dimmable e"
    by (rule published_light [OF c(3) ok e h])
  show ?thesis
  proof (cases "view_reachable (dview K d)")
    case False
    then show ?thesis using wr(4) by blast
  next
    case True
    have "cd_id cl \<in> set (endpoint_clusters (ids K) (type_of_light d))"
      using cl endpoint_decl_clusters [of "ids K" J "type_of_light d"] by (metis image_eqI list.set_map)
    from served_cluster [OF this]
    consider (on) "cd_id cl = OnOff_Id (ids K)" | (desc) "cd_id cl = Descriptor_Id (ids K)"
      | (basic) "cd_id cl = BridgedDeviceBasicInformation_Id (ids K)"
      | (level) "cd_id cl = LevelControl_Id (ids K)" "bl_is_dimmable e"
      using i(4) by (auto simp: type_of_light_def split: if_splits)
    then show ?thesis
    proof cases
      case on
      then show ?thesis using wr(1) [OF True] a by (simp add: HandleWriteOnOffAttribute_def)
    next
      case desc
      then show ?thesis using descriptor_reads(2) [OF c(1) i(2) h i(3) i(1)] by simp
    next
      case basic
      then show ?thesis using wr(3) [OF True] a by (simp add: HandleWriteBridgedDeviceBasicAttribute_def)
    next
      case level
      then show ?thesis using wr(2) [OF True] a by (simp add: HandleWriteLevelControlAttribute_def)
    qed
  qed
qed

section \<open>Properties\<close>

text \<open>
  C17. The callbacks serve exactly what is declared. Every attribute an endpoint of a published
  light is declared with, the cluster revision that closes each list included, is read at its
  declared size with Success, except in the Descriptor cluster, which the stack serves itself:
  the buffer then holds a value of the declared type, and nothing behind that size has changed.
  A write to any attribute other than the on/off state, the level and the node label is
  refused and changes nothing.
\<close>

theorem declared_attributes_served:
  assumes "chip_documented K V" and "bridge_ok K V b" and "e \<in> set (gBridgedWemoLights b)"
    and "heap b (bl_device e) = Some d" and "cl \<in> set (endpoint_decl (ids K) J (type_of_light d))"
  shows "(cd_id cl \<noteq> Descriptor_Id (ids K) \<longrightarrow> (\<forall>at\<in>set (cd_attributes cl). ad_size at \<le> length buf \<longrightarrow>
      (\<exists>buf'. emberAfExternalAttributeReadCallback K (view_endpoint (dview K d)) (cd_id cl) (ad_id at) buf
         (of_nat (ad_size at)) b = Inr (Success, buf') \<and>
       well_typed (ad_type at) (take (ad_size at) buf') \<and>
       length buf' = length buf \<and> drop (ad_size at) buf' = drop (ad_size at) buf))) \<and>
    (\<forall>a. (cd_id cl, a) \<notin> {(OnOff_Id (ids K), OnOff_OnOff_Id (ids K)),
        (LevelControl_Id (ids K), CurrentLevel_Id (ids K)),
        (BridgedDeviceBasicInformation_Id (ids K), NodeLabel_Id (ids K))} \<longrightarrow>
      (\<exists>st. st \<noteq> Success \<and> emberAfExternalAttributeWriteCallback K now later (view_endpoint (dview K d))
         (cd_id cl) a wbuf b = Inr (st, b)))"
  using read_declared [OF assms] other_write_refused [OF assms]
  by (fastforce simp: reads_fine_def)

definition mem_decl_ids :: decl_ids where
  "mem_decl_ids = \<lparr>DeviceTypeList_Id = 0, ServerList_Id = 1, ClientList_Id = 2, PartsList_Id = 3,
     Off_Id = 0, On_Id = 1, Toggle_Id = 2, OffWithEffect_Id = 64, OnWithRecallGlobalScene_Id = 65,
     OnWithTimedOff_Id = 66, MoveToLevel_Id = 0, Move_Id = 1, Step_Id = 2, Stop_Id = 3,
     MoveToLevelWithOnOff_Id = 4, MoveWithOnOff_Id = 5, StepWithOnOff_Id = 6, StopWithOnOff_Id = 7,
     kInvalidCommandId = 0xFFFFFFFF, PowerSource_Id = 47,
     BatChargeLevel_Id = 14, BatReplacementNeeded_Id = 15, BatReplaceability_Id = 16, Order_Id = 1,
     Status_Id = 0, Description_Id = 2, EndpointList_Id = 31\<rparr>"

theorem declared_attributes_served_witness:
  "\<exists>buf'. emberAfExternalAttributeReadCallback mem_chip 3 8 3 (replicate 32 0) 1 lamp_bridge = Inr (Success, buf') \<and>
     well_typed INT8U (take 1 buf') \<and> length buf' = 32"
proof -
  let ?cl = "\<lparr>cd_id = LevelControl_Id (ids mem_chip), cd_attributes = levelControlAttrs (ids mem_chip),
    cd_commands = levelControlIncomingCommands mem_decl_ids\<rparr>"
  have t: "type_of_light lamp_device = bridgedDimmableLightEndpoint"
    by (simp add: type_of_light_def is_dimmer_def lamp_device_def)
  have cl: "?cl \<in> set (endpoint_decl (ids mem_chip) mem_decl_ids (type_of_light lamp_device))"
    by (simp add: t endpoint_decl_def dimmable_cluster_decls_def)
  have i: "LevelControl_Id (ids mem_chip) = 8" "MaxLevel_Id (ids mem_chip) = 3" "Descriptor_Id (ids mem_chip) = 29"
    by (simp_all add: mem_chip_def mem_ids_def)
  have at: "attribute_of (MaxLevel_Id (ids mem_chip)) INT8U 1 \<in> set (cd_attributes ?cl)"
    by (simp add: levelControlAttrs_def)
  from declared_attributes_served [OF mem_chip_documented lamp_bridge_ok lamp_facts(12,13) cl, THEN conjunct1,
      rule_format, OF _ at, of "replicate 32 0"]
  show ?thesis by (auto simp: i attribute_of_def lamp_view)
qed

end
