(* ===== verification/Power_Source.thy ===== *)
theory Power_Source
  imports Declarations Bridge_System
begin

text \<open>
  The composed device of \<^verbatim>\<open>matter-bridge-app/main.cpp\<close>: the attribute access interface
  \<open>BridgedPowerSourceAttrAccess\<close> of the Power Source cluster, and the status handlers of the
  power source and the temperature sensors. The interface reads the extra slot behind the
  endpoint table, which nothing ever fills.
\<close>

section \<open>Status handlers\<close>

text \<open>The change masks of the two classes, and the getters of \<open>DevicePowerSource\<close>.\<close>

record source_masks =
  kChanged_BatLevel :: u32
  kChanged_Description :: u32
  kChanged_EndpointList :: u32
  kChanged_MeasurementValue :: u32

record 'd power_api =
  GetBatChargeLevel :: "'d \<Rightarrow> u8"
  GetOrder :: "'d \<Rightarrow> u8"
  GetStatus :: "'d \<Rightarrow> u8"
  GetDescription :: "'d \<Rightarrow> string"
  GetEndpointList :: "'d \<Rightarrow> u16 list"
  GetFeatureMap :: "'d \<Rightarrow> u32"

text \<open>
  Unlike the other handlers, the one of the power source reports its own attributes at once,
  through \<open>MatterReportingAttributeChangeCallback\<close>: the reports come first, then the work.
\<close>

definition report_now :: "('d, 'e) chip \<Rightarrow> 'd device_object \<Rightarrow> u32 \<Rightarrow> u32 \<Rightarrow> (u16 \<times> u32 \<times> u32) list" where
  "report_now K dev cluster attr = [(base_GetEndpointId (dev_api K) (dv_base dev), cluster, attr)]"

definition HandleDevicePowerSourceStatusChanged ::
    "('d, 'e) chip \<Rightarrow> decl_ids \<Rightarrow> source_masks \<Rightarrow> 'd device_object \<Rightarrow> u32 \<Rightarrow>
     (u16 \<times> u32 \<times> u32) list \<times> work_item list" where
  "HandleDevicePowerSourceStatusChanged K J S dev itemChangedMask =
     (let I = ids K;
          scheduled = (if itemChangedMask AND
                (kChanged_Reachable I OR kChanged_Name I OR kChanged_Location I) \<noteq> 0
              then HandleDeviceStatusChanged K dev itemChangedMask else []);
          r1 = (if itemChangedMask AND kChanged_BatLevel S \<noteq> 0
                then report_now K dev (PowerSource_Id J) (BatChargeLevel_Id J) else []);
          r2 = (if itemChangedMask AND kChanged_Description S \<noteq> 0
                then report_now K dev (PowerSource_Id J) (Description_Id J) else []);
          r3 = (if itemChangedMask AND kChanged_EndpointList S \<noteq> 0
                then report_now K dev (PowerSource_Id J) (EndpointList_Id J) else [])
      in (r1 @ r2 @ r3, scheduled))"

definition HandleDeviceTempSensorStatusChanged ::
    "('d, 'e) chip \<Rightarrow> source_masks \<Rightarrow> 'd device_object \<Rightarrow> u32 \<Rightarrow> work_item list" where
  "HandleDeviceTempSensorStatusChanged K S dev itemChangedMask =
     (let I = ids K
      in (if itemChangedMask AND (kChanged_Reachable I OR kChanged_Name I OR kChanged_Location I) \<noteq> 0
          then HandleDeviceStatusChanged K dev itemChangedMask else []) @
         (if itemChangedMask AND kChanged_MeasurementValue S \<noteq> 0
          then ScheduleReportingCallback K dev (TemperatureMeasurement_Id I) (MeasuredValue_Id I) else []))"

section \<open>The attribute access interface\<close>

definition ZCL_POWER_SOURCE_CLUSTER_REVISION :: u16 where
  "ZCL_POWER_SOURCE_CLUSTER_REVISION = 2"

datatype encoded =
    EncodedU8 u8
  | EncodedU16 u16
  | EncodedU32 u32
  | EncodedBool bool
  | EncodedString string
  | EncodedList "u16 list"
  | EncodedNotReplaceable

datatype access_error = NoError | UnsupportedEndpoint | UnsupportedAttribute

text \<open>
  What \<open>Read\<close> returns, and what it gave the encoder; the error of \<open>Encode\<close> itself is
  ignored. The value of a power source is computed through an unchecked downcast.
\<close>

definition power_value ::
    "('d, 'e) chip \<Rightarrow> decl_ids \<Rightarrow> 'd power_api \<Rightarrow> 'd \<Rightarrow> u32 \<Rightarrow> encoded option" where
  "power_value K J P d attributeId =
     (let I = ids K
      in if attributeId = BatChargeLevel_Id J then Some (EncodedU8 (GetBatChargeLevel P d))
         else if attributeId = Order_Id J then Some (EncodedU8 (GetOrder P d))
         else if attributeId = Status_Id J then Some (EncodedU8 (GetStatus P d))
         else if attributeId = Description_Id J then Some (EncodedString (GetDescription P d))
         else if attributeId = EndpointList_Id J then Some (EncodedList (GetEndpointList P d))
         else if attributeId = ClusterRevision_Id I then Some (EncodedU16 ZCL_POWER_SOURCE_CLUSTER_REVISION)
         else if attributeId = FeatureMap_Id I then Some (EncodedU32 (GetFeatureMap P d))
         else if attributeId = BatReplacementNeeded_Id J then Some (EncodedBool False)
         else if attributeId = BatReplaceability_Id J then Some EncodedNotReplaceable
         else None)"

definition powerSourceDeviceIndex :: nat where
  "powerSourceDeviceIndex = CHIP_DEVICE_CONFIG_DYNAMIC_ENDPOINT_COUNT"

definition PowerSource_Read ::
    "('d, 'e) chip \<Rightarrow> decl_ids \<Rightarrow> 'd power_api \<Rightarrow> u16 \<Rightarrow> u32 \<Rightarrow> ('d, 'e) bridge \<Rightarrow>
     fault + access_error \<times> encoded option" where
  "PowerSource_Read K J P endpoint attributeId b =
     (case gDevices b ! powerSourceDeviceIndex of
        None \<Rightarrow> Inr (NoError, None)
      | Some p \<Rightarrow> (case heap b p of
          None \<Rightarrow> Inl DanglingPointer
        | Some dev \<Rightarrow>
            if dv_class dev \<noteq> CDevicePowerSource then Inl BadDowncast
            else if endpoint \<noteq> base_GetEndpointId (dev_api K) (dv_base dev) then Inr (UnsupportedEndpoint, None)
            else (case power_value K J P (dv_base dev) attributeId of
                None \<Rightarrow> Inr (UnsupportedAttribute, None)
              | Some v \<Rightarrow> Inr (NoError, Some v))))"

section \<open>The extra slot stays empty\<close>

lemma publish_device_slot:
  assumes "publish_post K V dev b b'"
  shows "gDevices b' ! powerSourceDeviceIndex = gDevices b ! powerSourceDeviceIndex"
proof -
  obtain d r b2 where a: "add_post K V (next_object b) (light_type dev) (light_device_types dev)
      (length (endpoint_clusters (ids K) (light_type dev))) 1 (staged K dev d b) r b2"
    and o: "if r < 0 then kept V b b' else published_as K V dev (nat r) (gCurrentEndpointId b2) b b'"
    using assms unfolding publish_post_def by blast
  show ?thesis
  proof (cases "r < 0")
    case True
    then show ?thesis using o by (simp add: kept_def)
  next
    case False
    from a consider "r = - 1" | i where "i < 16" "r = int i" unfolding add_post_def by blast
    then show ?thesis
    proof cases
      case 1
      then show ?thesis using False by simp
    next
      case (2 i)
      then have "gDevices b' = (gDevices b)[i := Some (next_object b)]" using o by (simp add: published_as_def)
      then show ?thesis
        using 2(1) by (simp add: powerSourceDeviceIndex_def CHIP_DEVICE_CONFIG_DYNAMIC_ENDPOINT_COUNT_def)
    qed
  qed
qed

lemma publish_devices_slot:
  assumes "chip_documented K V"
  shows "bridge_ok K V b \<Longrightarrow> publish_devices K devs b = Some b' \<Longrightarrow>
    gDevices b' ! powerSourceDeviceIndex = gDevices b ! powerSourceDeviceIndex"
proof (induction devs arbitrary: b)
  case (Cons dev devs)
  obtain b1 where b1: "publish_device K dev b = Some b1" "bridge_ok K V b1"
    and o: "b1 = b \<or> publish_post K V dev b b1"
    by (rule publish_device_law [OF chip_parts(1-3) [OF assms] Cons.prems(1)]) blast
  have "gDevices b' ! powerSourceDeviceIndex = gDevices b1 ! powerSourceDeviceIndex"
    by (rule Cons.IH [OF b1(2)]) (use Cons.prems(2) b1(1) in simp)
  also have "\<dots> = gDevices b ! powerSourceDeviceIndex" using o publish_device_slot by blast
  finally show ?case .
qed simp

lemma boots_to_slot:
  assumes doc: "chip_documented K V" and "boots_to K V E s"
  shows "gDevices (bridge_state s) ! powerSourceDeviceIndex = None"
proof -
  obtain b a where b: "fresh_boot K V b" "ApplicationInit K E b a = Some (bridge_state s, adapter_state s)"
    using assms(2) unfolding boots_to_def by blast
  obtain ds a1 where d: "Discover E a = (ds, a1)" by (rule prod.exhaust)
  note c = chip_parts [OF doc]
  have "publish_devices K (sort_devices ds) (reset_bridge K b) = Some (bridge_state s)"
    using b(2) ApplicationInit_cases [OF d, of K b] by auto
  from publish_devices_slot [OF doc reset_bridge_ok [OF c(3) b(1)] this]
  show ?thesis
    by (simp add: reset_bridge_fields(2) [OF c(3)] powerSourceDeviceIndex_def
        CHIP_DEVICE_CONFIG_DYNAMIC_ENDPOINT_COUNT_def)
qed

text \<open>
  C39. In every state the program reaches, a read of any attribute of the Power Source cluster
  on any endpoint, whether or not the endpoint has that cluster, is answered with success
  and without a value: no composed device is ever published, so neither of the two error
  codes of the interface is ever returned.
\<close>

theorem power_source_never_served:
  assumes "chip_documented K V" and "boots_to K V E s" and "system_run K V E s ls s'"
  shows "PowerSource_Read K J P endpoint attributeId (bridge_state s') = Inr (NoError, None)"
proof -
  have "same_setup (bridge_state s) (bridge_state s')"
    using system_run_keeps [OF assms(1,3)] boots_to_inv [OF assms(1,2)] by blast
  then have "gDevices (bridge_state s') ! powerSourceDeviceIndex = None"
    using boots_to_slot [OF assms(1,2)] by (simp add: same_setup_def)
  then show ?thesis by (simp add: PowerSource_Read_def)
qed

definition mem_power_api :: "mem_dev power_api" where
  "mem_power_api = \<lparr>GetBatChargeLevel = (\<lambda>d. 0), GetOrder = (\<lambda>d. 0), GetStatus = (\<lambda>d. 1),
     GetDescription = md_name, GetEndpointList = (\<lambda>d. [md_endpoint d]), GetFeatureMap = (\<lambda>d. 2)\<rparr>"

theorem power_source_never_served_witness:
  "\<exists>s. boots_to mem_chip mem_slot (list_engine [lamp_info]) s \<and>
     PowerSource_Read mem_chip mem_decl_ids mem_power_api 3 14 (bridge_state s) = Inr (NoError, None)"
proof -
  obtain s where s: "boots_to mem_chip mem_slot (list_engine [lamp_info]) s" by (rule lamp_boots)
  from power_source_never_served [OF mem_chip_documented s run_nil] s show ?thesis by blast
qed

end
