(* ===== verification/Test_Console.thy ===== *)
theory Test_Console
  imports Boot
begin

text \<open>
  The static test devices of \<^verbatim>\<open>matter-bridge-app/main.cpp\<close>, the single-character console
  \<open>bridge_polling_thread\<close> that drives them, and the room action \<open>runOnOffRoomAction\<close>. The
  application compiles them in but never starts the console thread.
\<close>

section \<open>The static devices\<close>

text \<open>What these parts call of the SDK's device classes, beyond the bridged lights.\<close>

record 'd test_api =
  new_DeviceTempSensor :: "string \<Rightarrow> string \<Rightarrow> int \<Rightarrow> int \<Rightarrow> int \<Rightarrow> 'd"
  base_Toggle :: "'d \<Rightarrow> 'd \<times> notice list"
  base_GetLocation :: "'d \<Rightarrow> string"
  base_SetLocation :: "string \<Rightarrow> 'd \<Rightarrow> 'd \<times> notice list"
  base_SetZone :: "string \<Rightarrow> 'd \<Rightarrow> 'd"
  base_SetMeasuredValue :: "u16 \<Rightarrow> 'd \<Rightarrow> 'd \<times> notice list"
  base_SetConfigurationVersion :: "u32 \<Rightarrow> 'd \<Rightarrow> 'd"

text \<open>
  The setters change what they name: a location is kept as it is given, switching a device
  does not move it, and installing or reporting nothing changes its location.
\<close>

definition test_documented :: "'d device_api \<Rightarrow> 'd test_api \<Rightarrow> bool" where
  "test_documented D R \<longleftrightarrow>
     (\<forall>l d. base_GetLocation R (fst (base_SetLocation R l d)) = l \<and>
        look D (fst (base_SetLocation R l d)) = look D d) \<and>
     (\<forall>on d. base_GetLocation R (fst (base_SetOnOff D on d)) = base_GetLocation R d) \<and>
     (\<forall>m d. base_GetLocation R (fst (base_HandleDeviceChange D m d)) = base_GetLocation R d) \<and>
     (\<forall>d. look D (fst (base_Toggle R d)) = (look D d)\<lparr>view_on := \<not> view_on (look D d)\<rparr>) \<and>
     (\<forall>v d. look D (base_SetConfigurationVersion R v d) = (look D d)\<lparr>view_config_version := v\<rparr>)"

definition Light1 :: nat where "Light1 = 0"
definition Light2 :: nat where "Light2 = 1"
definition TempSensor1 :: nat where "TempSensor1 = 2"
definition TempSensor2 :: nat where "TempSensor2 = 3"
definition ComposedTempSensor1 :: nat where "ComposedTempSensor1 = 4"
definition ComposedTempSensor2 :: nat where "ComposedTempSensor2 = 5"
definition ActionLight1 :: nat where "ActionLight1 = 6"
definition ActionLight2 :: nat where "ActionLight2 = 7"
definition ActionLight3 :: nat where "ActionLight3 = 8"
definition ActionLight4 :: nat where "ActionLight4 = 9"

definition minMeasuredValue :: int where "minMeasuredValue = - 27315"
definition maxMeasuredValue :: int where "maxMeasuredValue = 32766"
definition initialMeasuredValue :: int where "initialMeasuredValue = 100"

definition make_DeviceTempSensor :: "'d test_api \<Rightarrow> string \<Rightarrow> string \<Rightarrow> 'd device_object" where
  "make_DeviceTempSensor R name location =
     \<lparr>dv_class = CDeviceTempSensor,
      dv_base = new_DeviceTempSensor R name location minMeasuredValue maxMeasuredValue initialMeasuredValue,
      dv_on_off_cb = None, mLevel = 0, mChanged_CB = None\<rparr>"

text \<open>The objects constructed before \<open>main\<close>.\<close>

definition static_lights :: "('d, 'e) chip \<Rightarrow> (nat \<times> 'd device_object) list" where
  "static_lights K =
     [(Light1, make_DeviceOnOff K ''Light 1'' ''Office''), (Light2, make_DeviceOnOff K ''Light 2'' ''Office'')]"

definition static_sensors :: "'d test_api \<Rightarrow> (nat \<times> 'd device_object) list" where
  "static_sensors R =
     [(TempSensor1, make_DeviceTempSensor R ''TempSensor 1'' ''Office''),
      (TempSensor2, make_DeviceTempSensor R ''TempSensor 2'' ''Office'')]"

definition static_action_lights :: "('d, 'e) chip \<Rightarrow> (nat \<times> 'd device_object) list" where
  "static_action_lights K =
     [(ActionLight1, make_DeviceOnOff K ''Action Light 1'' ''Room 1''),
      (ActionLight2, make_DeviceOnOff K ''Action Light 2'' ''Room 1''),
      (ActionLight3, make_DeviceOnOff K ''Action Light 3'' ''Room 2''),
      (ActionLight4, make_DeviceOnOff K ''Action Light 4'' ''Room 2'')]"

definition static_composed_sensors :: "'d test_api \<Rightarrow> (nat \<times> 'd device_object) list" where
  "static_composed_sensors R =
     [(ComposedTempSensor1, make_DeviceTempSensor R ''Composed TempSensor 1'' ''Bedroom''),
      (ComposedTempSensor2, make_DeviceTempSensor R ''Composed TempSensor 2'' ''Bedroom'')]"

definition static_objects :: "('d, 'e) chip \<Rightarrow> 'd test_api \<Rightarrow> nat \<rightharpoonup> 'd device_object" where
  "static_objects K R =
     map_of (static_lights K @ static_sensors R @ static_action_lights K @ static_composed_sensors R)"

text \<open>A method call on an object that the program holds a pointer or reference to.\<close>

definition call_object ::
    "('d, 'e) chip \<Rightarrow> nat \<Rightarrow> ('d device_object \<Rightarrow> 'd device_object \<times> work_item list) \<Rightarrow>
     ('d, 'e) bridge \<Rightarrow> ('d, 'e) bridge" where
  "call_object K p f b = (case heap b p of None \<Rightarrow> b | Some dev \<Rightarrow> put_device K p (f dev) b)"

definition dev_Toggle ::
    "('d, 'e) chip \<Rightarrow> 'd test_api \<Rightarrow> 'd device_object \<Rightarrow> 'd device_object \<times> work_item list" where
  "dev_Toggle K R dev =
     (let (d, ns) = base_Toggle R (dv_base dev) in run_notices K (dev\<lparr>dv_base := d\<rparr>) ns)"

definition dev_SetLocation ::
    "('d, 'e) chip \<Rightarrow> 'd test_api \<Rightarrow> string \<Rightarrow> 'd device_object \<Rightarrow> 'd device_object \<times> work_item list" where
  "dev_SetLocation K R l dev =
     (let (d, ns) = base_SetLocation R l (dv_base dev) in run_notices K (dev\<lparr>dv_base := d\<rparr>) ns)"

text \<open>\<open>SetMeasuredValue(static_cast<int16_t>(GetMeasuredValue() + oneDegree))\<close>; the sum wraps.\<close>

definition oneDegree :: u16 where
  "oneDegree = 100"

definition dev_warm ::
    "('d, 'e) chip \<Rightarrow> 'd test_api \<Rightarrow> 'd device_object \<Rightarrow> 'd device_object \<times> work_item list" where
  "dev_warm K R dev =
     (let (d, ns) = base_SetMeasuredValue R (temp_GetMeasuredValue (dev_api K) (dv_base dev) + oneDegree) (dv_base dev)
      in run_notices K (dev\<lparr>dv_base := d\<rparr>) ns)"

text \<open>\<open>SetConfigurationVersion(GetConfigurationVersion() + 1)\<close>.\<close>

definition dev_bump_version ::
    "('d, 'e) chip \<Rightarrow> 'd test_api \<Rightarrow> 'd device_object \<Rightarrow> 'd device_object \<times> work_item list" where
  "dev_bump_version K R dev =
     (dev\<lparr>dv_base := base_SetConfigurationVersion R
        (base_GetConfigurationVersion (dev_api K) (dv_base dev) + 1) (dv_base dev)\<rparr>, [])"

section \<open>Rooms and actions\<close>

record room =
  room_name :: string
  room_id :: u16
  room_is_zone :: bool
  room_visible :: bool

datatype action_type = kAutomation

datatype action_state = kActive | kInactive

record action_entry =
  action_id :: u16
  action_name :: string
  action_type_of :: action_type
  action_endpoint_list :: u16
  action_commands :: u16
  action_status :: action_state
  action_visible :: bool

text \<open>The logged events: action, invocation, state.\<close>

type_synonym action_event = "u16 \<times> u32 \<times> action_state"

definition in_room :: "'d test_api \<Rightarrow> string \<Rightarrow> 'd device_object \<Rightarrow> bool" where
  "in_room R name dev \<longleftrightarrow> name = base_GetLocation R (dv_base dev)"

definition switch_in_room ::
    "('d, 'e) chip \<Rightarrow> 'd test_api \<Rightarrow> string \<Rightarrow> bool \<Rightarrow> nat \<Rightarrow> ('d, 'e) bridge \<Rightarrow> ('d, 'e) bridge" where
  "switch_in_room K R name on p b =
     call_object K p (\<lambda>dev. if in_room R name dev then dev_SetOnOff K on dev else (dev, [])) b"

definition runOnOffRoomAction ::
    "('d, 'e) chip \<Rightarrow> 'd test_api \<Rightarrow> room \<Rightarrow> bool \<Rightarrow> u16 \<Rightarrow> u32 \<Rightarrow> bool \<Rightarrow>
     ('d, 'e) bridge \<Rightarrow> ('d, 'e) bridge \<times> action_event list" where
  "runOnOffRoomAction K R rm actionOn actionID invokeID hasInvokeID b =
     (let before = (if hasInvokeID then [(actionID, invokeID, kActive)] else []);
          b = switch_in_room K R (room_name rm) actionOn ActionLight1 b;
          b = switch_in_room K R (room_name rm) actionOn ActionLight2 b;
          b = switch_in_room K R (room_name rm) actionOn ActionLight3 b;
          b = switch_in_room K R (room_name rm) actionOn ActionLight4 b
      in (b, before @ (if hasInvokeID then [(actionID, invokeID, kInactive)] else [])))"

text \<open>The endpoint, action and room lists handed to the Actions cluster are always empty.\<close>

definition GetEndpointListInfo :: "u16 \<Rightarrow> (u16 \<times> u16 list) list" where
  "GetEndpointListInfo parentId = []"

definition GetActionListInfo :: "u16 \<Rightarrow> action_entry list" where
  "GetActionListInfo parentId = []"

definition GetRoomListInfo :: "u16 \<Rightarrow> room list" where
  "GetRoomListInfo parentId = []"

section \<open>The console\<close>

record ('d, 'e) console =
  light1_added :: bool
  light2_added :: bool
  con_bridge :: "('d, 'e) bridge"
  room1 :: room
  room2 :: room
  room3 :: room
  action1 :: action_entry
  action2 :: action_entry
  action3 :: action_entry

definition static_room1 :: room where
  "static_room1 = \<lparr>room_name = ''Room 1'', room_id = 0xE001, room_is_zone = False, room_visible = True\<rparr>"
definition static_room2 :: room where
  "static_room2 = \<lparr>room_name = ''Room 2'', room_id = 0xE002, room_is_zone = False, room_visible = True\<rparr>"
definition static_room3 :: room where
  "static_room3 = \<lparr>room_name = ''Zone 3'', room_id = 0xE003, room_is_zone = True, room_visible = False\<rparr>"

definition static_action1 :: action_entry where
  "static_action1 = \<lparr>action_id = 0x1001, action_name = ''Room 1 On'', action_type_of = kAutomation,
     action_endpoint_list = 0xE001, action_commands = 1, action_status = kInactive, action_visible = True\<rparr>"
definition static_action2 :: action_entry where
  "static_action2 = \<lparr>action_id = 0x1002, action_name = ''Turn On Room 2'', action_type_of = kAutomation,
     action_endpoint_list = 0xE002, action_commands = 1, action_status = kInactive, action_visible = True\<rparr>"
definition static_action3 :: action_entry where
  "static_action3 = \<lparr>action_id = 0x1003, action_name = ''Turn Off Room 1'', action_type_of = kAutomation,
     action_endpoint_list = 0xE003, action_commands = 1, action_status = kInactive, action_visible = False\<rparr>"

definition console_start :: "('d, 'e) bridge \<Rightarrow> ('d, 'e) console" where
  "console_start b =
     \<lparr>light1_added = True, light2_added = False, con_bridge = b, room1 = static_room1, room2 = static_room2,
      room3 = static_room3, action1 = static_action1, action2 = static_action2, action3 = static_action3\<rparr>"

definition on_con :: "(('d, 'e) bridge \<Rightarrow> ('d, 'e) bridge) \<Rightarrow> ('d, 'e) console \<Rightarrow> ('d, 'e) console" where
  "on_con f s = s\<lparr>con_bridge := f (con_bridge s)\<rparr>"

text \<open>\<open>AddDeviceEndpoint(&Light2, ...)\<close>, as the configuration without unique ids has it twice.\<close>

definition add_Light2 :: "('d, 'e) chip \<Rightarrow> ('d, 'e) console \<Rightarrow> ('d, 'e) console option" where
  "add_Light2 K s =
     map_option (\<lambda>(r, b). s\<lparr>con_bridge := b\<rparr>)
       (AddDeviceEndpoint K Light2 bridgedLightEndpoint gBridgedOnOffDeviceTypes
          (length (bridgedLightClusters (ids K))) 1 (con_bridge s))"

text \<open>The commands that add and remove the two lights.\<close>

definition endpoint_command :: "('d, 'e) chip \<Rightarrow> char \<Rightarrow> ('d, 'e) console \<Rightarrow> ('d, 'e) console option" where
  "endpoint_command K ch s =
     (case (if ch = CHR ''2'' \<and> \<not> light2_added s
            then map_option (\<lambda>s. s\<lparr>light2_added := True\<rparr>) (add_Light2 K s)
            else if ch = CHR ''4'' \<and> light1_added s
            then Some ((on_con (\<lambda>b. snd (RemoveDeviceEndpoint K Light1 b)) s)\<lparr>light1_added := False\<rparr>)
            else Some s) of
        None \<Rightarrow> None
      | Some s \<Rightarrow>
          if ch = CHR ''5'' \<and> \<not> light1_added s
          then map_option (\<lambda>s. s\<lparr>light1_added := True\<rparr>) (add_Light2 K s)
          else Some s)"

text \<open>The commands on the devices.\<close>

definition device_command ::
    "('d, 'e) chip \<Rightarrow> 'd test_api \<Rightarrow> char \<Rightarrow> ('d, 'e) console \<Rightarrow> ('d, 'e) console" where
  "device_command K R ch s =
     (if ch = CHR ''b''
      then let s = (if light1_added s then on_con (call_object K Light1 (dev_SetName K ''Light 1b'')) s else s)
           in if light2_added s then on_con (call_object K Light2 (dev_SetName K ''Light 2b'')) s else s
      else if ch = CHR ''c''
      then let s = (if light1_added s then on_con (call_object K Light1 (dev_Toggle K R)) s else s)
           in if light2_added s then on_con (call_object K Light2 (dev_Toggle K R)) s else s
      else if ch = CHR ''t''
      then on_con (call_object K ComposedTempSensor2 (dev_warm K R))
            (on_con (call_object K ComposedTempSensor1 (dev_warm K R))
              (on_con (call_object K TempSensor2 (dev_warm K R))
                (on_con (call_object K TempSensor1 (dev_warm K R)) s)))
      else if ch = CHR ''u'' then on_con (call_object K TempSensor1 (dev_SetReachable K False)) s
      else if ch = CHR ''v'' then on_con (call_object K TempSensor1 (dev_SetReachable K True)) s
      else if ch = CHR ''w'' then on_con (call_object K Light1 (dev_bump_version K R)) s
      else s)"

text \<open>The commands on the rooms and actions.\<close>

definition room_command ::
    "('d, 'e) chip \<Rightarrow> 'd test_api \<Rightarrow> char \<Rightarrow> ('d, 'e) console \<Rightarrow> ('d, 'e) console" where
  "room_command K R ch s =
     (if ch = CHR ''r''
      then let s = s\<lparr>room1 := (room1 s)\<lparr>room_name := ''Room 1 renamed''\<rparr>\<rparr>;
               s = on_con (call_object K ActionLight1 (dev_SetLocation K R (room_name (room1 s)))) s
           in on_con (call_object K ActionLight2 (dev_SetLocation K R (room_name (room1 s)))) s
      else if ch = CHR ''f''
      then on_con (call_object K ActionLight3 (dev_SetLocation K R (room_name (room1 s)))) s
      else if ch = CHR ''i'' then s\<lparr>room2 := (room2 s)\<lparr>room_visible := False\<rparr>\<rparr>
      else if ch = CHR ''l''
      then on_con (call_object K ActionLight2 (\<lambda>dev. (dev\<lparr>dv_base := base_SetZone R ''Zone 3'' (dv_base dev)\<rparr>, [])))
             (s\<lparr>room3 := (room3 s)\<lparr>room_visible := True\<rparr>\<rparr>)
      else if ch = CHR ''m'' then s\<lparr>action1 := (action1 s)\<lparr>action_name := ''Turn On Room 1''\<rparr>\<rparr>
      else if ch = CHR ''n'' then s\<lparr>action2 := (action2 s)\<lparr>action_visible := False\<rparr>\<rparr>
      else if ch = CHR ''o'' then s\<lparr>action3 := (action3 s)\<lparr>action_visible := True\<rparr>\<rparr>
      else s)"

text \<open>One character.\<close>

definition poll_command ::
    "('d, 'e) chip \<Rightarrow> 'd test_api \<Rightarrow> char \<Rightarrow> ('d, 'e) console \<Rightarrow> ('d, 'e) console option" where
  "poll_command K R ch s = map_option (\<lambda>s. room_command K R ch (device_command K R ch s)) (endpoint_command K ch s)"

text \<open>
  The polling loop over its first iterations: what \<open>ioctl\<close> says is waiting, and the character
  that \<open>getchar\<close> returns when something is.
\<close>

definition kbhit :: "int \<Rightarrow> bool" where
  "kbhit byteswaiting \<longleftrightarrow> byteswaiting > 0"

fun bridge_polling_thread ::
    "('d, 'e) chip \<Rightarrow> 'd test_api \<Rightarrow> (int \<times> char) list \<Rightarrow> ('d, 'e) console \<Rightarrow> ('d, 'e) console option" where
  "bridge_polling_thread K R [] s = Some s"
| "bridge_polling_thread K R ((byteswaiting, ch) # inputs) s =
     (if kbhit byteswaiting
      then (case poll_command K R ch s of None \<Rightarrow> None | Some s \<Rightarrow> bridge_polling_thread K R inputs s)
      else bridge_polling_thread K R inputs s)"

section \<open>What the room action does\<close>

definition action_lights :: "nat set" where
  "action_lights = {ActionLight1, ActionLight2, ActionLight3, ActionLight4}"

lemma action_lights_distinct:
  "ActionLight1 \<noteq> ActionLight2" "ActionLight1 \<noteq> ActionLight3" "ActionLight1 \<noteq> ActionLight4"
  "ActionLight2 \<noteq> ActionLight3" "ActionLight2 \<noteq> ActionLight4" "ActionLight3 \<noteq> ActionLight4"
  by (simp_all add: ActionLight1_def ActionLight2_def ActionLight3_def ActionLight4_def)

lemma dev_SetOnOff_base:
  assumes "device_documented (ids K) (dev_api K)"
  shows "dv_base (fst (dev_SetOnOff K on dev)) = fst (base_SetOnOff (dev_api K) on (dv_base dev))"
  using device_laws(4) [OF assms, of on "dv_base dev"]
  by (auto simp: dev_SetOnOff_def Let_def split: prod.splits if_splits)

text \<open>The object at one of the four lights after the action, and the work it causes.\<close>

definition room_switched :: "('d, 'e) chip \<Rightarrow> 'd test_api \<Rightarrow> string \<Rightarrow> bool \<Rightarrow> 'd device_object \<Rightarrow> 'd device_object" where
  "room_switched K R name on dev = (if in_room R name dev then fst (dev_SetOnOff K on dev) else dev)"

lemma switch_in_room_fields:
  "heap (switch_in_room K R name on p b) = (heap b)(p := map_option (room_switched K R name on) (heap b p))"
  "gDevices (switch_in_room K R name on p b) = gDevices b"
  "gBridgedWemoLights (switch_in_room K R name on p b) = gBridgedWemoLights b"
  "threads (switch_in_room K R name on p b) = threads b"
  "ember (switch_in_room K R name on p b) = ember b"
proof -
  let ?f = "\<lambda>dev. if in_room R name dev then dev_SetOnOff K on dev else (dev, [])"
  have "fst (?f dev) = room_switched K R name on dev" for dev by (simp add: room_switched_def)
  then show "heap (switch_in_room K R name on p b) = (heap b)(p := map_option (room_switched K R name on) (heap b p))"
    by (cases "heap b p") (auto simp: switch_in_room_def call_object_def put_device_def split: prod.splits
        intro!: ext, (metis fst_conv)+)
qed (simp_all add: switch_in_room_def call_object_def split: option.splits)

lemma switch_in_room_work:
  assumes "ids_documented (ids K)" and "device_documented (ids K) (dev_api K)"
    and "\<forall>dev. heap b p = Some dev \<longrightarrow> unwired dev"
  shows "work (switch_in_room K R name on p b) = work b"
proof (cases "heap b p")
  case (Some dev)
  obtain d' w where s: "dev_SetOnOff K on dev = (d', w)" by (rule prod.exhaust)
  then have "w = []" using dev_SetOnOff_law [OF assms(1,2) s] assms(3) Some by simp
  then show ?thesis using Some s by (simp add: switch_in_room_def call_object_def put_device_def schedule_all_def)
qed (simp add: switch_in_room_def call_object_def)

lemma room_switched_law:
  assumes "ids_documented (ids K)" and dd: "device_documented (ids K) (dev_api K)" and "test_documented (dev_api K) R"
  shows "same_shell dev (room_switched K R name on dev) \<and>
    base_GetLocation R (dv_base (room_switched K R name on dev)) = base_GetLocation R (dv_base dev) \<and>
    dview K (room_switched K R name on dev) =
      (if base_GetLocation R (dv_base dev) = name then (dview K dev)\<lparr>view_on := on\<rparr> else dview K dev)"
proof -
  obtain d' w where s: "dev_SetOnOff K on dev = (d', w)" by (rule prod.exhaust)
  have "\<forall>on d. base_GetLocation R (fst (base_SetOnOff (dev_api K) on d)) = base_GetLocation R d"
    using assms(3) unfolding test_documented_def by blast
  then have "base_GetLocation R (dv_base d') = base_GetLocation R (dv_base dev)"
    using dev_SetOnOff_base [OF dd, of on dev] s by simp
  then show ?thesis
    using dev_SetOnOff_law [OF assms(1) dd s] s by (auto simp: room_switched_def in_room_def same_shell_simps)
qed

text \<open>
  A room action switches the action lights that are located in the room, and no other
  device: each of them shows the commanded state, keeps its location and name, and the
  endpoint table and the commands to the engine are untouched; lights that no callback was
  installed on cause no report. It logs an active and an inactive event when it was invoked
  with an id, and nothing otherwise.
\<close>

theorem room_action_switches:
  assumes "ids_documented (ids K)" and "device_documented (ids K) (dev_api K)" and "test_documented (dev_api K) R"
    and "runOnOffRoomAction K R rm actionOn actionID invokeID hasInvokeID b = (b', evs)"
  shows "(\<forall>p d. heap b p = Some d \<longrightarrow> (\<exists>d'. heap b' p = Some d' \<and> same_shell d d' \<and>
      base_GetLocation R (dv_base d') = base_GetLocation R (dv_base d) \<and>
      dview K d' = (if p \<in> action_lights \<and> base_GetLocation R (dv_base d) = room_name rm
        then (dview K d)\<lparr>view_on := actionOn\<rparr> else dview K d))) \<and>
    gDevices b' = gDevices b \<and> ember b' = ember b \<and> threads b' = threads b \<and>
    ((\<forall>p\<in>action_lights. \<forall>d. heap b p = Some d \<longrightarrow> unwired d) \<longrightarrow> work b' = work b) \<and>
    evs = (if hasInvokeID then [(actionID, invokeID, kActive), (actionID, invokeID, kInactive)] else [])"
proof -
  let ?s = "switch_in_room K R (room_name rm) actionOn" and ?r = "room_switched K R (room_name rm) actionOn"
  have b': "b' = ?s ActionLight4 (?s ActionLight3 (?s ActionLight2 (?s ActionLight1 b)))"
    and evs: "evs = (if hasInvokeID then [(actionID, invokeID, kActive), (actionID, invokeID, kInactive)] else [])"
    using assms(4) by (auto simp: runOnOffRoomAction_def Let_def)
  have h: "heap b' p = (if p \<in> action_lights then map_option ?r (heap b p) else heap b p)" for p
    by (auto simp: b' switch_in_room_fields action_lights_def action_lights_distinct
        action_lights_distinct [symmetric])
  have w: "work b' = work b" if u: "\<forall>p\<in>action_lights. \<forall>d. heap b p = Some d \<longrightarrow> unwired d"
    unfolding b'
    using u by (simp add: switch_in_room_work [OF assms(1,2)] switch_in_room_fields action_lights_def
        action_lights_distinct [symmetric])
  have obj: "\<exists>d'. heap b' p = Some d' \<and> same_shell d d' \<and>
      base_GetLocation R (dv_base d') = base_GetLocation R (dv_base d) \<and>
      dview K d' = (if p \<in> action_lights \<and> base_GetLocation R (dv_base d) = room_name rm
        then (dview K d)\<lparr>view_on := actionOn\<rparr> else dview K d)" if "heap b p = Some d" for p d
    using room_switched_law [OF assms(1-3), of d "room_name rm" actionOn] that
    by (cases "p \<in> action_lights") (simp_all add: h same_shell_simps)
  then show ?thesis using w evs by (simp add: b' switch_in_room_fields)
qed

text \<open>The concrete devices keep what they are given.\<close>

definition mem_test_api :: "mem_dev test_api" where
  "mem_test_api =
     \<lparr>new_DeviceTempSensor = (\<lambda>n l lo hi v. \<lparr>md_reachable = False, md_on = False, md_name = take 31 n,
        md_unique = '''', md_config = 1, md_endpoint = 0, md_location = l, md_zone = '''',
        md_measured = word_of_int v\<rparr>),
      base_Toggle = (\<lambda>d. (d\<lparr>md_on := \<not> md_on d\<rparr>, [DirectChange 8])),
      base_GetLocation = md_location,
      base_SetLocation = (\<lambda>l d. (d\<lparr>md_location := l\<rparr>, if md_location d \<noteq> l then [VirtualChange 2] else [])),
      base_SetZone = (\<lambda>z d. d\<lparr>md_zone := z\<rparr>),
      base_SetMeasuredValue = (\<lambda>v d. (d\<lparr>md_measured := v\<rparr>, [])),
      base_SetConfigurationVersion = (\<lambda>v d. d\<lparr>md_config := v\<rparr>)\<rparr>"

lemma mem_test_documented: "test_documented (dev_api mem_chip) mem_test_api"
  by (simp add: test_documented_def mem_chip_def mem_test_api_def mem_device_api_def look_def)

text \<open>The program before its startup, with the static devices constructed.\<close>

definition static_bridge :: "(mem_dev, mem_slots) bridge" where
  "static_bridge = empty_bridge (static_objects mem_chip mem_test_api) 10 (replicate 16 None)"

lemma static_bridge_heap:
  "heap static_bridge ActionLight1 = Some (make_DeviceOnOff mem_chip ''Action Light 1'' ''Room 1'')"
  "heap static_bridge Light1 = Some (make_DeviceOnOff mem_chip ''Light 1'' ''Office'')"
  "heap static_bridge Light2 = Some (make_DeviceOnOff mem_chip ''Light 2'' ''Office'')"
  by (simp_all add: static_bridge_def empty_bridge_def static_objects_def static_lights_def static_sensors_def
      static_action_lights_def static_composed_sensors_def Light1_def Light2_def TempSensor1_def TempSensor2_def
      ComposedTempSensor1_def ComposedTempSensor2_def ActionLight1_def ActionLight2_def ActionLight3_def ActionLight4_def)

theorem room_action_switches_witness:
  "\<exists>b' evs d. runOnOffRoomAction mem_chip mem_test_api static_room1 True 0x1001 5 True static_bridge = (b', evs) \<and>
     heap b' ActionLight1 = Some d \<and> view_on (dview mem_chip d) \<and>
     evs = [(0x1001, 5, kActive), (0x1001, 5, kInactive)]"
proof -
  obtain b' evs where r: "runOnOffRoomAction mem_chip mem_test_api static_room1 True 0x1001 5 True static_bridge = (b', evs)"
    by (rule prod.exhaust)
  have l: "base_GetLocation mem_test_api (dv_base (make_DeviceOnOff mem_chip ''Action Light 1'' ''Room 1'')) =
      room_name static_room1"
    by (simp add: mem_test_api_def make_DeviceOnOff_def mem_chip_def mem_device_api_def static_room1_def)
  have a: "ActionLight1 \<in> action_lights" by (simp add: action_lights_def)
  from room_action_switches [OF mem_chip_parts(1,2) mem_test_documented r] show ?thesis
    using static_bridge_heap(1) l a r by force
qed

end
