(* ===== verification/Application.thy ===== *)
theory Application
  imports Test_Console
begin

text \<open>
  The rest of the process of \<^verbatim>\<open>matter-bridge-app/main.cpp\<close>: the end of \<open>ApplicationInit\<close>, the
  function \<open>main\<close>, and the commands that the named pipe delivers as JSON texts. The JSON library
  and the platform services are parameters.
\<close>

section \<open>Pipe commands\<close>

text \<open>What the application calls of the JSON library.\<close>

record 'j json_api =
  json_parse :: "string \<Rightarrow> 'j option"
  json_empty :: "'j \<Rightarrow> bool"
  json_isObject :: "'j \<Rightarrow> bool"
  json_isMember :: "'j \<Rightarrow> string \<Rightarrow> bool"
  json_get :: "'j \<Rightarrow> string \<Rightarrow> 'j"
  json_isString :: "'j \<Rightarrow> bool"
  json_asString :: "'j \<Rightarrow> string"

text \<open>A handler is the parsed value it was made of; \<^term>\<open>None\<close> is the null pointer.\<close>

definition FromJSON :: "'j json_api \<Rightarrow> string \<Rightarrow> 'j option" where
  "FromJSON J json =
     (case json_parse J json of
        None \<Rightarrow> None
      | Some val \<Rightarrow>
          if json_empty J val \<or> \<not> json_isObject J val then None
          else if \<not> json_isMember J val ''Name'' \<or> \<not> json_isString J (json_get J val ''Name'') then None
          else Some val)"

definition kSimulateConfigurationVersionChange :: string where
  "kSimulateConfigurationVersionChange = ''SimulateConfigurationVersionChange''"

text \<open>\<open>HandleCommand\<close> on the Matter thread; \<^term>\<open>None\<close> when \<open>VerifyOrDie\<close> ends the process.\<close>

definition HandleCommand ::
    "('d, 'e) chip \<Rightarrow> 'd test_api \<Rightarrow> 'j json_api \<Rightarrow> 'j \<Rightarrow> ('d, 'e) bridge \<Rightarrow> ('d, 'e) bridge option" where
  "HandleCommand K R J self b =
     (let name = json_asString J (json_get J self ''Name'')
      in if json_empty J self then Some b
         else if name = kSimulateConfigurationVersionChange
         then Some (call_object K Light1 (dev_bump_version K R) b)
         else None)"

text \<open>
  A received text becomes scheduled work unless no handler can be made of it. The handlers
  that wait are kept apart from the other work of the Matter thread.
\<close>

definition OnEventCommandReceived ::
    "('d, 'e) chip \<Rightarrow> 'j json_api \<Rightarrow> string \<Rightarrow> 'j list \<Rightarrow> 'j list" where
  "OnEventCommandReceived K J json waiting =
     (case FromJSON J json of
        None \<Rightarrow> waiting
      | Some handler \<Rightarrow>
          if work_queue_accepts (ember_api K) (length waiting) then waiting @ [handler] else waiting)"

fun run_handlers ::
    "('d, 'e) chip \<Rightarrow> 'd test_api \<Rightarrow> 'j json_api \<Rightarrow> 'j list \<Rightarrow> ('d, 'e) bridge \<Rightarrow> ('d, 'e) bridge option" where
  "run_handlers K R J [] b = Some b"
| "run_handlers K R J (h # hs) b =
     (case HandleCommand K R J h b of None \<Rightarrow> None | Some b \<Rightarrow> run_handlers K R J hs b)"

section \<open>The end of startup and the main function\<close>

record 'p platform =
  app_pipe :: "'p \<Rightarrow> string"
  pipe_Start :: "string \<Rightarrow> 'p \<Rightarrow> bool \<times> 'p"
  pipe_Stop :: "'p \<Rightarrow> bool \<times> 'p"
  register_power_access :: "'p \<Rightarrow> 'p"
  register_identify :: "'p \<Rightarrow> bool \<times> 'p"
  ChipLinuxAppInit :: "string list \<Rightarrow> 'p \<Rightarrow> int \<times> 'p"

record ('d, 'e, 'g, 'p) app =
  app_bridge :: "('d, 'e) bridge"
  app_adapter :: "('g, state_callback) adapter"
  gRooms :: "nat list"
  gActions :: "nat list"
  app_platform :: 'p

text \<open>The pipe is optional: a failure to start it is only logged.\<close>

definition start_pipe :: "'p platform \<Rightarrow> 'p \<Rightarrow> 'p" where
  "start_pipe F p =
     (let path = app_pipe F p
      in if path \<noteq> ''''
         then let (started, p) = pipe_Start F path p
              in if \<not> started then snd (pipe_Stop F p) else p
         else p)"

datatype ('d, 'e, 'g, 'p) startup_result = Diverges | Dies | Started "('d, 'e, 'g, 'p) app"

definition application_init ::
    "('d, 'e) chip \<Rightarrow> 'g engine \<Rightarrow> 'p platform \<Rightarrow> ('d, 'e, 'g, 'p) app \<Rightarrow> ('d, 'e, 'g, 'p) startup_result" where
  "application_init K E F s =
     (case ApplicationInit K E (app_bridge s) (app_adapter s) of
        None \<Rightarrow> Diverges
      | Some (b, a) \<Rightarrow>
          (let p = register_power_access F (start_pipe F (app_platform s));
               (registered, p) = register_identify F p
           in if registered
              then Started (s\<lparr>app_bridge := b, app_adapter := a, gRooms := [], gActions := [], app_platform := p\<rparr>)
              else Dies))"

text \<open>\<open>main\<close>; the main loop of the SDK is what runs \<open>ApplicationInit\<close> and the event loop.\<close>

definition app_main ::
    "'p platform \<Rightarrow> string list \<Rightarrow> (('d, 'e, 'g, 'p) app \<Rightarrow> ('d, 'e, 'g, 'p) app) \<Rightarrow>
     ('d, 'e, 'g, 'p) app \<Rightarrow> int \<times> ('d, 'e, 'g, 'p) app" where
  "app_main F argv main_loop s =
     (let (_, p) = pipe_Stop F (app_platform s);
          (rc, p) = ChipLinuxAppInit F argv p;
          s = s\<lparr>app_platform := p\<rparr>
      in if rc \<noteq> 0 then (- 1, s) else (0, main_loop s))"

section \<open>What the pipe commands do\<close>

text \<open>The names of the commands a sequence of texts asks for; other texts are ignored.\<close>

definition requested :: "'j json_api \<Rightarrow> string list \<Rightarrow> string list" where
  "requested J texts = map (\<lambda>v. json_asString J (json_get J v ''Name'')) (List.map_filter (FromJSON J) texts)"

lemma FromJSON_not_empty: "FromJSON J json = Some v \<Longrightarrow> \<not> json_empty J v"
  by (auto simp: FromJSON_def split: option.splits if_splits)

lemma received:
  assumes "queue_open K"
  shows "fold (OnEventCommandReceived K J) texts waiting = waiting @ List.map_filter (FromJSON J) texts"
  using assms unfolding queue_open_def
  by (induction texts arbitrary: waiting)
    (simp_all add: OnEventCommandReceived_def map_filter_simps split: option.splits)

lemma bump_version_law:
  assumes "test_documented (dev_api K) R"
  shows "same_shell d (fst (dev_bump_version K R d)) \<and> snd (dev_bump_version K R d) = [] \<and>
    dview K (fst (dev_bump_version K R d)) =
      (dview K d)\<lparr>view_config_version := view_config_version (dview K d) + 1\<rparr>"
proof -
  have "\<forall>v d. look (dev_api K) (base_SetConfigurationVersion R v d) = (look (dev_api K) d)\<lparr>view_config_version := v\<rparr>"
    using assms unfolding test_documented_def by blast
  then show ?thesis by (simp add: dev_bump_version_def dview_def same_shell_simps look_simps)
qed

lemma HandleCommand_cases:
  assumes "\<not> json_empty J v" and "heap b Light1 = Some d"
  shows "HandleCommand K R J v b =
    (if json_asString J (json_get J v ''Name'') = kSimulateConfigurationVersionChange
     then Some (b\<lparr>heap := (heap b)(Light1 \<mapsto> fst (dev_bump_version K R d))\<rparr>) else None)"
  using assms by (simp add: HandleCommand_def Let_def call_object_def put_device_def dev_bump_version_def)

text \<open>Only the object of \<open>Light1\<close> changes, in nothing but its configuration version.\<close>

definition version_moved :: "('d, 'e) chip \<Rightarrow> nat \<Rightarrow> ('d, 'e) bridge \<Rightarrow> ('d, 'e) bridge \<Rightarrow> bool" where
  "version_moved K n b b' \<longleftrightarrow> (\<exists>d d'. heap b Light1 = Some d \<and> b' = b\<lparr>heap := (heap b)(Light1 \<mapsto> d')\<rparr> \<and>
     same_shell d d' \<and>
     dview K d' = (dview K d)\<lparr>view_config_version := view_config_version (dview K d) + of_nat n\<rparr>)"

lemma run_handlers_law:
  assumes t: "test_documented (dev_api K) R"
  shows "\<forall>v\<in>set hs. \<not> json_empty J v \<Longrightarrow> heap b Light1 = Some d \<Longrightarrow>
    (if \<forall>v\<in>set hs. json_asString J (json_get J v ''Name'') = kSimulateConfigurationVersionChange
     then \<exists>b'. run_handlers K R J hs b = Some b' \<and> version_moved K (length hs) b b'
     else run_handlers K R J hs b = None)"
proof (induction hs arbitrary: b d)
  case Nil
  have "version_moved K 0 b b"
    unfolding version_moved_def using Nil.prems(2)
    by (intro exI [of _ d]) (simp add: same_shell_simps fun_upd_idem)
  then show ?case by simp
next
  case (Cons v hs)
  let ?d = "fst (dev_bump_version K R d)" and ?n = "json_asString J (json_get J v ''Name'')"
  let ?b = "b\<lparr>heap := (heap b)(Light1 \<mapsto> ?d)\<rparr>"
  note c = HandleCommand_cases [of J v b d K R, OF _ Cons.prems(2)]
  show ?case
  proof (cases "?n = kSimulateConfigurationVersionChange")
    case False
    then show ?thesis using c Cons.prems(1) by auto
  next
    case True
    have h: "HandleCommand K R J v b = Some ?b" using True c Cons.prems(1) by simp
    have l: "heap ?b Light1 = Some ?d" by simp
    have m: "version_moved K (Suc (length hs)) b b'" if moved: "version_moved K (length hs) ?b b'" for b'
    proof -
      obtain d' where "b' = ?b\<lparr>heap := (heap ?b)(Light1 \<mapsto> d')\<rparr>" "same_shell ?d d'"
        "dview K d' = (dview K ?d)\<lparr>view_config_version := view_config_version (dview K ?d) + of_nat (length hs)\<rparr>"
        using moved unfolding version_moved_def l by blast
      then show ?thesis
        unfolding version_moved_def using bump_version_law [OF t, of d] Cons.prems(2)
        by (intro exI [of _ d] exI [of _ d']) (auto intro: same_shell_trans simp: add_ac)
    qed
    show ?thesis using Cons.IH [of ?b, OF _ l] Cons.prems(1) True h m by auto
  qed
qed

text \<open>
  C38. Texts from the named pipe that are no JSON objects with a string \<open>Name\<close> are ignored.
  The commands that remain are run in order: as long as all of them are the supported
  command, the process survives, \<open>Light1\<close> counts one configuration version per command, modulo
  2 to the 32, and nothing else changes; a single command of any other name ends the process.
\<close>

theorem pipe_commands_effect:
  assumes "queue_open K" and "test_documented (dev_api K) R" and "heap b Light1 = Some d"
  shows "if \<forall>name\<in>set (requested J texts). name = kSimulateConfigurationVersionChange
    then \<exists>d'. run_handlers K R J (fold (OnEventCommandReceived K J) texts []) b =
        Some (b\<lparr>heap := (heap b)(Light1 \<mapsto> d')\<rparr>) \<and> same_shell d d' \<and>
      dview K d' = (dview K d)\<lparr>view_config_version :=
        view_config_version (dview K d) + of_nat (length (requested J texts))\<rparr>
    else run_handlers K R J (fold (OnEventCommandReceived K J) texts []) b = None"
proof -
  let ?hs = "List.map_filter (FromJSON J) texts"
  have "\<forall>v\<in>set ?hs. \<not> json_empty J v" by (auto simp: map_filter_def dest: FromJSON_not_empty)
  from run_handlers_law [OF assms(2) this assms(3)] show ?thesis
    unfolding received [OF assms(1)] version_moved_def
    using assms(3) by (auto simp: requested_def split: if_splits)
qed

text \<open>A JSON library for the witness: a text names a command when it starts with a brace.\<close>

datatype mem_json = MObject string | MString string

definition mem_json_api :: "mem_json json_api" where
  "mem_json_api =
     \<lparr>json_parse = (\<lambda>s. if s \<noteq> '''' \<and> hd s = CHR ''{'' then Some (MObject (tl s)) else None),
      json_empty = (\<lambda>v. v = MString ''''),
      json_isObject = (\<lambda>v. case v of MObject n \<Rightarrow> True | MString n \<Rightarrow> False),
      json_isMember = (\<lambda>v k. k = ''Name''),
      json_get = (\<lambda>v k. case v of MObject n \<Rightarrow> MString n | MString n \<Rightarrow> v),
      json_isString = (\<lambda>v. case v of MObject n \<Rightarrow> False | MString n \<Rightarrow> True),
      json_asString = (\<lambda>v. case v of MObject n \<Rightarrow> '''' | MString n \<Rightarrow> n)\<rparr>"

lemma mem_requested:
  "requested mem_json_api [''{SimulateConfigurationVersionChange'', ''junk'', ''{SimulateConfigurationVersionChange''] =
     [kSimulateConfigurationVersionChange, kSimulateConfigurationVersionChange]"
  "requested mem_json_api [''{Reboot''] = [''Reboot'']"
  by (simp_all add: requested_def map_filter_simps FromJSON_def mem_json_api_def
      kSimulateConfigurationVersionChange_def)

theorem pipe_commands_effect_witness:
  "(\<exists>b' d'. run_handlers mem_chip mem_test_api mem_json_api
       (fold (OnEventCommandReceived mem_chip mem_json_api)
         [''{SimulateConfigurationVersionChange'', ''junk'', ''{SimulateConfigurationVersionChange''] []) static_bridge = Some b' \<and>
     heap b' Light1 = Some d' \<and> view_config_version (dview mem_chip d') = 3) \<and>
   run_handlers mem_chip mem_test_api mem_json_api
       (fold (OnEventCommandReceived mem_chip mem_json_api) [''{Reboot''] []) static_bridge = None"
proof -
  let ?d = "make_DeviceOnOff mem_chip ''Light 1'' ''Office''"
  note eff = pipe_commands_effect [OF mem_queue_open mem_test_documented static_bridge_heap(2)]
  have v: "view_config_version (dview mem_chip ?d) = 1"
    by (simp add: dview_def look_def make_DeviceOnOff_def mem_chip_def mem_device_api_def)
  obtain d' where "run_handlers mem_chip mem_test_api mem_json_api
       (fold (OnEventCommandReceived mem_chip mem_json_api)
         [''{SimulateConfigurationVersionChange'', ''junk'', ''{SimulateConfigurationVersionChange''] []) static_bridge =
      Some (static_bridge\<lparr>heap := (heap static_bridge)(Light1 \<mapsto> d')\<rparr>)"
    "dview mem_chip d' = (dview mem_chip ?d)\<lparr>view_config_version := 1 + of_nat 2\<rparr>"
    using eff [of mem_json_api
        "[''{SimulateConfigurationVersionChange'', ''junk'', ''{SimulateConfigurationVersionChange'']"]
    unfolding mem_requested v by auto
  moreover have "run_handlers mem_chip mem_test_api mem_json_api
       (fold (OnEventCommandReceived mem_chip mem_json_api) [''{Reboot''] []) static_bridge = None"
    using eff [of mem_json_api "[''{Reboot'']"]
    by (simp add: mem_requested kSimulateConfigurationVersionChange_def)
  ultimately show ?thesis by auto
qed

section \<open>Startup as a whole\<close>

lemma application_init_started:
  "application_init K E F s = Started s' \<Longrightarrow>
   ApplicationInit K E (app_bridge s) (app_adapter s) = Some (app_bridge s', app_adapter s')"
  by (auto simp: application_init_def Let_def split: option.splits prod.splits if_splits)

lemma application_init_outcome:
  assumes "chip_documented K V" and "fresh_boot K V (app_bridge s)" and "engine_protocol (app_adapter s)"
  shows "application_init K E F s \<noteq> Diverges \<and>
    (application_init K E F s = Dies \<longleftrightarrow>
       \<not> fst (register_identify F (register_power_access F (start_pipe F (app_platform s)))))"
proof -
  obtain ds a1 where d: "Discover E (app_adapter s) = (ds, a1)" by (rule prod.exhaust)
  from startup_law [OF assms d] obtain b a where
    "ApplicationInit K E (app_bridge s) (app_adapter s) = Some (b, a)" by blast
  then show ?thesis
    by (auto simp: application_init_def Let_def split: prod.splits if_splits)
qed

text \<open>
  C18. From a fresh process the whole of \<open>ApplicationInit\<close> always ends. The pipe cannot stop
  it: whether it is configured, starts or fails to start, the bridge is published and
  connected to the engine. The process dies only when the Identify cluster cannot be
  registered; otherwise the invariant of the bridge and the protocol of the engine hold, and
  no command has been sent.
\<close>

theorem application_starts:
  assumes "chip_documented K V" and "fresh_boot K V (app_bridge s)" and "engine_protocol (app_adapter s)"
  shows "application_init K E F s \<noteq> Diverges \<and>
    (application_init K E F s = Dies \<longleftrightarrow>
       \<not> fst (register_identify F (register_power_access F (start_pipe F (app_platform s))))) \<and>
    (\<forall>s'. application_init K E F s = Started s' \<longrightarrow>
       ApplicationInit K E (app_bridge s) (app_adapter s) = Some (app_bridge s', app_adapter s') \<and>
       bridge_ok K V (app_bridge s') \<and> engine_protocol (app_adapter s') \<and>
       length (gBridgedWemoLights (app_bridge s')) \<le> 16 \<and>
       actions (calls (app_adapter s')) = actions (calls (app_adapter s)))"
proof -
  obtain ds a1 where d: "Discover E (app_adapter s) = (ds, a1)" by (rule prod.exhaust)
  show ?thesis
    using startup_law [OF assms d] application_init_outcome [OF assms, of E F]
      application_init_started [of K E F s]
    by fastforce
qed

definition mem_platform :: "bool platform" where
  "mem_platform =
     \<lparr>app_pipe = (\<lambda>p. ''/tmp/pipe''), pipe_Start = (\<lambda>path p. (False, p)), pipe_Stop = (\<lambda>p. (True, False)),
      register_power_access = (\<lambda>p. p), register_identify = (\<lambda>p. (True, p)), ChipLinuxAppInit = (\<lambda>argv p. (0, p))\<rparr>"

theorem application_starts_witness:
  "\<exists>s'. application_init mem_chip (list_engine [lamp_info]) mem_platform
     \<lparr>app_bridge = lamp_boot, app_adapter = new_adapter ''127.0.0.1:49153'' (), gRooms = [3], gActions = [],
       app_platform = True\<rparr> = Started s' \<and> bridge_ok mem_chip mem_slot (app_bridge s')"
proof -
  let ?s = "\<lparr>app_bridge = lamp_boot, app_adapter = new_adapter ''127.0.0.1:49153'' () :: (unit, state_callback) adapter,
    gRooms = [3], gActions = [], app_platform = True\<rparr>"
  have f: "fresh_boot mem_chip mem_slot (app_bridge ?s)" "engine_protocol (app_adapter ?s)"
    using lamp_boot_fresh new_adapter_protocol by simp_all
  have "fst (register_identify mem_platform p)" for p by (simp add: mem_platform_def)
  with application_starts [OF mem_chip_documented f, of "list_engine [lamp_info]" mem_platform]
  show ?thesis by (cases "application_init mem_chip (list_engine [lamp_info]) mem_platform ?s") auto
qed

end
