(* ===== verification/Command_Threads.thy ===== *)
theory Command_Threads
  imports Adapter_Contract "HOL-Library.Multiset"
begin

text \<open>
  The threads that \<^verbatim>\<open>matter-bridge-app/main.cpp\<close> detaches for its commands, at the granularity of
  the adapter's locks. \<open>SetOnOff\<close> and \<open>SetLevelPercent\<close> of
  \<^verbatim>\<open>src/adapters/wemo/wemo_adapter_openwemo.cpp\<close> are not one atomic action: they take
  \<open>init_lock\<close>, release it, look into the cache under \<open>mCacheMutex\<close>, and after a miss call the
  engine twice without any lock before they take \<open>mCacheMutex\<close> again. A thread is its job and
  the place it has reached; a pool of threads takes steps in any order, while the engine
  moves by itself and new threads are started.
\<close>

section \<open>One thread\<close>

text \<open>
  The places at which another thread may come in between: before the initialisation, before
  the first critical section, before each of the two engine calls that follow a miss, before
  the second critical section (with the local \<open>list\<close>), and after the return.
\<close>

datatype phase =
    Starting | Looking | Refreshing | Listing | Refilling we_device_list | Finished bool

fun is_finished :: "phase \<Rightarrow> bool" where
  "is_finished (Finished ok) = True"
| "is_finished p = False"

fun job_udn :: "wemo_job \<Rightarrow> string" where
  "job_udn (JobOnOff udn on) = udn"
| "job_udn (JobLevel udn percent) = udn"

fun job_state :: "wemo_job \<Rightarrow> int" where
  "job_state (JobOnOff udn on) = (if on then 1 else 0)"
| "job_state (JobLevel udn percent) =
     (let clamped = clamp_int (uint percent) 0 100 in if clamped > 0 then 1 else 0)"

fun job_level :: "wemo_job \<Rightarrow> int" where
  "job_level (JobOnOff udn on) = - 1"
| "job_level (JobLevel udn percent) = clamp_int (uint percent) 0 100"

text \<open>The second half of a critical section: the UDN is cached, and the state is sent.\<close>

definition send_cached ::
    "'e engine \<Rightarrow> wemo_job \<Rightarrow> int \<Rightarrow> ('e, 'c) adapter \<Rightarrow> phase \<times> ('e, 'c) adapter" where
  "send_cached E j wemo_id a =
     (let (ok, a) = SendState E wemo_id (job_state j) (job_level j) a in (Finished ok, a))"

fun thread_step ::
    "'e engine \<Rightarrow> wemo_job \<Rightarrow> phase \<Rightarrow> ('e, 'c) adapter \<Rightarrow> phase \<times> ('e, 'c) adapter" where
  "thread_step E j Starting a =
     (if \<not> HAVE_OPENWEMO_ENGINE E then (Finished False, a)
      else let (ok, a) = EnsureEngineInitialized E a
           in (if ok then Looking else Finished False, a))"
| "thread_step E j Looking a =
     (case mUdnToWemoId a (job_udn j) of
        Some wemo_id \<Rightarrow> send_cached E j wemo_id a
      | None \<Rightarrow> (Refreshing, a))"
| "thread_step E j Refreshing a = (Listing, call_discover E a)"
| "thread_step E j Listing a =
     (let (rc, list, a) = call_list_devices E a
      in (if rc = WE_STATUS_OK E then Refilling list else Finished False, a))"
| "thread_step E j (Refilling list) a =
     (let a = a\<lparr>mUdnToWemoId := refill_cache (listed E list) (mUdnToWemoId a)\<rparr>
      in case mUdnToWemoId a (job_udn j) of
           Some wemo_id \<Rightarrow> send_cached E j wemo_id a
         | None \<Rightarrow> (Finished False, a))"
| "thread_step E j (Finished ok) a = (Finished ok, a)"

text \<open>A thread that nobody disturbs.\<close>

fun thread_run ::
    "'e engine \<Rightarrow> wemo_job \<Rightarrow> nat \<Rightarrow> phase \<Rightarrow> ('e, 'c) adapter \<Rightarrow> phase \<times> ('e, 'c) adapter" where
  "thread_run E j 0 p a = (p, a)"
| "thread_run E j (Suc n) p a =
     (let (p, a) = thread_step E j p a in thread_run E j n p a)"

text \<open>The whole call, with its result.\<close>

fun call_job :: "'e engine \<Rightarrow> wemo_job \<Rightarrow> ('e, 'c) adapter \<Rightarrow> bool \<times> ('e, 'c) adapter" where
  "call_job E (JobOnOff udn on) a = SetOnOff E udn on a"
| "call_job E (JobLevel udn percent) a = SetLevelPercent E udn percent a"

section \<open>The pool\<close>

type_synonym ('e, 'c) pool = "('e, 'c) adapter \<times> (wemo_job \<times> phase) list"

datatype 'e pool_event = Spawn wemo_job | Run nat | EngineMoves 'e

inductive pool_step ::
    "'e engine \<Rightarrow> ('e, 'c) pool \<Rightarrow> 'e pool_event \<Rightarrow> ('e, 'c) pool \<Rightarrow> bool" for E where
  spawn: "pool_step E (a, ts) (Spawn j) (a, ts @ [(j, Starting)])"
| run: "n < length ts \<Longrightarrow> ts ! n = (j, p) \<Longrightarrow> \<not> is_finished p \<Longrightarrow>
        thread_step E j p a = (p', a') \<Longrightarrow>
        pool_step E (a, ts) (Run n) (a', ts[n := (j, p')])"
| engine: "pool_step E (a, ts) (EngineMoves e) (a\<lparr>engine_state := e\<rparr>, ts)"

inductive pool_run ::
    "'e engine \<Rightarrow> ('e, 'c) pool \<Rightarrow> 'e pool_event list \<Rightarrow> ('e, 'c) pool \<Rightarrow> bool" for E where
  stop: "pool_run E s [] s"
| more_steps: "pool_run E s es s' \<Longrightarrow> pool_step E s' ev s'' \<Longrightarrow> pool_run E s (es @ [ev]) s''"

inductive_cases pool_run_stepE: "pool_step E (a, ts) ev s"

text \<open>The jobs of the threads that have returned, and of those that reported success.\<close>

definition ended :: "(wemo_job \<times> phase) list \<Rightarrow> wemo_job multiset" where
  "ended ts = image_mset fst (filter_mset (\<lambda>(j, p). is_finished p) (mset ts))"

definition succeeded :: "(wemo_job \<times> phase) list \<Rightarrow> wemo_job multiset" where
  "succeeded ts = image_mset fst (filter_mset (\<lambda>(j, p). p = Finished True) (mset ts))"

text \<open>
  What the engine says about its devices: every entry of every list that it returns, in
  whatever state it is, relates a UDN to an id by \<open>R\<close>. For engine ids that never change,
  \<open>R\<close> is a function.
\<close>

definition listed_in :: "'e engine \<Rightarrow> (string \<Rightarrow> int \<Rightarrow> bool) \<Rightarrow> we_device_list \<Rightarrow> bool" where
  "listed_in E R l \<longleftrightarrow>
     (\<forall>info\<in>set (listed E l). wi_udn info \<noteq> '''' \<longrightarrow> R (wi_udn info) (wi_wemo_id info))"

definition lists_only :: "'e engine \<Rightarrow> (string \<Rightarrow> int \<Rightarrow> bool) \<Rightarrow> bool" where
  "lists_only E R \<longleftrightarrow>
     (\<forall>e rc l e'. we_list_devices E e = (rc, l, e') \<longrightarrow> rc = WE_STATUS_OK E \<longrightarrow> listed_in E R l)"

definition caches_only :: "(string \<rightharpoonup> int) \<Rightarrow> (string \<Rightarrow> int \<Rightarrow> bool) \<Rightarrow> bool" where
  "caches_only cache R \<longleftrightarrow> (\<forall>u i. cache u = Some i \<longrightarrow> R u i)"

fun phase_ok :: "'e engine \<Rightarrow> (string \<Rightarrow> int \<Rightarrow> bool) \<Rightarrow> phase \<Rightarrow> bool" where
  "phase_ok E R (Refilling l) = listed_in E R l"
| "phase_ok E R p = True"

text \<open>The steps a thread still has to take.\<close>

fun phase_rank :: "phase \<Rightarrow> nat" where
  "phase_rank Starting = 5"
| "phase_rank Looking = 4"
| "phase_rank Refreshing = 3"
| "phase_rank Listing = 2"
| "phase_rank (Refilling l) = 1"
| "phase_rank (Finished ok) = 0"

definition pool_rank :: "(wemo_job \<times> phase) list \<Rightarrow> nat" where
  "pool_rank ts = sum_list (map (phase_rank \<circ> snd) ts)"

definition is_run :: "'e pool_event \<Rightarrow> bool" where
  "is_run ev = (case ev of Run n \<Rightarrow> True | _ \<Rightarrow> False)"

section \<open>Lemmas on one thread\<close>

lemma job_command_parts:
  "job_command j = \<lparr>ws_is_online = 1, ws_state = job_state j, ws_level = job_level j\<rparr>"
  by (cases j) (auto simp: onoff_command_def level_command_def clamp_int_def)

lemma call_job_eq:
  "call_job E j a =
     (if \<not> HAVE_OPENWEMO_ENGINE E then (False, a)
      else let (ok, a) = EnsureEngineInitialized E a
           in if \<not> ok then (False, a) else send_to_udn E (job_udn j) (job_state j) (job_level j) a)"
  by (cases "EnsureEngineInitialized E a"; cases j)
    (simp_all add: SetOnOff_def SetLevelPercent_def Let_def)

lemma run_job_call:
  "run_job (\<lambda>a u on. SetOnOff E u on a) (\<lambda>a u p. SetLevelPercent E u p a) j a = snd (call_job E j a)"
  by (cases j) simp_all

lemma send_cached_eq:
  "send_cached E j i a =
     (Finished (fst (SendState E i (job_state j) (job_level j) a)),
      snd (SendState E i (job_state j) (job_level j) a))"
  by (simp add: send_cached_def split: prod.splits)

lemma thread_run_finished [simp]: "thread_run E j n (Finished ok) a = (Finished ok, a)"
  by (induction n) simp_all

lemma thread_run_Looking:
  "thread_run E j 4 Looking a =
     (let (ok, a') = send_to_udn E (job_udn j) (job_state j) (job_level j) a in (Finished ok, a'))"
proof -
  have "thread_run E j (Suc (Suc (Suc (Suc 0)))) Looking a =
     (let (ok, a') = send_to_udn E (job_udn j) (job_state j) (job_level j) a in (Finished ok, a'))"
    by (simp add: send_to_udn_def send_cached_eq Let_def split: option.splits prod.splits)
  then show ?thesis by (simp add: eval_nat_numeral)
qed

lemma refill_caches_only:
  "caches_only cache R \<Longrightarrow> listed_in E R l \<Longrightarrow> caches_only (refill_cache (listed E l) cache) R"
proof -
  assume c: "caches_only cache R" and l: "listed_in E R l"
  have "R u i" if "cache_of (listed E l) u = Some i" for u i
    using cache_of_listed [OF that] cache_of_nonempty [OF that] l by (auto simp: listed_in_def)
  then show "caches_only (refill_cache (listed E l) cache) R"
    using c by (auto simp: caches_only_def refill_cache_eq map_add_Some_iff)
qed

lemma call_list_listed:
  "call_list_devices E a = (rc, l, a') \<Longrightarrow> rc = WE_STATUS_OK E \<Longrightarrow> lists_only E R \<Longrightarrow> listed_in E R l"
  by (auto simp: call_list_devices_def lists_only_def split: prod.splits)

text \<open>Every step of a thread: it sends its own command and ends, or sends nothing.\<close>

lemma thread_step_effect:
  assumes step: "thread_step E j p a = (p', a')" and "\<not> is_finished p"
    and inv: "engine_protocol a" "p \<noteq> Starting \<longrightarrow> initialized a"
    and R: "lists_only E R" "caches_only (mUdnToWemoId a) R" "phase_ok E R p"
  shows "engine_protocol a' \<and> caches_only (mUdnToWemoId a') R \<and> phase_ok E R p' \<and> (initialized a \<longrightarrow> initialized a') \<and>
    (\<not> is_finished p' \<longrightarrow> initialized a') \<and>
    dom (mUdnToWemoId a) \<subseteq> dom (mUdnToWemoId a') \<and> p' \<noteq> Starting \<and>
    phase_rank p' < phase_rank p \<and>
    (p' \<noteq> Finished True \<and> actions (calls a') = actions (calls a) \<or>
     is_finished p' \<and> (\<exists>i. mUdnToWemoId a' (job_udn j) = Some i \<and>
        actions (calls a') = actions (calls a) @ [(i, job_command j)]))"
proof -
  have sent: "engine_protocol c' \<and> initialized c' \<and> mUdnToWemoId c' = mUdnToWemoId c \<and>
      is_finished q \<and> phase_rank q = 0 \<and> phase_ok E R q \<and> q \<noteq> Starting \<and>
      actions (calls c') = actions (calls c) @ [(i, job_command j)]"
    if "send_cached E j i c = (q, c')" "engine_protocol c" "initialized c" for i c c' q
  proof -
    from that(1) obtain ok where s: "SendState E i (job_state j) (job_level j) c = (ok, c')"
      and q: "q = Finished ok"
      by (auto simp: send_cached_def split: prod.splits)
    note f = SendState_fields [OF s, folded job_command_parts]
    have "engine_protocol c'"
      by (rule protocol_work [OF that(2,3), of "[CSetAction i (job_command j)]"]) (use f that in auto)
    then show ?thesis using f q that by simp
  qed
  show ?thesis
  proof (cases p)
    case Starting
    obtain ok a1 where e: "EnsureEngineInitialized E a = (ok, a1)" by fastforce
    show ?thesis
      using step e ensure_keeps [OF e] protocol_ensure [OF inv(1) e] inv(1) R Starting
      by (auto split: if_splits)
  next
    case Looking
    then show ?thesis
      using step inv R sent [of _ a p' a'] by (cases "mUdnToWemoId a (job_udn j)") auto
  next
    case Refreshing
    have "engine_protocol (call_discover E a)"
      by (rule protocol_work [OF inv(1), of "[CDiscover 0]"]) (use inv Refreshing in auto)
    then show ?thesis using step inv R Refreshing by auto
  next
    case Listing
    obtain rc l a1 where l: "call_list_devices E a = (rc, l, a1)" by (metis prod_cases3)
    note f = call_list_fields [OF l]
    have "engine_protocol a1"
      by (rule protocol_work [OF inv(1), of "[CListDevices]"]) (use inv Listing f in auto)
    then show ?thesis using step inv Listing l f R call_list_listed [OF l _ R(1)]
      by (auto split: if_splits)
  next
    case (Refilling l)
    let ?a = "a\<lparr>mUdnToWemoId := refill_cache (listed E l) (mUdnToWemoId a)\<rparr>"
    have "engine_protocol ?a" using inv(1) by (simp add: engine_protocol_def)
    moreover have "initialized ?a" using inv(2) Refilling by simp
    moreover have "dom (mUdnToWemoId a) \<subseteq> dom (mUdnToWemoId ?a)" by (auto simp: refill_cache_eq)
    moreover have "caches_only (mUdnToWemoId ?a) R"
      using R Refilling by (simp add: refill_caches_only)
    ultimately show ?thesis
      using step Refilling sent [of _ ?a p' a']
      by (cases "mUdnToWemoId ?a (job_udn j)") auto
  next
    case (Finished ok)
    then show ?thesis using assms(2) by simp
  qed
qed

section \<open>Lemmas on the pool\<close>

lemma filter_update:
  assumes "n < length ts" and "ts ! n = (j, p)" and "\<not> P (j, p)"
  shows "filter_mset P (mset (ts[n := (j, p')])) =
    filter_mset P (mset ts) + (if P (j, p') then {#(j, p')#} else {#})"
proof -
  have "mset (ts[n := (j, p')]) = add_mset (j, p') (mset ts - {#(j, p)#})"
    using assms(1,2) by (simp add: mset_update)
  moreover have "filter_mset P (mset ts - {#(j, p)#}) = filter_mset P (mset ts)"
    using assms(3) by (simp add: filter_diff_mset)
  ultimately show ?thesis by simp
qed

lemma ended_simps [simp]:
  "ended [] = {#}" "ended (ts @ [(j, Starting)]) = ended ts"
  "succeeded [] = {#}" "succeeded (ts @ [(j, Starting)]) = succeeded ts"
  by (simp_all add: ended_def succeeded_def)

lemma ended_update:
  assumes "n < length ts" and "ts ! n = (j, p)" and "\<not> is_finished p"
  shows "ended (ts[n := (j, p')]) = ended ts + (if is_finished p' then {#j#} else {#})"
    and "succeeded (ts[n := (j, p')]) = succeeded ts + (if p' = Finished True then {#j#} else {#})"
proof -
  have "p \<noteq> Finished True" using assms(3) by auto
  then show "ended (ts[n := (j, p')]) = ended ts + (if is_finished p' then {#j#} else {#})"
    and "succeeded (ts[n := (j, p')]) = succeeded ts + (if p' = Finished True then {#j#} else {#})"
    using filter_update [OF assms(1,2), of "\<lambda>(j, p). is_finished p" p']
      filter_update [OF assms(1,2), of "\<lambda>(j, p). p = Finished True" p'] assms(3)
    by (auto simp: ended_def succeeded_def)
qed

lemma subset_add_mset: "A \<subseteq># B \<Longrightarrow> A \<subseteq># add_mset x B"
  using subset_mset.order_trans [of A B "add_mset x B"] by (simp add: subset_eq_diff_conv)

lemma pool_rank_update:
  assumes "n < length ts" and "ts ! n = (j, p)" and "phase_rank p' < phase_rank p"
  shows "pool_rank (ts[n := (j, p')]) < pool_rank ts"
proof -
  let ?f = "\<lambda>t. phase_rank (snd t)"
  have "sum_list (map ?f (ts[n := (j, p')])) + phase_rank p = sum_list (map ?f ts) + phase_rank p'"
    if "n < length ts" "ts ! n = (j, p)" for ts :: "(wemo_job \<times> phase) list" and n
    using that by (induction ts arbitrary: n) (auto simp: nth_Cons split: nat.splits)
  from this [OF assms(1,2)] show ?thesis using assms(3) by (simp add: pool_rank_def comp_def)
qed

text \<open>The invariant of a pool that started from \<open>a0\<close> without threads.\<close>

definition pool_inv ::
    "'e engine \<Rightarrow> (string \<Rightarrow> int \<Rightarrow> bool) \<Rightarrow> ('e, 'c) adapter \<Rightarrow> ('e, 'c) pool \<Rightarrow> bool" where
  "pool_inv E R a0 s = (case s of (a, ts) \<Rightarrow>
     engine_protocol a \<and> caches_only (mUdnToWemoId a) R \<and>
     dom (mUdnToWemoId a0) \<subseteq> dom (mUdnToWemoId a) \<and>
     (\<forall>(j, p)\<in>set ts. phase_ok E R p \<and> (p \<noteq> Starting \<and> \<not> is_finished p \<longrightarrow> initialized a)) \<and>
     (\<exists>sent. actions (calls a) = actions (calls a0) @ map (\<lambda>(j, i). (i, job_command j)) sent \<and>
        (\<forall>(j, i)\<in>set sent. R (job_udn j) i) \<and>
        succeeded ts \<subseteq># mset (map fst sent) \<and> mset (map fst sent) \<subseteq># ended ts))"

lemma pool_inv_start:
  "engine_protocol a \<Longrightarrow> caches_only (mUdnToWemoId a) R \<Longrightarrow> pool_inv E R a (a, [])"
  by (simp add: pool_inv_def)

lemma pool_inv_thread:
  assumes inv: "pool_inv E R a0 (a, ts)" and R: "lists_only E R"
    and n: "n < length ts" "ts ! n = (j, p)" "\<not> is_finished p"
    and step: "thread_step E j p a = (p', a')"
  shows "pool_inv E R a0 (a', ts[n := (j, p')])"
proof -
  from n have mem: "(j, p) \<in> set ts" by (metis nth_mem)
  have now: "p \<noteq> Starting \<longrightarrow> initialized a" "engine_protocol a" "phase_ok E R p"
      "caches_only (mUdnToWemoId a) R"
    using inv mem n(3) by (auto simp: pool_inv_def)
  have dom0: "dom (mUdnToWemoId a0) \<subseteq> dom (mUdnToWemoId a)" using inv by (simp add: pool_inv_def)
  note ef = thread_step_effect [OF step n(3) now(2,1) R now(4,3)]
  have others: "\<forall>(k, q)\<in>set (ts[n := (j, p')]).
      phase_ok E R q \<and> (q \<noteq> Starting \<and> \<not> is_finished q \<longrightarrow> initialized a')"
    using set_update_subset_insert [of ts n "(j, p')"] inv ef
    by (fastforce simp: pool_inv_def)
  from inv obtain sent where sent:
      "actions (calls a) = actions (calls a0) @ map (\<lambda>(j, i). (i, job_command j)) sent"
      "\<forall>(j, i)\<in>set sent. R (job_udn j) i"
      "succeeded ts \<subseteq># mset (map fst sent)" "mset (map fst sent) \<subseteq># ended ts"
    unfolding pool_inv_def prod.case by blast
  have "\<exists>sent. actions (calls a') = actions (calls a0) @ map (\<lambda>(j, i). (i, job_command j)) sent \<and>
      (\<forall>(j, i)\<in>set sent. R (job_udn j) i) \<and>
      succeeded (ts[n := (j, p')]) \<subseteq># mset (map fst sent) \<and>
      mset (map fst sent) \<subseteq># ended (ts[n := (j, p')])"
  proof (cases "actions (calls a') = actions (calls a)")
    case True
    then have "p' \<noteq> Finished True" using ef by auto
    then show ?thesis
      using True sent by (intro exI [of _ sent]) (auto simp: ended_update [OF n] intro: subset_add_mset)
  next
    case False
    with ef obtain i where "is_finished p'" "mUdnToWemoId a' (job_udn j) = Some i"
      "actions (calls a') = actions (calls a) @ [(i, job_command j)]" by blast
    moreover from this(2) have "R (job_udn j) i" using ef by (simp add: caches_only_def)
    ultimately show ?thesis
      using sent by (intro exI [of _ "sent @ [(j, i)]"])
        (auto simp: ended_update [OF n] intro: subset_add_mset)
  qed
  moreover have "dom (mUdnToWemoId a0) \<subseteq> dom (mUdnToWemoId a')" using dom0 ef by blast
  ultimately show ?thesis unfolding pool_inv_def prod.case using ef others by blast
qed

lemma pool_inv_step:
  "pool_step E s ev s' \<Longrightarrow> lists_only E R \<Longrightarrow> pool_inv E R a0 s \<Longrightarrow> pool_inv E R a0 s'"
proof (induction rule: pool_step.induct)
  case (spawn a ts j)
  then show ?case by (auto simp: pool_inv_def)
next
  case (run n ts j p a p' a')
  then show ?case by (intro pool_inv_thread)
next
  case (engine a ts e)
  then show ?case by (auto simp: pool_inv_def engine_protocol_def)
qed

lemma pool_inv_run:
  "pool_run E s es s' \<Longrightarrow> lists_only E R \<Longrightarrow> pool_inv E R a0 s \<Longrightarrow> pool_inv E R a0 s'"
  by (induction rule: pool_run.induct) (auto intro: pool_inv_step)

lemma thread_step_rank:
  "thread_step E j p a = (p', a') \<Longrightarrow> \<not> is_finished p \<Longrightarrow> phase_rank p' < phase_rank p"
  by (cases p) (auto simp: send_cached_eq Let_def split: option.splits prod.splits if_splits)

text \<open>The steps that the thread at a position still has, started or not.\<close>

definition steps_left :: "(wemo_job \<times> phase) list \<Rightarrow> nat \<Rightarrow> nat" where
  "steps_left ts n = (if n < length ts then phase_rank (snd (ts ! n)) else 5)"

lemma pool_step_left:
  "pool_step E s ev s' \<Longrightarrow> (if ev = Run n then 1 else 0) + steps_left (snd s') n \<le> steps_left (snd s) n"
proof (induction rule: pool_step.induct)
  case (run m ts j p a p' a')
  then show ?case using thread_step_rank [OF run(4,3)] by (auto simp: steps_left_def nth_list_update)
qed (auto simp: steps_left_def nth_append less_Suc_eq)

lemma pool_run_left: "pool_run E s es s' \<Longrightarrow> count_list es (Run n) + steps_left (snd s') n \<le> steps_left (snd s) n"
proof (induction rule: pool_run.induct)
  case (more_steps s es s' ev s'')
  from pool_step_left [OF more_steps.hyps(2), of n] more_steps.IH show ?case by (auto split: if_splits)
qed simp

lemma pool_progress:
  assumes "n < length ts" and "\<not> is_finished (snd (ts ! n))"
  shows "\<exists>s'. pool_step E (a, ts) (Run n) s'"
  by (metis assms pool_step.run prod.exhaust_sel)

lemma pool_run_trans:
  "pool_run E s es s' \<Longrightarrow> pool_run E s0 es0 s \<Longrightarrow> pool_run E s0 (es0 @ es) s'"
proof (induction rule: pool_run.induct)
  case (more_steps s es s' ev s'')
  from pool_run.more_steps [OF more_steps.IH [OF more_steps.prems] more_steps.hyps(2)]
  show ?case by simp
qed simp

lemma pool_run_Cons:
  "pool_step E s ev s' \<Longrightarrow> pool_run E s' es s'' \<Longrightarrow> pool_run E s (ev # es) s''"
  using pool_run_trans [of E s' es s'' s "[ev]"] pool_run.more_steps [OF pool_run.stop, of E s ev s']
  by simp

text \<open>Without new commands, the threads can be run to their ends.\<close>

lemma pool_completes:
  "\<exists>es a' ts'. pool_run E (a, ts) es (a', ts') \<and> list_all is_run es \<and>
     list_all (\<lambda>t. is_finished (snd t)) ts' \<and> map fst ts' = map fst ts"
proof (induction "pool_rank ts" arbitrary: a ts rule: less_induct)
  case less
  show ?case
  proof (cases "list_all (\<lambda>t. is_finished (snd t)) ts")
    case True
    then show ?thesis by (intro exI [of _ "[]"] exI [of _ a] exI [of _ ts]) (simp add: pool_run.stop)
  next
    case False
    then obtain n where n: "n < length ts" "\<not> is_finished (snd (ts ! n))"
      by (auto simp: list_all_length)
    obtain j p where jp: "ts ! n = (j, p)" by (metis prod.exhaust)
    obtain p' b where st: "thread_step E j p a = (p', b)" by (metis prod.exhaust)
    have np: "\<not> is_finished p" using n jp by simp
    let ?us = "ts[n := (j, p')]"
    from pool_step.run [OF n(1) jp np st]
    have one: "pool_step E (a, ts) (Run n) (b, ?us)" .
    from less.hyps [OF pool_rank_update [OF n(1) jp thread_step_rank [OF st np]]]
    obtain es a' ts' where "pool_run E (b, ?us) es (a', ts')" "list_all is_run es"
      "list_all (\<lambda>t. is_finished (snd t)) ts'" "map fst ts' = map fst ?us" by blast
    moreover have "map fst ?us = map fst ts"
      using n(1) jp by (simp add: map_update list_update_same_conv)
    ultimately show ?thesis
      using pool_run_Cons [OF one]
      by (intro exI [of _ "Run n # es"] exI [of _ a'] exI [of _ ts']) (simp add: is_run_def)
  qed
qed

section \<open>Atomic commands\<close>

text \<open>
  The reference: commands that run from start to end without interruption, in some order,
  between the moves that the engine makes by itself.
\<close>

datatype 'e atomic_event = Moved 'e | Did wemo_job

fun atomic_step :: "'e engine \<Rightarrow> 'e atomic_event \<Rightarrow> ('e, 'c) adapter \<Rightarrow> ('e, 'c) adapter" where
  "atomic_step E (Moved e) a = a\<lparr>engine_state := e\<rparr>"
| "atomic_step E (Did j) a = snd (call_job E j a)"

definition atomic_run ::
    "'e engine \<Rightarrow> 'e atomic_event list \<Rightarrow> ('e, 'c) adapter \<Rightarrow> ('e, 'c) adapter" where
  "atomic_run E xs a = fold (atomic_step E) xs a"

fun jobs_done :: "'e atomic_event list \<Rightarrow> wemo_job list" where
  "jobs_done [] = []"
| "jobs_done (Moved e # xs) = jobs_done xs"
| "jobs_done (Did j # xs) = j # jobs_done xs"

lemma jobs_done_append [simp]: "jobs_done (xs @ ys) = jobs_done xs @ jobs_done ys"
  by (induction xs rule: jobs_done.induct) simp_all

lemma atomic_run_append [simp]: "atomic_run E (xs @ ys) a = atomic_run E ys (atomic_run E xs a)"
  by (simp add: atomic_run_def)

text \<open>
  A pool in which nobody misses: the engine is initialised, the cache knows every thread's
  UDN and no thread is past its first look into the cache.
\<close>

fun before_miss :: "phase \<Rightarrow> bool" where
  "before_miss Starting = True"
| "before_miss Looking = True"
| "before_miss (Finished ok) = True"
| "before_miss p = False"

definition cached_pool :: "('e, 'c) pool \<Rightarrow> bool" where
  "cached_pool s = (case s of (a, ts) \<Rightarrow>
     initialized a \<and>
     (\<forall>(j, p)\<in>set ts. before_miss p \<and> mUdnToWemoId a (job_udn j) \<noteq> None))"

lemma call_job_cached:
  assumes "HAVE_OPENWEMO_ENGINE E" and "initialized a" and "mUdnToWemoId a (job_udn j) = Some i"
  shows "call_job E j a = SendState E i (job_state j) (job_level j) a"
  using assms by (simp add: call_job_eq EnsureEngineInitialized_def send_to_udn_def)

lemma cached_pool_update:
  assumes "cached_pool (a, ts)" and "n < length ts" and "ts ! n = (j, p)" and "before_miss p'"
    and "initialized a'" and "mUdnToWemoId a' = mUdnToWemoId a"
  shows "cached_pool (a', ts[n := (j, p')])"
proof -
  from assms(2,3) have "(j, p) \<in> set ts" by (metis nth_mem)
  then show ?thesis
    using assms set_update_subset_insert [of ts n "(j, p')"] by (fastforce simp: cached_pool_def)
qed

lemma cached_pool_step:
  assumes eng: "HAVE_OPENWEMO_ENGINE E" and ok: "cached_pool (a, ts)"
    and step: "pool_step E (a, ts) ev (a', ts')"
    and new: "\<And>j. ev = Spawn j \<Longrightarrow> mUdnToWemoId a (job_udn j) \<noteq> None"
  shows "cached_pool (a', ts') \<and> mUdnToWemoId a' = mUdnToWemoId a \<and>
    (\<exists>xs. a' = atomic_run E xs a \<and> ended ts' = ended ts + mset (jobs_done xs))"
  using step
proof (cases rule: pool_step.cases)
  case (spawn j)
  then show ?thesis
    using ok new by (intro conjI exI [of _ "[]"]) (auto simp: cached_pool_def atomic_run_def)
next
  case (engine e)
  then show ?thesis
    using ok by (intro conjI exI [of _ "[Moved e]"]) (auto simp: cached_pool_def atomic_run_def)
next
  case (run n j p p')
  from run have mem: "(j, p) \<in> set ts" by (metis nth_mem)
  then have init: "initialized a" and bm: "before_miss p"
    using ok by (auto simp: cached_pool_def)
  obtain i where i: "mUdnToWemoId a (job_udn j) = Some i"
    using ok mem by (auto simp: cached_pool_def)
  note upd = cached_pool_update [OF ok run(3,4)] and end_upd = ended_update(1) [OF run(3-5)]
  show ?thesis
  proof (cases p)
    case Starting
    then have "p' = Looking" "a' = a"
      using run(6) eng init by (simp_all add: EnsureEngineInitialized_def)
    then show ?thesis
      using run(2) upd [of Looking a] init end_upd
      by (intro conjI exI [of _ "[]"]) (auto simp: atomic_run_def)
  next
    case Looking
    obtain r b where s: "SendState E i (job_state j) (job_level j) a = (r, b)" by fastforce
    then have e: "p' = Finished r" "a' = b"
      using run(6) Looking i by (simp_all add: send_cached_def)
    note f = SendState_fields [OF s]
    have "a' = atomic_run E [Did j] a"
      using e s call_job_cached [OF eng init i] by (simp add: atomic_run_def)
    then show ?thesis
      using run(2) upd [of p' a'] e f init end_upd
      by (intro conjI exI [of _ "[Did j]"]) auto
  qed (use bm run(5) in simp_all)
qed

lemma cached_pool_run:
  assumes eng: "HAVE_OPENWEMO_ENGINE E"
    and run: "pool_run E s es s'" and ok: "cached_pool s"
    and new: "\<And>j. Spawn j \<in> set es \<Longrightarrow> mUdnToWemoId (fst s) (job_udn j) \<noteq> None"
  shows "cached_pool s' \<and> mUdnToWemoId (fst s') = mUdnToWemoId (fst s) \<and>
    (\<exists>xs. fst s' = atomic_run E xs (fst s) \<and> ended (snd s') = ended (snd s) + mset (jobs_done xs))"
  using run ok new
proof (induction rule: pool_run.induct)
  case (stop s)
  then show ?case by (intro conjI exI [of _ "[]"]) (simp_all add: atomic_run_def)
next
  case (more_steps s es s' ev s'')
  obtain a ts a' ts' where s: "s' = (a, ts)" "s'' = (a', ts')" by (metis prod.exhaust)
  from more_steps.IH more_steps.prems obtain xs where
    ih: "cached_pool s'" "mUdnToWemoId (fst s') = mUdnToWemoId (fst s)"
      "fst s' = atomic_run E xs (fst s)" "ended (snd s') = ended (snd s) + mset (jobs_done xs)"
    by auto
  from cached_pool_step [OF eng, of a ts ev a' ts'] ih more_steps.hyps(2) more_steps.prems(2) s
  obtain ys where "cached_pool s''" "mUdnToWemoId a' = mUdnToWemoId a"
      "a' = atomic_run E ys a" "ended ts' = ended ts + mset (jobs_done ys)" by auto
  then show ?case using ih s by (intro conjI exI [of _ "xs @ ys"]) auto
qed

section \<open>Properties of the command threads\<close>

text \<open>
  \<open>thread_step\<close> translates the lines of \<open>SetOnOff\<close> and \<open>SetLevelPercent\<close> a second time, cut at
  their locks. The two translations agree: a thread that nobody disturbs returns after at most
  five steps, with the result of the call and the adapter that the call leaves.
\<close>

lemma thread_run_call:
  "thread_run E j 5 Starting a = (Finished (fst (call_job E j a)), snd (call_job E j a))"
proof -
  have "thread_run E j 5 Starting a =
      (let (p, a) = thread_step E j Starting a in thread_run E j 4 p a)"
    using thread_run.simps(2) [of E j 4 Starting a] by simp
  then show ?thesis
    by (cases "HAVE_OPENWEMO_ENGINE E"; cases "EnsureEngineInitialized E a")
      (auto simp: thread_run_Looking call_job_eq split: prod.splits)
qed

text \<open>
  C8. Any number of command threads, started at any time and interleaved in any way with each
  other and with the engine, leave the adapter's protocol with the engine intact and never
  forget a cached UDN. What they send is one command per thread at most: the thread's own,
  sent before the thread returns, by every thread that reports success, and addressed to an
  id that the cache at the start or some list of the engine gave for the thread's UDN.
\<close>

theorem command_threads_safe:
  assumes "pool_run E (a, []) es (a', ts)" and "engine_protocol a"
    and "lists_only E R" and "caches_only (mUdnToWemoId a) R"
  shows "engine_protocol a' \<and> dom (mUdnToWemoId a) \<subseteq> dom (mUdnToWemoId a') \<and>
    (\<exists>sent. actions (calls a') = actions (calls a) @ map (\<lambda>(j, i). (i, job_command j)) sent \<and>
       (\<forall>(j, i)\<in>set sent. R (job_udn j) i) \<and>
       succeeded ts \<subseteq># mset (map fst sent) \<and> mset (map fst sent) \<subseteq># ended ts)"
  using pool_inv_run [OF assms(1,3) pool_inv_start [OF assms(2,4)]] by (simp add: pool_inv_def)

text \<open>
  Two threads for a cached lamp: both pass the initialisation, then the second one sends
  first.
\<close>

definition cached_lamp :: "(unit, unit) adapter" where
  "cached_lamp = started ''x''\<lparr>mUdnToWemoId := [''uuid:lamp'' \<mapsto> 7]\<rparr>"

definition lamp_on :: wemo_job where "lamp_on = JobOnOff ''uuid:lamp'' True"

definition lamp_half :: wemo_job where "lamp_half = JobLevel ''uuid:lamp'' 50"

definition overtaking_schedule :: "unit pool_event list" where
  "overtaking_schedule = [Spawn lamp_on, Spawn lamp_half, Run 0, Run 1, Run 1, Run 0]"

definition overtaken :: "(unit, unit) adapter" where
  "overtaken = log_call (CSetAction 7 (job_command lamp_on))
     (log_call (CSetAction 7 (job_command lamp_half)) cached_lamp)"

lemma cached_lamp_fields:
  "initialized cached_lamp" "mUdnToWemoId cached_lamp = [''uuid:lamp'' \<mapsto> 7]"
  "calls cached_lamp = [CInit]" "engine_protocol cached_lamp"
proof -
  show "initialized cached_lamp" "mUdnToWemoId cached_lamp = [''uuid:lamp'' \<mapsto> 7]"
    and c: "calls cached_lamp = [CInit]"
    by (simp_all add: cached_lamp_def started_def EnsureEngineInitialized_def Let_def new_adapter_def
        list_engine_def MaybeConfigureIpcTarget_def rfind_def)
  then show "engine_protocol cached_lamp" unfolding engine_protocol_def
    by (intro exI [of _ "[]"] exI [of _ 1] exI [of _ "[]"])
      (simp add: cached_lamp_def started_def EnsureEngineInitialized_def Let_def new_adapter_def
        list_engine_def MaybeConfigureIpcTarget_def rfind_def)
qed

lemma lamp_cache_only: "caches_only (mUdnToWemoId cached_lamp) (\<lambda>u i. i = 7)"
  by (simp add: caches_only_def cached_lamp_fields)

lemma lamp_engine_lists_only: "lists_only (list_engine [lamp_info]) (\<lambda>u i. i = 7)"
  by (simp add: lists_only_def listed_in_def list_engine_def listed_def clamp_int_def lamp_info_def)

lemma overtaking_run:
  "pool_run (list_engine [lamp_info]) (cached_lamp, []) overtaking_schedule
     (overtaken, [(lamp_on, Finished True), (lamp_half, Finished True)])"
proof -
  let ?E = "list_engine [lamp_info]" and ?a = cached_lamp
  let ?b = "log_call (CSetAction 7 (job_command lamp_half)) ?a"
  have first: "thread_step ?E j Starting ?a = (Looking, ?a)" for j
    by (simp add: EnsureEngineInitialized_def cached_lamp_fields list_engine_def)
  have second: "thread_step ?E j Looking c = (Finished True, log_call (CSetAction 7 (job_command j)) c)"
    if "mUdnToWemoId c (job_udn j) = Some 7" for j and c :: "(unit, unit) adapter"
    using that by (simp add: send_cached_def SendState_def list_engine_def job_command_parts)
  have c: "mUdnToWemoId ?a (job_udn lamp_half) = Some 7" "mUdnToWemoId ?b (job_udn lamp_on) = Some 7"
    by (simp_all add: cached_lamp_fields lamp_half_def lamp_on_def)
  show ?thesis
    unfolding overtaking_schedule_def overtaken_def
    by (rule pool_run_Cons [OF pool_step.spawn] pool_run_Cons [OF pool_step.run] pool_run.stop
        first second c | simp)+
qed

theorem command_threads_safe_witness:
  "\<exists>sent. actions (calls overtaken) = map (\<lambda>(j, i). (i, job_command j)) sent \<and>
     {#lamp_on, lamp_half#} \<subseteq># mset (map fst sent) \<and> (\<forall>(j, i)\<in>set sent. i = 7)"
  using command_threads_safe [OF overtaking_run cached_lamp_fields(4) lamp_engine_lists_only
      lamp_cache_only]
  by (auto simp: cached_lamp_fields succeeded_def)

text \<open>
  C11. The threads return: each of them takes at most five steps, however they are interleaved
  with each other and with the engine, and has returned when it has taken five; one that has
  not returned can always go on; and a pool that is left alone by new commands runs to an end
  in which all have returned.
\<close>

theorem command_threads_end:
  assumes "pool_run E (a, []) es (a', ts)"
  shows "(\<forall>n. count_list es (Run n) \<le> 5) \<and>
    (\<forall>n<length ts. count_list es (Run n) = 5 \<longrightarrow> is_finished (snd (ts ! n))) \<and>
    (\<forall>n<length ts. \<not> is_finished (snd (ts ! n)) \<longrightarrow> (\<exists>s. pool_step E (a', ts) (Run n) s)) \<and>
    (\<exists>es' a'' ts'. pool_run E (a', ts) es' (a'', ts') \<and> list_all is_run es' \<and>
       list_all (\<lambda>t. is_finished (snd t)) ts' \<and> map fst ts' = map fst ts)"
proof -
  have left: "count_list es (Run n) + steps_left ts n \<le> 5" for n
    using pool_run_left [OF assms, of n] by (simp add: steps_left_def)
  have "count_list es (Run n) \<le> 5" for n using left [of n] by simp
  moreover have "is_finished (snd (ts ! n))" if "n < length ts" "count_list es (Run n) = 5" for n
  proof -
    have "phase_rank (snd (ts ! n)) = 0" using left [of n] that by (simp add: steps_left_def)
    then show ?thesis by (cases "snd (ts ! n)") simp_all
  qed
  ultimately show ?thesis using pool_progress pool_completes [of E a' ts] by blast
qed

text \<open>One thread has passed the initialisation, the other has not begun.\<close>

theorem command_threads_end_witness:
  "pool_run (list_engine [lamp_info]) (cached_lamp, []) [Spawn lamp_on, Spawn lamp_half, Run 0]
     (cached_lamp, [(lamp_on, Looking), (lamp_half, Starting)]) \<and>
   (\<exists>es a ts. pool_run (list_engine [lamp_info]) (cached_lamp, [(lamp_on, Looking), (lamp_half, Starting)]) es (a, ts) \<and>
      list_all (\<lambda>t. is_finished (snd t)) ts \<and> map fst ts = [lamp_on, lamp_half])"
proof -
  let ?E = "list_engine [lamp_info]"
  have first: "thread_step ?E j Starting cached_lamp = (Looking, cached_lamp)" for j
    by (simp add: EnsureEngineInitialized_def cached_lamp_fields list_engine_def)
  have run: "pool_run ?E (cached_lamp, []) [Spawn lamp_on, Spawn lamp_half, Run 0]
      (cached_lamp, [(lamp_on, Looking), (lamp_half, Starting)])"
    by (rule pool_run_Cons [OF pool_step.spawn] pool_run_Cons [OF pool_step.run] pool_run.stop first | simp)+
  from command_threads_end [OF run] obtain es a ts where
    "pool_run ?E (cached_lamp, [(lamp_on, Looking), (lamp_half, Starting)]) es (a, ts)"
    "list_all (\<lambda>t. is_finished (snd t)) ts" "map fst ts = map fst [(lamp_on, Looking), (lamp_half, Starting)]"
    by blast
  then show ?thesis using run by (intro conjI exI [of _ es] exI [of _ a] exI [of _ ts]) simp_all
qed

text \<open>
  C9. Commands for cached devices are linearizable: however their critical sections are
  interleaved, the adapter, the engine and everything sent are what the returned commands
  produce when each runs alone, in some order, with the engine's own moves between them.
  Since the start may be any reachable pool, the order extends the one found so far, so a
  command that returned before another was started comes before it.
\<close>

theorem cached_commands_linearizable:
  assumes "pool_run E (a, ts) es (a', ts')" and "cached_pool (a, ts)" and "HAVE_OPENWEMO_ENGINE E"
    and "\<forall>j. Spawn j \<in> set es \<longrightarrow> mUdnToWemoId a (job_udn j) \<noteq> None"
  shows "mUdnToWemoId a' = mUdnToWemoId a \<and> cached_pool (a', ts') \<and>
    (\<exists>xs. a' = atomic_run E xs a \<and> ended ts' = ended ts + mset (jobs_done xs))"
  using cached_pool_run [OF assms(3,1,2)] assms(4) by auto

theorem cached_commands_linearizable_witness:
  "\<exists>xs. overtaken = atomic_run (list_engine [lamp_info]) xs cached_lamp \<and>
     {#lamp_on, lamp_half#} = mset (jobs_done xs)"
proof -
  have "cached_pool (cached_lamp, [])" by (simp add: cached_pool_def cached_lamp_fields)
  moreover have "HAVE_OPENWEMO_ENGINE (list_engine [lamp_info])" by (simp add: list_engine_def)
  moreover have "\<forall>j. Spawn j \<in> set overtaking_schedule \<longrightarrow>
      mUdnToWemoId cached_lamp (job_udn j) \<noteq> None"
    by (auto simp: overtaking_schedule_def lamp_on_def lamp_half_def cached_lamp_fields)
  ultimately obtain xs where "overtaken = atomic_run (list_engine [lamp_info]) xs cached_lamp"
      "ended [(lamp_on, Finished True), (lamp_half, Finished True)] = {#} + mset (jobs_done xs)"
    using cached_commands_linearizable [OF overtaking_run] by auto
  then show ?thesis by (intro exI [of _ xs]) (simp add: ended_def)
qed

end
