(* ===== verification/Process.thy ===== *)
theory Process
  imports Application Bridge_System Command_Threads
begin

text \<open>
  The whole process of \<^verbatim>\<open>matter-bridge-app/main.cpp\<close>: the bridge with its queues, the detached
  command threads at the granularity of the adapter's locks, and the commands of the named
  pipe, from the static objects constructed before \<open>main\<close> through \<open>ApplicationInit\<close> to any
  interleaving of all of them, and to the death of the process where the code can die.
\<close>

section \<open>The process and its steps\<close>

record ('d, 'e, 'g, 'j) process =
  core :: "('d, 'e, 'g) system"
  running :: "(wemo_job \<times> phase) list"
  waiting :: "'j list"

text \<open>
  A label of the system other than \<open>RunThread\<close>; a thread that begins to run, or takes one more
  of its steps; a move of the engine; a text on the pipe; a handler of the pipe run by the
  Matter thread.
\<close>

datatype 'g process_label =
    Core label | Detach nat | Phase nat | EngineSelf 'g | PipeText string | RunHandler

fun whole_thread :: "label \<Rightarrow> bool" where
  "whole_thread (RunThread i) = True"
| "whole_thread l = False"

definition detached :: "nat \<Rightarrow> ('d, 'e, 'g) system \<Rightarrow> ('d, 'e, 'g) system" where
  "detached i c =
     c\<lparr>bridge_state := bridge_state c\<lparr>threads := take i (threads (bridge_state c)) @
         drop (Suc i) (threads (bridge_state c))\<rparr>\<rparr>"

text \<open>A step to \<^term>\<open>None\<close> is the end of the process by \<open>VerifyOrDie\<close>.\<close>

inductive process_step ::
    "('d, 'e) chip \<Rightarrow> 'e ember_view \<Rightarrow> 'g engine \<Rightarrow> 'd test_api \<Rightarrow> 'j json_api \<Rightarrow>
     'g process_label \<Rightarrow> ('d, 'e, 'g, 'j) process \<Rightarrow> ('d, 'e, 'g, 'j) process option \<Rightarrow> bool"
  for K :: "('d, 'e) chip" and V :: "'e ember_view" and E :: "'g engine" and R :: "'d test_api"
    and J :: "'j json_api" where
  core_step: "system_step K V E l (core s) c \<Longrightarrow> \<not> whole_thread l \<Longrightarrow>
    process_step K V E R J (Core l) s (Some (s\<lparr>core := c\<rparr>))"
| detach: "i < length (threads (bridge_state (core s))) \<Longrightarrow>
    process_step K V E R J (Detach i) s
      (Some (s\<lparr>core := detached i (core s),
               running := running s @ [(threads (bridge_state (core s)) ! i, Starting)]\<rparr>))"
| phase_step: "n < length (running s) \<Longrightarrow> running s ! n = (j, p) \<Longrightarrow> \<not> is_finished p \<Longrightarrow>
    thread_step E j p (adapter_state (core s)) = (p', a') \<Longrightarrow>
    process_step K V E R J (Phase n) s
      (Some (s\<lparr>core := (core s)\<lparr>adapter_state := a'\<rparr>, running := (running s)[n := (j, p')]\<rparr>))"
| engine_self: "process_step K V E R J (EngineSelf e) s
    (Some (s\<lparr>core := (core s)\<lparr>adapter_state := (adapter_state (core s))\<lparr>engine_state := e\<rparr>\<rparr>\<rparr>))"
| pipe_text: "process_step K V E R J (PipeText json) s
    (Some (s\<lparr>waiting := OnEventCommandReceived K J json (waiting s)\<rparr>))"
| handler: "waiting s = h # hs \<Longrightarrow>
    process_step K V E R J RunHandler s
      (map_option (\<lambda>b. s\<lparr>core := (core s)\<lparr>bridge_state := b\<rparr>, waiting := hs\<rparr>)
         (HandleCommand K R J h (bridge_state (core s))))"

inductive process_run ::
    "('d, 'e) chip \<Rightarrow> 'e ember_view \<Rightarrow> 'g engine \<Rightarrow> 'd test_api \<Rightarrow> 'j json_api \<Rightarrow>
     ('d, 'e, 'g, 'j) process \<Rightarrow> 'g process_label list \<Rightarrow> ('d, 'e, 'g, 'j) process option \<Rightarrow> bool"
  for K :: "('d, 'e) chip" and V :: "'e ember_view" and E :: "'g engine" and R :: "'d test_api"
    and J :: "'j json_api" and s :: "('d, 'e, 'g, 'j) process" where
  process_nil: "process_run K V E R J s [] (Some s)"
| process_more: "process_run K V E R J s ls (Some s1) \<Longrightarrow> process_step K V E R J l s1 r \<Longrightarrow>
    process_run K V E R J s (ls @ [l]) r"

section \<open>The start of the process\<close>

definition gWemoAdapter :: "'g \<Rightarrow> ('g, state_callback) adapter" where
  "gWemoAdapter e = new_adapter ''127.0.0.1:49153'' e"

text \<open>The objects constructed before \<open>main\<close>, with the endpoint storage of the stack.\<close>

definition boot_bridge :: "('d, 'e) chip \<Rightarrow> 'd test_api \<Rightarrow> 'e \<Rightarrow> ('d, 'e) bridge" where
  "boot_bridge K R e = empty_bridge (static_objects K R) 10 e"

definition start_process ::
    "('d, 'e) chip \<Rightarrow> 'g engine \<Rightarrow> 'd test_api \<Rightarrow> 'p platform \<Rightarrow> 'e \<Rightarrow> 'g \<Rightarrow> 'p \<Rightarrow>
     ('d, 'e, 'g, 'j) process option" where
  "start_process K E R F e g p =
     (case application_init K E F
         \<lparr>app_bridge = boot_bridge K R e, app_adapter = gWemoAdapter g, gRooms = [], gActions = [],
          app_platform = p\<rparr> of
        Started s \<Rightarrow>
          Some \<lparr>core = \<lparr>clock = 0, bridge_state = app_bridge s, adapter_state = app_adapter s, reported = []\<rparr>,
                running = [], waiting = []\<rparr>
      | _ \<Rightarrow> None)"

section \<open>What the steps leave alone\<close>

text \<open>The handlers of a write change the heap at the written device only.\<close>

lemma handler_heap:
  assumes "q \<noteq> p"
  shows "heap (snd (HandleWriteOnOffAttribute K now p d a buf b)) q = heap b q"
    "heap (snd (HandleWriteLevelControlAttribute K now later p d a buf b)) q = heap b q"
    "heap (snd (HandleWriteBridgedDeviceBasicAttribute K p d a buf b)) q = heap b q"
proof -
  have put: "heap (put_device K p r c) q = heap c q" for r c
    using assms by (cases r) simp
  show "heap (snd (HandleWriteOnOffAttribute K now p d a buf b)) q = heap b q"
    by (auto simp: HandleWriteOnOffAttribute_def Let_def put split: option.splits)
  show "heap (snd (HandleWriteLevelControlAttribute K now later p d a buf b)) q = heap b q"
    by (auto simp: HandleWriteLevelControlAttribute_def Let_def put split: option.splits)
  show "heap (snd (HandleWriteBridgedDeviceBasicAttribute K p d a buf b)) q = heap b q"
    using assms by (auto simp: HandleWriteBridgedDeviceBasicAttribute_def Let_def split: prod.splits)
qed

lemma write_heap:
  assumes "emberAfExternalAttributeWriteCallback K now later ep cluster attr buf b = Inr (st, b')"
    and "q \<notin> published b"
  shows "heap b' q = heap b q"
proof -
  have slots: "endpoint_slots = 16"
    by (simp add: endpoint_slots_def CHIP_DEVICE_CONFIG_DYNAMIC_ENDPOINT_COUNT_def)
  from assms(1) show ?thesis
  proof (cases rule: write_callback_cases)
  case none
  then show ?thesis by simp
next
  case (on_off i p d)
  then have "q \<noteq> p" using assms(2) by (auto simp: published_def slots)
  then show ?thesis using on_off handler_heap(1) by simp
next
  case (level i p d)
  then have "q \<noteq> p" using assms(2) by (auto simp: published_def slots)
  then show ?thesis using level handler_heap(2) by simp
next
  case (basic i p d)
  then have "q \<noteq> p" using assms(2) by (auto simp: published_def slots)
  then show ?thesis using basic handler_heap(3) by simp
  qed
qed

lemma work_heap:
  assumes doc: "chip_documented K V" and ok: "bridge_ok K V b"
    and run: "run_work K now item b = Inr (b', rs)" and q: "q \<notin> published b"
  shows "heap b' q = heap b q"
proof (cases item)
  case (CallReportingCallback ep cluster attr)
  then show ?thesis using run by (simp add: run_work_def)
next
  case (HandleWemoEvent ctx)
  then have "HandleWemoEventOnMatterThread K now ctx b = Inr b'"
    using run by (simp add: run_work_def split: sum.splits)
  from doc ok this show ?thesis
  proof (cases rule: event_effect)
    case unknown
    then show ?thesis by simp
  next
    case (light e d d' w)
    have "e \<in> set (gBridgedWemoLights b)" using light(1) by (auto simp: find_Some_iff)
    then have "bl_device e \<noteq> q" using q bridge_okD(4) [OF ok] by auto
    then show ?thesis using light(3) by simp
  qed
qed

lemma core_heap:
  assumes doc: "chip_documented K V" and ok: "bridge_ok K V (bridge_state s)"
    and step: "system_step K V E l s s'" and q: "q \<notin> published (bridge_state s)"
  shows "heap (bridge_state s') q = heap (bridge_state s) q"
  using step
proof cases
  case (attr_write ep cluster later attr buf st b')
  then show ?thesis using write_heap [OF attr_write(5) q] by simp
next
  case (engine_event i data)
  then show ?thesis
    using deliver_event_cases [of K "adapter_state s" i data "bridge_state s"]
    by (auto simp: ScheduleWork_frame)
next
  case (matter_work item rest b' rs)
  have "bridge_ok K V (bridge_state s\<lparr>work := rest\<rparr>)" using ok by simp
  from work_heap [OF doc this matter_work(4)] q matter_work(2) show ?thesis
    by (simp add: published_def)
qed simp_all

lemma unwired_unpublished:
  assumes ok: "bridge_ok K V b" and "heap b q = Some d" and "unwired d"
  shows "q \<notin> published b"
proof
  assume "q \<in> published b"
  then obtain e where e: "e \<in> set (gBridgedWemoLights b)" "bl_device e = q"
    using bridge_okD(4) [OF ok] by auto
  then have "wired d" using bridge_okD(2) [OF ok e(1)] assms(2) by (auto simp: light_ok_def)
  then show False using assms(3) by (auto simp: wired_def unwired_def)
qed

text \<open>A supported pipe command raises the version of \<open>Light1\<close>, which is no published light.\<close>

definition supported :: "'j json_api \<Rightarrow> 'j \<Rightarrow> bool" where
  "supported J v \<longleftrightarrow> json_asString J (json_get J v ''Name'') = kSimulateConfigurationVersionChange"

lemma HandleCommand_keeps:
  assumes t: "test_documented (dev_api K) R" and ok: "bridge_ok K V b"
    and h: "heap b Light1 = Some d" "unwired d" and e: "\<not> json_empty J v"
    and run: "HandleCommand K R J v b = r"
  shows "if supported J v
    then \<exists>b' d'. r = Some b' \<and> bridge_ok K V b' \<and> same_setup b b' \<and> threads b' = threads b \<and>
      heap b' Light1 = Some d' \<and> unwired d'
    else r = None"
proof (cases "supported J v")
  case False
  then show ?thesis using HandleCommand_cases [OF e h(1), of K R] run by (simp add: supported_def)
next
  case True
  let ?d = "fst (dev_bump_version K R d)"
  note bump = bump_version_law [OF t, of d]
  have r: "r = Some (put_device K Light1 (?d, []) b)"
    using HandleCommand_cases [OF e h(1), of K R] run True by (simp add: supported_def put_device_def)
  have "same_wiring K d ?d" using bump by (intro same_wiring_simps(3)) simp_all
  from bridge_ok_put [OF ok h(1) this] have "bridge_ok K V (put_device K Light1 (?d, []) b)" .
  moreover have "unwired ?d" using bump h(2) same_shell_wired(2) by blast
  ultimately show ?thesis using True r by simp
qed

section \<open>The invariant of the process\<close>

definition process_inv ::
    "('d, 'e) chip \<Rightarrow> 'e ember_view \<Rightarrow> 'j json_api \<Rightarrow> 'g process_label list \<Rightarrow>
     ('d, 'e, 'g, 'j) process \<Rightarrow> bool" where
  "process_inv K V J ls s \<longleftrightarrow> system_inv K V (core s) \<and>
     (\<forall>(j, p)\<in>set (running s). job_known (bridge_state (core s)) j \<and>
        (p \<noteq> Starting \<and> \<not> is_finished p \<longrightarrow> initialized (adapter_state (core s)))) \<and>
     (\<forall>h\<in>set (waiting s). \<exists>json. PipeText json \<in> set ls \<and> FromJSON J json = Some h) \<and>
     (\<exists>d. heap (bridge_state (core s)) Light1 = Some d \<and> unwired d)"

text \<open>The commands that were sent, and those that still may be.\<close>

definition unfinished :: "('d, 'e, 'g, 'j) process \<Rightarrow> nat" where
  "unfinished s = length (filter (\<lambda>t. \<not> is_finished (snd t)) (running s))"

definition process_commands :: "('d, 'e, 'g, 'j) process \<Rightarrow> nat" where
  "process_commands s = command_count (core s) + unfinished s"

fun process_write :: "'g process_label \<Rightarrow> bool" where
  "process_write (Core l) = is_write l"
| "process_write l = False"

text \<open>The jobs of running threads are known, and threads past their start have an engine.\<close>

lemma running_kept:
  assumes "\<forall>(j, p)\<in>set ts. job_known b j \<and> (p \<noteq> Starting \<and> \<not> is_finished p \<longrightarrow> initialized a)"
    and "same_setup b b'" and "initialized a \<longrightarrow> initialized a'"
  shows "\<forall>(j, p)\<in>set ts. job_known b' j \<and> (p \<noteq> Starting \<and> \<not> is_finished p \<longrightarrow> initialized a')"
  using assms by (auto simp: job_known_setup)

lemma core_step_adapter:
  "system_step K V E l s s' \<Longrightarrow> \<not> whole_thread l \<Longrightarrow> adapter_state s' = adapter_state s"
  by (erule system_step.cases) auto

lemma engine_protocol_self [simp]: "engine_protocol (a\<lparr>engine_state := e\<rparr>) = engine_protocol a"
  by (simp add: engine_protocol_def)

lemma process_inv_label: "process_inv K V J ls s \<Longrightarrow> process_inv K V J (ls @ [l]) s"
  by (fastforce simp: process_inv_def)

lemma process_core_step:
  assumes doc: "chip_documented K V" and inv: "process_inv K V J ls s"
    and step: "system_step K V E l (core s) c" and l: "\<not> whole_thread l"
  shows "process_inv K V J ls (s\<lparr>core := c\<rparr>) \<and> same_setup (bridge_state (core s)) (bridge_state c) \<and>
    process_commands (s\<lparr>core := c\<rparr>) \<le> process_commands s + (if is_write l then 1 else 0) \<and>
    (commands_wf (core s) \<longrightarrow> commands_wf c)"
proof -
  have sys: "system_inv K V (core s)" using inv by (simp add: process_inv_def)
  then have ok: "bridge_ok K V (bridge_state (core s))" by (simp add: system_inv_def)
  note k = system_step_keeps [OF doc sys step] and n = system_step_commands [OF doc sys step]
  obtain d where d: "heap (bridge_state (core s)) Light1 = Some d" "unwired d"
    using inv by (auto simp: process_inv_def)
  have "heap (bridge_state c) Light1 = Some d"
    using core_heap [OF doc ok step unwired_unpublished [OF ok d]] d(1) by simp
  moreover have a: "adapter_state c = adapter_state (core s)" using core_step_adapter [OF step l] .
  moreover have "\<forall>(j, p)\<in>set (running s). job_known (bridge_state c) j \<and>
      (p \<noteq> Starting \<and> \<not> is_finished p \<longrightarrow> initialized (adapter_state c))"
    by (rule running_kept [of _ "bridge_state (core s)" "adapter_state (core s)"])
      (use inv k a in \<open>simp_all add: process_inv_def\<close>)
  ultimately have "process_inv K V J ls (s\<lparr>core := c\<rparr>)"
    using inv k d(2) by (auto simp: process_inv_def)
  then show ?thesis using k n by (simp add: process_commands_def unfinished_def)
qed

lemma detached_fields [simp]:
  "clock (detached i c) = clock c" "reported (detached i c) = reported c" "adapter_state (detached i c) = adapter_state c"
  "bridge_state (detached i c) = bridge_state c\<lparr>threads := take i (threads (bridge_state c)) @
     drop (Suc i) (threads (bridge_state c))\<rparr>"
  by (simp_all add: detached_def)

lemma process_detach:
  assumes inv: "process_inv K V J ls s" and i: "i < length (threads (bridge_state (core s)))"
  defines "s' \<equiv> s\<lparr>core := detached i (core s),
      running := running s @ [(threads (bridge_state (core s)) ! i, Starting)]\<rparr>"
  shows "process_inv K V J ls s' \<and> same_setup (bridge_state (core s)) (bridge_state (core s')) \<and>
    process_commands s' \<le> process_commands s \<and> (commands_wf (core s) \<longrightarrow> commands_wf (core s'))"
proof -
  let ?b = "bridge_state (core s)" and ?ts = "threads (bridge_state (core s))"
  have sub: "set (take i ?ts @ drop (Suc i) ?ts) \<subseteq> set ?ts"
    by (auto dest: in_set_takeD in_set_dropD)
  have known: "\<forall>j\<in>set ?ts. job_known ?b j" using inv by (simp add: process_inv_def system_inv_def)
  then have "\<forall>j\<in>set (take i ?ts @ drop (Suc i) ?ts). job_known ?b j" using sub by blast
  moreover have "job_known ?b (?ts ! i)" using known i by simp
  ultimately have "process_inv K V J ls s'"
    using inv by (auto simp: process_inv_def system_inv_def s'_def)
  moreover have "same_setup ?b (bridge_state (core s'))" by (simp add: s'_def)
  ultimately show ?thesis
    using i by (auto simp: process_commands_def command_count_def unfinished_def commands_wf_def s'_def)
qed

lemma lists_anything: "lists_only E (\<lambda>u i. True)" "caches_only cache (\<lambda>u i. True)" "phase_ok E (\<lambda>u i. True) p"
  by (simp_all add: lists_only_def listed_in_def caches_only_def) (cases p; simp add: listed_in_def)

lemma unfinished_update:
  "n < length ts \<Longrightarrow> ts ! n = (j, p) \<Longrightarrow> \<not> is_finished p \<Longrightarrow>
   length (filter (\<lambda>t. \<not> is_finished (snd t)) (ts[n := (j, p')])) + (if is_finished p' then 1 else 0) =
   length (filter (\<lambda>t. \<not> is_finished (snd t)) ts)"
  by (induction ts arbitrary: n) (auto simp: nth_Cons split: nat.splits)

lemma process_phase:
  assumes inv: "process_inv K V J ls s"
    and n: "n < length (running s)" "running s ! n = (j, p)" "\<not> is_finished p"
    and step: "thread_step E j p (adapter_state (core s)) = (p', a')"
  defines "s' \<equiv> s\<lparr>core := (core s)\<lparr>adapter_state := a'\<rparr>, running := (running s)[n := (j, p')]\<rparr>"
  shows "process_inv K V J ls s' \<and> same_setup (bridge_state (core s)) (bridge_state (core s')) \<and>
    process_commands s' \<le> process_commands s \<and> (commands_wf (core s) \<longrightarrow> commands_wf (core s'))"
proof -
  let ?a = "adapter_state (core s)" and ?b = "bridge_state (core s)"
  have mem: "(j, p) \<in> set (running s)" using n(1,2) by (metis nth_mem)
  have now: "engine_protocol ?a" "p \<noteq> Starting \<longrightarrow> initialized ?a" "job_known ?b j"
    using inv mem n(3) by (auto simp: process_inv_def system_inv_def)
  note ef = thread_step_effect [OF step n(3) now(1,2) lists_anything]
  have old: "\<forall>(k, q)\<in>set (running s). job_known ?b k \<and>
      (q \<noteq> Starting \<and> \<not> is_finished q \<longrightarrow> initialized a')"
    by (rule running_kept [of _ ?b ?a]) (use inv ef in \<open>simp_all add: process_inv_def\<close>)
  have "(k, q) = (j, p') \<or> (k, q) \<in> set (running s)" if "(k, q) \<in> set ((running s)[n := (j, p')])" for k q
    using that set_update_subset_insert [of "running s" n "(j, p')"] by blast
  then have "\<forall>(k, q)\<in>set ((running s)[n := (j, p')]). job_known ?b k \<and>
      (q \<noteq> Starting \<and> \<not> is_finished q \<longrightarrow> initialized a')"
    using old ef now(3) by blast
  then have "process_inv K V J ls s'"
    using inv ef by (simp add: process_inv_def system_inv_def s'_def)
  moreover have "process_commands s' \<le> process_commands s"
    using ef unfinished_update [OF n, of p']
    by (auto simp: process_commands_def command_count_def unfinished_def s'_def)
  moreover have "commands_wf (core s) \<longrightarrow> commands_wf (core s')"
    using ef job_command_wf by (auto simp: commands_wf_def s'_def)
  ultimately show ?thesis by (simp add: s'_def)
qed

lemma process_pipe_text:
  assumes "process_inv K V J ls s"
  shows "process_inv K V J (ls @ [PipeText json]) (s\<lparr>waiting := OnEventCommandReceived K J json (waiting s)\<rparr>)"
  using process_inv_label [OF assms, of "PipeText json"]
  by (auto simp: process_inv_def OnEventCommandReceived_def split: option.splits)

lemma process_handler:
  assumes t: "test_documented (dev_api K) R" and inv: "process_inv K V J ls s" and w: "waiting s = h # hs"
  shows "case map_option (\<lambda>b. s\<lparr>core := (core s)\<lparr>bridge_state := b\<rparr>, waiting := hs\<rparr>)
       (HandleCommand K R J h (bridge_state (core s))) of
      None \<Rightarrow> \<exists>json. PipeText json \<in> set ls \<and> FromJSON J json = Some h \<and> \<not> supported J h
    | Some s' \<Rightarrow> process_inv K V J ls s' \<and> same_setup (bridge_state (core s)) (bridge_state (core s')) \<and>
        process_commands s' \<le> process_commands s \<and> (commands_wf (core s) \<longrightarrow> commands_wf (core s'))"
proof -
  let ?b = "bridge_state (core s)"
  have ok: "bridge_ok K V ?b" using inv by (simp add: process_inv_def system_inv_def)
  obtain d where d: "heap ?b Light1 = Some d" "unwired d" using inv by (auto simp: process_inv_def)
  obtain json where json: "PipeText json \<in> set ls" "FromJSON J json = Some h"
    using inv w by (auto simp: process_inv_def)
  note keep = HandleCommand_keeps [OF t ok d FromJSON_not_empty [OF json(2)] refl]
  show ?thesis
  proof (cases "supported J h")
    case False
    then show ?thesis using keep json by auto
  next
    case True
    then obtain b' d' where b': "HandleCommand K R J h ?b = Some b'" "bridge_ok K V b'" "same_setup ?b b'"
      "threads b' = threads ?b" "heap b' Light1 = Some d'" "unwired d'"
      using keep by auto
    then show ?thesis
      using inv w job_known_setup [OF b'(3)]
      by (simp add: process_inv_def system_inv_def process_commands_def command_count_def unfinished_def
          commands_wf_def)
  qed
qed

section \<open>Runs of the process\<close>

lemma process_step_keeps:
  assumes doc: "chip_documented K V" and t: "test_documented (dev_api K) R"
    and inv: "process_inv K V J ls s" and step: "process_step K V E R J l s r"
  shows "case r of
      None \<Rightarrow> \<exists>json v. PipeText json \<in> set ls \<and> FromJSON J json = Some v \<and> \<not> supported J v
    | Some s' \<Rightarrow> process_inv K V J (ls @ [l]) s' \<and> same_setup (bridge_state (core s)) (bridge_state (core s')) \<and>
        process_commands s' \<le> process_commands s + (if process_write l then 1 else 0) \<and>
        (commands_wf (core s) \<longrightarrow> commands_wf (core s'))"
  using step
proof cases
  case (core_step l' c)
  then show ?thesis using process_core_step [OF doc inv core_step(3,4)] process_inv_label by auto
next
  case (detach i)
  then show ?thesis using process_detach [OF inv detach(3)] process_inv_label by auto
next
  case (phase_step n j p p' a')
  then show ?thesis using process_phase [OF inv phase_step(3-6)] process_inv_label by auto
next
  case (engine_self e)
  have "process_inv K V J ls (s\<lparr>core := (core s)\<lparr>adapter_state := (adapter_state (core s))\<lparr>engine_state := e\<rparr>\<rparr>\<rparr>)"
    using inv by (simp add: process_inv_def system_inv_def)
  then show ?thesis
    using engine_self process_inv_label [of K V J ls]
    by (simp add: process_commands_def command_count_def unfinished_def commands_wf_def)
next
  case (pipe_text json)
  then show ?thesis
    using process_pipe_text [OF inv, of json]
    by (simp add: process_commands_def unfinished_def)
next
  case (handler h hs)
  show ?thesis
    using process_handler [OF t inv handler(3)] handler(1,2) process_inv_label
    by (auto split: option.splits)
qed

lemma process_run_keeps:
  assumes doc: "chip_documented K V" and t: "test_documented (dev_api K) R"
    and inv: "process_inv K V J [] s" and run: "process_run K V E R J s ls r"
  shows "case r of
      None \<Rightarrow> \<exists>json v. PipeText json \<in> set ls \<and> FromJSON J json = Some v \<and> \<not> supported J v
    | Some s' \<Rightarrow> process_inv K V J ls s' \<and> same_setup (bridge_state (core s)) (bridge_state (core s')) \<and>
        process_commands s' \<le> process_commands s + length (filter process_write ls) \<and>
        (commands_wf (core s) \<longrightarrow> commands_wf (core s'))"
  using run
proof (induction rule: process_run.induct)
  case process_nil
  then show ?case using inv by simp
next
  case (process_more ls s1 l r)
  have "process_inv K V J ls s1" using process_more.IH by simp
  from process_step_keeps [OF doc t this process_more.hyps(2)] process_more.IH show ?case
    by (auto split: option.splits intro: same_setup_trans)
qed

section \<open>From the start of the process\<close>

lemma static_object_ids: "p \<in> dom (static_objects K R) \<Longrightarrow> p < 10"
  by (auto simp: static_objects_def static_lights_def static_sensors_def static_action_lights_def
      static_composed_sensors_def Light1_def Light2_def TempSensor1_def TempSensor2_def ActionLight1_def
      ActionLight2_def ActionLight3_def ActionLight4_def ComposedTempSensor1_def ComposedTempSensor2_def
      split: if_splits)

lemma static_Light1: "static_objects K R Light1 = Some (make_DeviceOnOff K ''Light 1'' ''Office'')"
  by (simp add: static_objects_def static_lights_def)

lemma boot_fresh:
  assumes "\<forall>i. V e i = None" and "uint (last_fixed_endpoint K e) < 65519"
  shows "fresh_boot K V (boot_bridge K R e)"
  using assms static_object_ids [of _ K R] by (simp add: fresh_boot_def boot_bridge_def empty_bridge_def)

lemma startup_old_object:
  assumes doc: "chip_documented K V" and boot: "fresh_boot K V b" and lights: "gBridgedWemoLights b = []"
    and run: "ApplicationInit K E b a = Some (b', a')" and r: "r < next_object b"
  shows "heap b' r = heap b r"
proof -
  note c = chip_parts [OF doc]
  note f = reset_bridge_fields [OF c(3), of b]
  obtain ds a1 where d: "Discover E a = (ds, a1)" by (rule prod.exhaust)
  have s0: "seeded K (reset_bridge K b) {}" "length (gBridgedWemoLights (reset_bridge K b)) \<le> endpointCapacity"
    by (simp_all add: seeded_def f)
  from publish_devices_law [OF c(1-3) reset_bridge_ok [OF c(3) boot] s0, of "sort_devices ds"]
  have "left_alone (reset_bridge K b) b'"
    using run by (auto simp: ApplicationInit_cases [OF d])
  moreover have "heap (reset_bridge K b) r = heap b r" by (simp add: reset_bridge_def Let_def lights)
  ultimately show ?thesis using r f(7) by (simp add: left_alone_def)
qed

lemma start_process_inv:
  assumes doc: "chip_documented K V" and e: "\<forall>i. V e i = None" "uint (last_fixed_endpoint K e) < 65519"
    and start: "start_process K E R F e g p = Some s"
  shows "process_inv K V J [] s \<and> process_commands s = 0 \<and> commands_wf (core s)"
proof -
  let ?b = "boot_bridge K R e" and ?a = "gWemoAdapter g"
  let ?app = "\<lparr>app_bridge = ?b, app_adapter = ?a, gRooms = [], gActions = [], app_platform = p\<rparr>"
  obtain s1 where s1: "application_init K E F ?app = Started s1"
    and s: "s = \<lparr>core = \<lparr>clock = 0, bridge_state = app_bridge s1, adapter_state = app_adapter s1, reported = []\<rparr>,
      running = [], waiting = []\<rparr>"
    using start by (auto simp: start_process_def split: startup_result.splits)
  have fresh: "fresh_boot K V ?b" using boot_fresh [of V e K R, OF e] .
  have prot: "engine_protocol ?a" by (simp add: gWemoAdapter_def new_adapter_protocol)
  have init: "ApplicationInit K E ?b ?a = Some (app_bridge s1, app_adapter s1)"
    using application_init_started [OF s1] by simp
  have empty: "gBridgedWemoLights ?b = []" "threads ?b = []" "Light1 < next_object ?b"
    "heap ?b Light1 = Some (make_DeviceOnOff K ''Light 1'' ''Office'')" "actions (calls ?a) = []"
    by (simp_all add: boot_bridge_def empty_bridge_def Light1_def static_Light1 [unfolded Light1_def]
        gWemoAdapter_def new_adapter_def)
  have "boots_to K V E (core s)"
    unfolding boots_to_def using fresh empty prot init s by (intro exI [of _ ?b] exI [of _ ?a]) simp
  note b = boots_to_inv [OF doc this]
  have "heap (app_bridge s1) Light1 = Some (make_DeviceOnOff K ''Light 1'' ''Office'')"
    using startup_old_object [OF doc fresh empty(1) init empty(3)] empty(4) by simp
  then have "process_inv K V J [] s"
    using b s unwired_make(2) by (auto simp: process_inv_def)
  then show ?thesis
    using b s by (simp add: process_commands_def command_count_def unfinished_def commands_wf_def)
qed

section \<open>The process refines the system\<close>

text \<open>
  What a step of the process is in the system, whose command threads run in one step: the step
  itself, or the whole thread at the moment it begins to run, or nothing.
\<close>

fun system_label :: "'g process_label \<Rightarrow> label list" where
  "system_label (Core l) = [l]"
| "system_label (Detach i) = [RunThread i]"
| "system_label l = []"

definition system_labels :: "'g process_label list \<Rightarrow> label list" where
  "system_labels ls = concat (map system_label ls)"

text \<open>The two agree in everything but the adapter, and there on the registered callback.\<close>

definition same_shown :: "('d, 'e, 'g) system \<Rightarrow> ('d, 'e, 'g) system \<Rightarrow> bool" where
  "same_shown c c' \<longleftrightarrow> clock c = clock c' \<and> bridge_state c = bridge_state c' \<and> reported c = reported c' \<and>
     gStateCallback (adapter_state c) = gStateCallback (adapter_state c')"

lemma same_shown_step:
  assumes "same_shown s c" and step: "system_step K V E l s s'" and "\<not> whole_thread l"
  shows "\<exists>c'. system_step K V E l c c' \<and> same_shown s' c'"
proof -
  have same: "clock s = clock c" "bridge_state s = bridge_state c" "reported s = reported c"
    "gStateCallback (adapter_state s) = gStateCallback (adapter_state c)"
    using assms(1) by (simp_all add: same_shown_def)
  show ?thesis
    using step
  proof cases
    case (tick dt)
    then have "system_step K V E l c (c\<lparr>clock := clock c + dt\<rparr>)" by (simp add: system_step.tick)
    then show ?thesis using tick same by (auto simp: same_shown_def)
  next
    case (attr_write ep cluster later attr buf st b')
    then have "system_step K V E l c (c\<lparr>clock := later, bridge_state := b'\<rparr>)"
      using system_step.attr_write [of K V c ep cluster later attr buf st b' E] same by simp
    then show ?thesis using attr_write same by (auto simp: same_shown_def)
  next
    case (engine_event i data)
    have d: "deliver_event K (adapter_state s) i data b = deliver_event K (adapter_state c) i data b" for b
      by (simp add: deliver_event_def OnWeStateEvent_def same(4))
    from system_step.engine_event [of K V E i data c] show ?thesis
      using engine_event same d by (intro exI conjI) (auto simp: same_shown_def)
  next
    case (matter_work item rest b' rs)
    then have "system_step K V E l c (c\<lparr>bridge_state := b', reported := reported c @ rs\<rparr>)"
      using system_step.matter_work [of c item rest K b' rs V E] same by simp
    then show ?thesis using matter_work same by (auto simp: same_shown_def)
  next
    case (thread i)
    then show ?thesis using assms(3) by simp
  qed
qed

text \<open>Commands never touch the callback.\<close>

lemma ensure_callback: "EnsureEngineInitialized E a = (ok, a') \<Longrightarrow> gStateCallback a' = gStateCallback a"
  by (auto simp: EnsureEngineInitialized_def MaybeConfigureIpcTarget_def Let_def
      split: if_splits option.splits prod.splits)

lemma SendState_callback: "gStateCallback (snd (SendState E i st lv a)) = gStateCallback a"
  by (simp add: SendState_def Let_def split: prod.splits)

lemma thread_step_callback:
  "thread_step E j p a = (p', a') \<Longrightarrow> gStateCallback a' = gStateCallback a"
  by (cases p)
    (auto simp: send_cached_eq SendState_callback Let_def dest: ensure_callback call_list_fields
      split: if_splits option.splits prod.splits)

lemma run_command_callback: "gStateCallback (run_command E j a) = gStateCallback a"
proof -
  have run: "thread_run E j n p b = (q, b') \<Longrightarrow> gStateCallback b' = gStateCallback b" for n p b q b'
    by (induction n arbitrary: p b) (auto dest: thread_step_callback split: prod.splits)
  have "thread_run E j 5 Starting a = (Finished (fst (call_job E j a)), snd (call_job E j a))"
    by (rule thread_run_call)
  from run [OF this] show ?thesis by (simp add: run_command_def run_job_call)
qed

lemma process_simulated:
  assumes "process_step K V E R J l s (Some s')" and "same_shown (core s) c" and "l \<noteq> RunHandler"
  shows "\<exists>c'. (c' = c \<and> system_label l = [] \<or> (\<exists>l'. system_label l = [l'] \<and> system_step K V E l' c c')) \<and>
    same_shown (core s') c'"
  using assms(1)
proof cases
  case (core_step l' c1)
  then show ?thesis using same_shown_step [OF assms(2) core_step(3,4)] by auto
next
  case (detach i)
  then have "i < length (threads (bridge_state c))" using assms(2) by (simp add: same_shown_def)
  from system_step.thread [of i c K V E, OF this] show ?thesis
    using detach assms(2)
    by (intro exI conjI disjI2) (auto simp: same_shown_def run_command_callback)
next
  case (phase_step n j p p' a')
  then show ?thesis
    using assms(2) thread_step_callback [OF phase_step(6)] by (auto simp: same_shown_def)
next
  case (handler h hs)
  then show ?thesis using assms(3) by simp
qed (use assms(2) in \<open>auto simp: same_shown_def\<close>)

lemma process_run_simulated:
  "process_run K V E R J s ls r \<Longrightarrow> RunHandler \<notin> set ls \<Longrightarrow> r = Some s' \<Longrightarrow>
   \<exists>c. system_run K V E (core s) (system_labels ls) c \<and> same_shown (core s') c"
proof (induction arbitrary: s' rule: process_run.induct)
  case process_nil
  then show ?case using run_nil [of K V E "core s"] by (auto simp: system_labels_def same_shown_def)
next
  case (process_more ls s1 l r)
  then obtain c where c: "system_run K V E (core s) (system_labels ls) c" "same_shown (core s1) c" by auto
  have "process_step K V E R J l s1 (Some s')" "l \<noteq> RunHandler" using process_more by auto
  from process_simulated [OF this(1) c(2) this(2)]
  obtain c' where c': "c' = c \<and> system_label l = [] \<or> (\<exists>l'. system_label l = [l'] \<and> system_step K V E l' c c')"
    "same_shown (core s') c'" by blast
  have "system_run K V E (core s) (system_labels (ls @ [l])) c'"
    using c' c(1) run_step [OF c(1)] by (auto simp: system_labels_def)
  then show ?case using c'(2) by blast
qed

section \<open>Properties\<close>

text \<open>
  C1. The process from its static objects on, with the bridge, the command threads at the
  granularity of their locks, the engine's own moves and the pipe in any interleaving. As long
  as it lives, no attribute callback and no queued event can fault, the bridge keeps its
  invariant and its lights, the engine is used according to its protocol, every command sent
  is well formed, and the commands sent or still to be sent are at most the attribute writes.
  And it dies only of the pipe: a text was received that names a command other than the one
  supported.
\<close>

theorem process_dies_only_by_pipe:
  assumes "chip_documented K V" and "test_documented (dev_api K) R"
    and "\<forall>i. V e i = None" and "uint (last_fixed_endpoint K e) < 65519"
    and "start_process K E R F e g p = Some s" and "process_run K V E R J s ls r"
  shows "case r of
      None \<Rightarrow> \<exists>json v. PipeText json \<in> set ls \<and> FromJSON J json = Some v \<and>
        json_asString J (json_get J v ''Name'') \<noteq> kSimulateConfigurationVersionChange
    | Some s' \<Rightarrow> \<not> can_fault K V (core s') \<and> bridge_ok K V (bridge_state (core s')) \<and>
        same_setup (bridge_state (core s)) (bridge_state (core s')) \<and>
        engine_protocol (adapter_state (core s')) \<and>
        (\<forall>c\<in>set (actions (calls (adapter_state (core s')))). command_wf (snd c)) \<and>
        length (actions (calls (adapter_state (core s')))) + length (threads (bridge_state (core s'))) +
          unfinished s' \<le> length (filter process_write ls)"
proof -
  note start = start_process_inv [OF assms(1,3-5), of J]
  note keep = process_run_keeps [OF assms(1,2) start [THEN conjunct1] assms(6)]
  show ?thesis
  proof (cases r)
    case None
    then show ?thesis using keep by (auto simp: supported_def)
  next
    case (Some s')
    then have "system_inv K V (core s')" using keep by (simp add: process_inv_def)
    then show ?thesis
      using keep Some start system_inv_no_fault [OF assms(1)]
      by (simp add: system_inv_def process_commands_def command_count_def commands_wf_def)
  qed
qed

theorem process_dies_only_by_pipe_witness:
  "\<exists>s s'. start_process mem_chip (list_engine [lamp_info]) mem_test_api mem_platform (replicate 16 None) () True =
       Some (s :: (mem_dev, mem_slots, unit, mem_json) process) \<and>
     process_run mem_chip mem_slot (list_engine [lamp_info]) mem_test_api mem_json_api s [PipeText ''{Reboot''] (Some s') \<and>
     \<not> can_fault mem_chip mem_slot (core s') \<and>
     process_run mem_chip mem_slot (list_engine [lamp_info]) mem_test_api mem_json_api s
       [PipeText ''{Reboot'', RunHandler] None \<and>
     (\<exists>v. FromJSON mem_json_api ''{Reboot'' = Some v \<and>
        json_asString mem_json_api (json_get mem_json_api v ''Name'') \<noteq> kSimulateConfigurationVersionChange)"
proof -
  let ?E = "list_engine [lamp_info]" and ?e = "replicate 16 None :: mem_slots"
  have e: "\<forall>i. mem_slot ?e i = None" "uint (last_fixed_endpoint mem_chip ?e) < 65519"
    using lamp_boot_fresh by (simp_all add: fresh_boot_def lamp_boot_def empty_bridge_def)
  let ?app = "\<lparr>app_bridge = boot_bridge mem_chip mem_test_api ?e, app_adapter = gWemoAdapter (), gRooms = [],
    gActions = [], app_platform = True\<rparr>"
  have "engine_protocol (app_adapter ?app)" by (simp add: gWemoAdapter_def new_adapter_protocol)
  moreover have "fresh_boot mem_chip mem_slot (app_bridge ?app)"
    using boot_fresh [of mem_slot ?e mem_chip mem_test_api, OF e] by simp
  moreover have "fst (register_identify mem_platform p)" for p by (simp add: mem_platform_def)
  ultimately obtain s1 where "application_init mem_chip ?E mem_platform ?app = Started s1"
    using application_init_outcome [OF mem_chip_documented, of ?app ?E mem_platform]
    by (cases "application_init mem_chip ?E mem_platform ?app") auto
  then obtain s :: "(mem_dev, mem_slots, unit, mem_json) process" where
    s: "start_process mem_chip ?E mem_test_api mem_platform ?e () True = Some s" "waiting s = []"
    by (simp add: start_process_def)
  let ?s' = "s\<lparr>waiting := [MObject ''Reboot'']\<rparr>"
  have received: "OnEventCommandReceived mem_chip mem_json_api ''{Reboot'' [] = [MObject ''Reboot'']"
    using mem_queue_open by (simp add: OnEventCommandReceived_def FromJSON_def mem_json_api_def queue_open_def)
  have one: "process_run mem_chip mem_slot ?E mem_test_api mem_json_api s ([] @ [PipeText ''{Reboot'']) (Some ?s')"
    using process_more [OF process_nil pipe_text, of mem_chip mem_slot ?E mem_test_api mem_json_api s "''{Reboot''"]
      received s(2) by simp
  have "HandleCommand mem_chip mem_test_api mem_json_api (MObject ''Reboot'') b = None" for b
    by (simp add: HandleCommand_def mem_json_api_def kSimulateConfigurationVersionChange_def)
  then have "process_step mem_chip mem_slot ?E mem_test_api mem_json_api RunHandler ?s' None"
    using handler [of ?s' "MObject ''Reboot''" "[]" mem_chip mem_slot ?E mem_test_api mem_json_api] by simp
  from process_more [OF one this]
  have two: "process_run mem_chip mem_slot ?E mem_test_api mem_json_api s [PipeText ''{Reboot'', RunHandler] None" by simp
  note claim = process_dies_only_by_pipe [OF mem_chip_documented mem_test_documented e s(1)]
  from claim [OF one] claim [OF two] show ?thesis using s(1) one two by auto
qed

text \<open>
  Running each command in one step is no loss for the bridge: whatever the process does with
  its threads at the granularity of their locks, with the engine and with the pipe, as long as
  no pipe command is run, clock, bridge state and reports are those of a run of the system in
  which every command thread runs as a whole at the moment it begins. What is proved of the
  system's runs about the bridge holds for the process.
\<close>

theorem process_refines_system:
  assumes "process_run K V E R J s ls (Some s')" and "RunHandler \<notin> set ls"
  shows "\<exists>c. system_run K V E (core s) (system_labels ls) c \<and> clock c = clock (core s') \<and>
    bridge_state c = bridge_state (core s') \<and> reported c = reported (core s')"
  using process_run_simulated [OF assms refl] by (auto simp: same_shown_def)

end
