(* ===== verification/Delivery.thy ===== *)
theory Delivery
  imports Process Bridge_Runs
begin

text \<open>
  From a controller's write to the engine: which devices the commands of the whole process
  reach. Startup fills the adapter's cache with every published light, so that no command of
  a light ever misses it, and the finely interleaved threads send each command to the engine
  id of the light that was written to.
\<close>

section \<open>Startup caches every published light\<close>

lemma Discover_caches:
  assumes "Discover E a = (ds, a1)" and "ds \<noteq> []"
  obtains infos where "ds = map device_of_info infos" "mUdnToWemoId a1 = cache_of infos"
    "initialized a1" "HAVE_OPENWEMO_ENGINE E"
proof -
  obtain ok a0 where e: "EnsureEngineInitialized E a = (ok, a0)" by fastforce
  obtain rc l a2 where l: "call_list_devices E (call_discover E a0) = (rc, l, a2)" by (rule prod_cases3)
  have eng: "HAVE_OPENWEMO_ENGINE E"
    using assms by (cases "HAVE_OPENWEMO_ENGINE E") (simp_all add: Discover_def)
  moreover have ok: ok using assms eng e by (auto simp: Discover_def split: if_splits)
  ultimately have "ds = map device_of_info (listed E l)" "a1 = a2\<lparr>mUdnToWemoId := cache_of (listed E l)\<rparr>"
    using assms e l by (auto simp: Discover_def Let_def discover_loop_eq split: if_splits)
  moreover have "initialized a2"
    using call_list_fields [OF l] ensure_keeps [OF e] ok by simp
  ultimately show ?thesis using that [of "listed E l"] eng by simp
qed

lemma cached_device:
  assumes "distinct (map wi_udn infos)" and "i \<in> set infos" and "wi_udn i \<noteq> ''''"
  shows "cache_of infos (wi_udn i) = Some (wi_wemo_id i)"
proof -
  have "cache_of infos (wi_udn i) \<noteq> None" using assms(2,3) by (simp add: cache_of_None_iff)
  then obtain k where k: "cache_of infos (wi_udn i) = Some k" by blast
  from cache_of_listed [OF k] obtain i' where "i' \<in> set infos" "wi_udn i' = wi_udn i" "wi_wemo_id i' = k"
    by blast
  moreover from this have "i' = i" using assms(1,2) by (auto simp: distinct_map dest: inj_onD)
  ultimately show ?thesis using k by simp
qed

lemma startup_adapter_fields:
  "mUdnToWemoId (Refresh E (RegisterStateCallback E cb a)) = mUdnToWemoId a"
  "initialized a \<Longrightarrow> initialized (Refresh E (RegisterStateCallback E cb a))"
proof -
  have reg: "mUdnToWemoId (RegisterStateCallback E cb a) = mUdnToWemoId a \<and>
      (initialized a \<longrightarrow> initialized (RegisterStateCallback E cb a))" for a :: "('a, 'b) adapter"
  proof -
    obtain ok a0 where e: "EnsureEngineInitialized E a = (ok, a0)" by (rule prod.exhaust)
    show ?thesis using ensure_keeps [OF e] by (simp add: RegisterStateCallback_def e)
  qed
  have ref: "mUdnToWemoId (Refresh E a) = mUdnToWemoId a \<and>
      (initialized a \<longrightarrow> initialized (Refresh E a))" for a :: "('a, 'b) adapter"
  proof -
    obtain ok a0 where e: "EnsureEngineInitialized E a = (ok, a0)" by (rule prod.exhaust)
    show ?thesis using ensure_keeps [OF e] by (simp add: Refresh_def e)
  qed
  show "mUdnToWemoId (Refresh E (RegisterStateCallback E cb a)) = mUdnToWemoId a"
    and "initialized a \<Longrightarrow> initialized (Refresh E (RegisterStateCallback E cb a))"
    using reg ref by simp_all
qed

text \<open>The adapter serves the lights: it is ready, and knows each light's engine id by its UDN.\<close>

definition serves :: "'g engine \<Rightarrow> ('g, 'c) adapter \<Rightarrow> bridged_light list \<Rightarrow> bool" where
  "serves E a lights \<longleftrightarrow> (\<forall>e\<in>set lights. HAVE_OPENWEMO_ENGINE E \<and> initialized a \<and>
     mUdnToWemoId a (bl_udn e) = Some (bl_wemo_id e))"

lemma startup_serves:
  assumes doc: "chip_documented K V" and boot: "fresh_boot K V b" and prot: "engine_protocol a"
    and d: "Discover E a = (ds, a1)" and udns: "distinct (map wd_udn ds)" "'''' \<notin> wd_udn ` set ds"
    and run: "ApplicationInit K E b a = Some (b', a')"
  shows "serves E a' (gBridgedWemoLights b')"
  unfolding serves_def
proof
  fix e assume e: "e \<in> set (gBridgedWemoLights b')"
  from startup_law [OF doc boot prot d] run e obtain dev where
    dev: "dev \<in> set ds" "shows_device K b' dev e" by auto
  have new: "e = new_light dev (bl_device e)" using dev(2) unfolding shows_device_def by blast
  have light: "bl_udn e = wd_udn dev" "bl_wemo_id e = wd_wemo_id dev"
    by (subst new, simp add: new_light_def)+
  have a': "a' = Refresh E (RegisterStateCallback E (Some CbOnWemoStateEvent) a1)"
    using run by (auto simp: ApplicationInit_cases [OF d])
  from dev(1) have "ds \<noteq> []" by auto
  with d obtain infos where i: "ds = map device_of_info infos" "mUdnToWemoId a1 = cache_of infos"
    "initialized a1" "HAVE_OPENWEMO_ENGINE E" by (rule Discover_caches)
  obtain info where info: "info \<in> set infos" "dev = device_of_info info" using dev(1) i(1) by auto
  have "distinct (map wi_udn infos)" using udns(1) i(1) by (simp add: comp_def)
  moreover have "wi_udn info \<noteq> ''''" using udns(2) i(1) info by force
  ultimately have "mUdnToWemoId a1 (bl_udn e) = Some (bl_wemo_id e)"
    using cached_device [OF _ info(1)] i(2) light info(2) by simp
  then show "HAVE_OPENWEMO_ENGINE E \<and> initialized a' \<and> mUdnToWemoId a' (bl_udn e) = Some (bl_wemo_id e)"
    using i(3,4) by (simp add: a' startup_adapter_fields)
qed

section \<open>The invariant of delivery\<close>

text \<open>The calls of commands that were sent to their lights.\<close>

definition delivered :: "(wemo_job \<times> bridged_light) list \<Rightarrow> engine_call list" where
  "delivered sent = map (\<lambda>(j, e). CSetAction (bl_wemo_id e) (job_command j)) sent"

definition delivery_inv ::
    "'g engine \<Rightarrow> bridged_light list \<Rightarrow> engine_call list \<Rightarrow> ('d, 'e, 'g, 'j) process \<Rightarrow> bool" where
  "delivery_inv E lights before s \<longleftrightarrow>
     serves E (adapter_state (core s)) lights \<and>
     (\<forall>(j, p)\<in>set (running s). before_miss p) \<and>
     (\<exists>sent. calls (adapter_state (core s)) = before @ delivered sent \<and>
        (\<forall>(j, e)\<in>set sent. e \<in> set lights \<and> bl_udn e = job_udn j) \<and>
        mset (map fst sent) = ended (running s))"

lemma same_setup_light:
  assumes "same_setup b0 b" and "e \<in> set (gBridgedWemoLights b)"
  obtains e0 where "e0 \<in> set (gBridgedWemoLights b0)" "bl_wemo_id e0 = bl_wemo_id e" "bl_udn e0 = bl_udn e"
proof -
  let ?f = "\<lambda>e. (bl_wemo_id e, bl_udn e, bl_is_dimmable e, bl_device e)"
  have "?f e \<in> set (map ?f (gBridgedWemoLights b))" using assms(2) by simp
  then have "?f e \<in> ?f ` set (gBridgedWemoLights b0)" using assms(1) unfolding same_setup_def by simp
  then show ?thesis using that by auto
qed

text \<open>A known command is for one of the lights the bridge started with.\<close>

lemma known_light:
  assumes ok: "bridge_ok K V b" and same: "same_setup b0 b" and j: "job_known b j"
  obtains e where "e \<in> set (gBridgedWemoLights b0)" "bl_udn e = job_udn j"
proof -
  have "job_udn j \<in> ran (gWemoDeviceToUdn b)" using j by (cases j) simp_all
  then obtain p where p: "gWemoDeviceToUdn b p = Some (job_udn j)" by (auto simp: ran_def)
  then obtain e where e: "e \<in> set (gBridgedWemoLights b)" "bl_device e = p"
    using bridge_okD(5) [OF ok] by (metis domI imageE)
  moreover have "bl_udn e = job_udn j" using bridge_okD(2) [OF ok e(1)] p e(2) by (simp add: light_ok_def)
  ultimately show ?thesis using that same_setup_light [OF same e(1)] by metis
qed

lemma serves_self [simp]: "serves E (a\<lparr>engine_state := e\<rparr>) lights = serves E a lights"
  by (simp add: serves_def)

lemma ended_append [simp]: "ended (ts @ [(j, Starting)]) = ended ts"
  by simp

text \<open>One more step of a thread: it passes the initialisation, or sends to its light and ends.\<close>

lemma delivery_phase:
  assumes inv: "delivery_inv E lights before s"
    and n: "n < length (running s)" "running s ! n = (j, p)" "\<not> is_finished p"
    and step: "thread_step E j p (adapter_state (core s)) = (p', a')"
    and e: "e \<in> set lights" "bl_udn e = job_udn j"
  shows "delivery_inv E lights before
    (s\<lparr>core := (core s)\<lparr>adapter_state := a'\<rparr>, running := (running s)[n := (j, p')]\<rparr>)"
proof -
  let ?a = "adapter_state (core s)" and ?ts = "(running s)[n := (j, p')]"
  have mem: "(j, p) \<in> set (running s)" using n(1,2) by (metis nth_mem)
  then have bm: "before_miss p" using inv by (auto simp: delivery_inv_def)
  have ready: "HAVE_OPENWEMO_ENGINE E" "initialized ?a" "mUdnToWemoId ?a (job_udn j) = Some (bl_wemo_id e)"
    using inv e by (auto simp: delivery_inv_def serves_def)
  obtain sent where sent: "calls ?a = before @ delivered sent"
    "\<forall>(j, e)\<in>set sent. e \<in> set lights \<and> bl_udn e = job_udn j" "mset (map fst sent) = ended (running s)"
    using inv unfolding delivery_inv_def by blast
  have others: "\<forall>(k, q)\<in>set ?ts. before_miss q" if "before_miss p'"
    using that inv set_update_subset_insert [of "running s" n "(j, p')"] by (fastforce simp: delivery_inv_def)
  show ?thesis
  proof (cases p)
    case Starting
    then have "p' = Looking" "a' = ?a" using step ready by (simp_all add: EnsureEngineInitialized_def)
    then show ?thesis
      using inv others sent ended_update(1) [OF n, of p'] by (auto simp: delivery_inv_def)
  next
    case Looking
    obtain r b where s: "SendState E (bl_wemo_id e) (job_state j) (job_level j) ?a = (r, b)" by fastforce
    then have p': "p' = Finished r" "a' = b" using step Looking ready by (simp_all add: send_cached_def)
    note f = SendState_fields [OF s, folded job_command_parts]
    have "calls a' = before @ delivered (sent @ [(j, e)])"
      using f p'(2) sent(1) by (simp add: delivered_def)
    moreover have "serves E a' lights" using inv f p'(2) by (simp add: delivery_inv_def serves_def)
    moreover have "mset (map fst (sent @ [(j, e)])) = ended ?ts"
      using ended_update(1) [OF n, of p'] sent(3) p'(1) by simp
    moreover have "\<forall>(j, e)\<in>set (sent @ [(j, e)]). e \<in> set lights \<and> bl_udn e = job_udn j"
      using sent(2) e by auto
    ultimately show ?thesis using others p'(1) unfolding delivery_inv_def by fastforce
  qed (use bm n(3) in simp_all)
qed

lemma delivery_step:
  assumes inv: "delivery_inv E lights before s" and pinv: "process_inv K V J ls s"
    and lights: "lights = gBridgedWemoLights b0" and same: "same_setup b0 (bridge_state (core s))"
    and step: "process_step K V E R J l s (Some s')"
  shows "delivery_inv E lights before s'"
  using step
proof cases
  case (core_step l' c)
  then show ?thesis using inv core_step_adapter [OF core_step(3,4)] by (simp add: delivery_inv_def)
next
  case (detach i)
  then show ?thesis using inv by (auto simp: delivery_inv_def)
next
  case (phase_step n j p p' a')
  have "(j, p) \<in> set (running s)" using phase_step(3,4) by (metis nth_mem)
  then have known: "job_known (bridge_state (core s)) j" and ok: "bridge_ok K V (bridge_state (core s))"
    using pinv by (auto simp: process_inv_def system_inv_def)
  from known_light [OF ok same known] obtain e where e: "e \<in> set lights" "bl_udn e = job_udn j"
    using lights by blast
  then show ?thesis using delivery_phase [OF inv phase_step(3-6) e] phase_step(2) by simp
next
  case (handler h hs)
  then show ?thesis
    using inv by (cases "HandleCommand K R J h (bridge_state (core s))") (auto simp: delivery_inv_def)
qed (use inv in \<open>simp_all add: delivery_inv_def\<close>)

lemma delivery_run:
  assumes doc: "chip_documented K V" and t: "test_documented (dev_api K) R" and pinv: "process_inv K V J [] s"
    and inv: "delivery_inv E lights before s" and lights: "lights = gBridgedWemoLights (bridge_state (core s))"
  shows "process_run K V E R J s ls r \<Longrightarrow> r = Some s' \<Longrightarrow> delivery_inv E lights before s'"
proof (induction arbitrary: s' rule: process_run.induct)
  case process_nil
  then show ?case using inv by simp
next
  case (process_more ls s1 l r)
  have k: "process_inv K V J ls s1 \<and> same_setup (bridge_state (core s)) (bridge_state (core s1))"
    using process_run_keeps [OF doc t pinv process_more.hyps(1)] by simp
  show ?case
    using delivery_step [OF process_more.IH [OF refl] k [THEN conjunct1] lights k [THEN conjunct2]]
      process_more.hyps(2) process_more.prems by blast
qed

text \<open>From the start of the process to any of its later states.\<close>

lemma started_delivery:
  assumes "chip_documented K V" and "test_documented (dev_api K) R"
    and "\<forall>i. V e i = None" and "uint (last_fixed_endpoint K e) < 65519"
    and "start_process K E R F e g p = Some s" and "process_run K V E R J s ls (Some s')"
    and "Discover E (gWemoAdapter g) = (ds, a1)" and "distinct (map wd_udn ds)" and "'''' \<notin> wd_udn ` set ds"
  shows "delivery_inv E (gBridgedWemoLights (bridge_state (core s))) (calls (adapter_state (core s))) s' \<and>
    process_inv K V J ls s' \<and> same_setup (bridge_state (core s)) (bridge_state (core s'))"
proof -
  have pinv: "process_inv K V J [] s" using start_process_inv [OF assms(1,3-5)] by blast
  obtain b a where init: "ApplicationInit K E (boot_bridge K R e) (gWemoAdapter g) = Some (b, a)"
    "bridge_state (core s) = b" "adapter_state (core s) = a" "running s = []"
    using assms(5) by (auto simp: start_process_def split: startup_result.splits dest!: application_init_started)
  have "engine_protocol (gWemoAdapter g)" by (simp add: gWemoAdapter_def new_adapter_protocol)
  from startup_serves [OF assms(1) boot_fresh [of V e K R, OF assms(3,4)] this assms(7-9) init(1)]
  have "delivery_inv E (gBridgedWemoLights (bridge_state (core s))) (calls (adapter_state (core s))) s"
    using init unfolding delivery_inv_def by (intro conjI exI [of _ "[]"]) (simp_all add: delivered_def)
  from delivery_run [OF assms(1,2) pinv this refl assms(6) refl]
  show ?thesis using process_run_keeps [OF assms(1,2) pinv assms(6)] by simp
qed

text \<open>A write whose thread is left to run: four steps later the engine has the command.\<close>

lemma cached_thread:
  assumes "HAVE_OPENWEMO_ENGINE E" and "initialized a" and "mUdnToWemoId a (job_udn j) = Some i"
  shows "thread_step E j Starting a = (Looking, a)"
    "\<exists>ok a'. thread_step E j Looking a = (Finished ok, a') \<and> calls a' = calls a @ [CSetAction i (job_command j)]"
proof -
  show "thread_step E j Starting a = (Looking, a)"
    using assms by (simp add: EnsureEngineInitialized_def)
  obtain r b where s: "SendState E i (job_state j) (job_level j) a = (r, b)" by fastforce
  show "\<exists>ok a'. thread_step E j Looking a = (Finished ok, a') \<and> calls a' = calls a @ [CSetAction i (job_command j)]"
    using SendState_fields [OF s, folded job_command_parts] s assms by (simp add: send_cached_def)
qed

lemma process_run_four:
  assumes "process_step K V E R J l1 s (Some s1)" and "process_step K V E R J l2 s1 (Some s2)"
    and "process_step K V E R J l3 s2 (Some s3)" and "process_step K V E R J l4 s3 (Some s4)"
  shows "process_run K V E R J s [l1, l2, l3, l4] (Some s4)"
  using process_more [OF process_more [OF process_more [OF process_more [OF process_nil assms(1)] assms(2)] assms(3)] assms(4)]
  by simp

lemma detached_last:
  "threads (bridge_state c) = ts @ [j] \<Longrightarrow>
   bridge_state (detached (length ts) c) = bridge_state c\<lparr>threads := ts\<rparr>"
  by simp

lemma switch_delivered:
  assumes doc: "chip_documented K V" and inv: "process_inv K V J ls s"
    and e: "e \<in> set (gBridgedWemoLights (bridge_state (core s)))"
    and h: "heap (bridge_state (core s)) (bl_device e) = Some d" and r: "view_reachable (dview K d)"
    and ready: "HAVE_OPENWEMO_ENGINE E" "initialized (adapter_state (core s))"
      "mUdnToWemoId (adapter_state (core s)) (bl_udn e) = Some i"
  shows "\<exists>s'. process_run K V E R J s
       [Core (Write (view_endpoint (dview K d)) (OnOff_Id (ids K)) (OnOff_OnOff_Id (ids K)) (x # bs)),
        Detach (length (threads (bridge_state (core s)))), Phase (length (running s)), Phase (length (running s))]
       (Some s') \<and>
     calls (adapter_state (core s')) = calls (adapter_state (core s)) @ [CSetAction i (onoff_command (x \<noteq> 0))] \<and>
     threads (bridge_state (core s')) = threads (bridge_state (core s))"
proof -
  let ?j = "JobOnOff (bl_udn e) (x \<noteq> 0)" and ?n = "length (running s)" and ?b = "bridge_state (core s)"
  let ?a = "adapter_state (core s)"
  have sys: "system_inv K V (core s)" using inv by (simp add: process_inv_def)
  obtain c1 where c1: "system_step K V E
      (Write (view_endpoint (dview K d)) (OnOff_Id (ids K)) (OnOff_OnOff_Id (ids K)) (x # bs)) (core s) c1"
    "threads (bridge_state c1) = threads ?b @ [?j]" "adapter_state c1 = ?a"
    by (rule on_off_step [OF doc sys e h r, of E x bs]) blast
  let ?s1 = "s\<lparr>core := c1\<rparr>"
  have one: "process_step K V E R J
      (Core (Write (view_endpoint (dview K d)) (OnOff_Id (ids K)) (OnOff_OnOff_Id (ids K)) (x # bs))) s (Some ?s1)"
    by (rule core_step [OF c1(1)]) simp
  let ?s2 = "?s1\<lparr>core := detached (length (threads ?b)) c1, running := running s @ [(?j, Starting)]\<rparr>"
  have two: "process_step K V E R J (Detach (length (threads ?b))) ?s1 (Some ?s2)"
    using detach [of "length (threads ?b)" ?s1 K V E R J] c1(2) by simp
  have cached: "mUdnToWemoId ?a (job_udn ?j) = Some i" using ready(3) by simp
  let ?s3 = "?s2\<lparr>core := (core ?s2)\<lparr>adapter_state := ?a\<rparr>, running := running s @ [(?j, Looking)]\<rparr>"
  have three: "process_step K V E R J (Phase ?n) ?s2 (Some ?s3)"
    using phase_step [of ?n ?s2 ?j Starting E Looking ?a K V R J] c1(3)
      cached_thread(1) [OF ready(1,2) cached] by simp
  obtain ok a' where st: "thread_step E ?j Looking ?a = (Finished ok, a')"
    "calls a' = calls ?a @ [CSetAction i (job_command ?j)]"
    using cached_thread(2) [OF ready(1,2) cached] by blast
  let ?s4 = "?s3\<lparr>core := (core ?s3)\<lparr>adapter_state := a'\<rparr>, running := running s @ [(?j, Finished ok)]\<rparr>"
  have four: "process_step K V E R J (Phase ?n) ?s3 (Some ?s4)"
    using phase_step [of ?n ?s3 ?j Looking E "Finished ok" a' K V R J] c1(3) st(1) by simp
  show ?thesis
    using process_run_four [OF one two three four] st(2) c1(2) by (intro exI [of _ ?s4]) simp
qed

section \<open>Properties\<close>

text \<open>
  C2. Every command reaches the light it was written for. When the devices discovered at
  startup have different, non-empty UDNs, then in every run of the process, whatever is
  interleaved, the engine is called after startup for nothing but commands: the returned
  threads, no more and no less, have each sent the state they were started with, once, to the
  engine id of the published light whose UDN they carry. No thread ever misses the cache.
\<close>

theorem commands_reach_their_lights:
  assumes "chip_documented K V" and "test_documented (dev_api K) R"
    and "\<forall>i. V e i = None" and "uint (last_fixed_endpoint K e) < 65519"
    and "start_process K E R F e g p = Some s" and "process_run K V E R J s ls (Some s')"
    and "Discover E (gWemoAdapter g) = (ds, a1)" and "distinct (map wd_udn ds)" and "'''' \<notin> wd_udn ` set ds"
  shows "\<exists>sent. calls (adapter_state (core s')) = calls (adapter_state (core s)) @
       map (\<lambda>(j, light). CSetAction (bl_wemo_id light) (job_command j)) sent \<and>
     (\<forall>(j, light)\<in>set sent. light \<in> set (gBridgedWemoLights (bridge_state (core s))) \<and>
        bl_udn light = job_udn j) \<and>
     mset (map fst sent) = ended (running s') \<and> (\<forall>(j, p)\<in>set (running s'). before_miss p)"
  using started_delivery [OF assms] by (simp add: delivery_inv_def delivered_def)

text \<open>A process started with one discovered lamp: it is published, reachable, as endpoint 3.\<close>

lemma started_lamp:
  obtains s :: "(mem_dev, mem_slots, unit, mem_json) process" and e d where
    "start_process mem_chip (list_engine [lamp_info]) mem_test_api mem_platform (replicate 16 None) () True = Some s"
    "gBridgedWemoLights (bridge_state (core s)) = [e]" "bl_wemo_id e = 7" "bl_udn e = ''uuid:lamp''"
    "heap (bridge_state (core s)) (bl_device e) = Some d" "view_reachable (dview mem_chip d)"
    "running s = []" "threads (bridge_state (core s)) = []"
proof -
  let ?E = "list_engine [lamp_info]" and ?e = "replicate 16 None :: mem_slots"
  let ?b = "boot_bridge mem_chip mem_test_api ?e"
  let ?app = "\<lparr>app_bridge = ?b, app_adapter = gWemoAdapter (), gRooms = [], gActions = [], app_platform = True\<rparr>"
  have boot: "\<forall>i. mem_slot ?e i = None" "uint (last_fixed_endpoint mem_chip ?e) < 65519"
    using lamp_boot_fresh by (simp_all add: fresh_boot_def lamp_boot_def empty_bridge_def)
  have fresh: "fresh_boot mem_chip mem_slot ?b" using boot_fresh [of mem_slot ?e mem_chip mem_test_api, OF boot] .
  have "engine_protocol (app_adapter ?app)" by (simp add: gWemoAdapter_def new_adapter_protocol)
  moreover have "fst (register_identify mem_platform p)" for p by (simp add: mem_platform_def)
  ultimately obtain s1 where s1: "application_init mem_chip ?E mem_platform ?app = Started s1"
    using application_init_outcome [OF mem_chip_documented, of ?app ?E mem_platform] fresh
    by (cases "application_init mem_chip ?E mem_platform ?app") auto
  then obtain s :: "(mem_dev, mem_slots, unit, mem_json) process" where
    s: "start_process mem_chip ?E mem_test_api mem_platform ?e () True = Some s"
      "bridge_state (core s) = app_bridge s1" "running s = []"
    by (simp add: start_process_def)
  obtain a1 where d: "Discover ?E (gWemoAdapter () :: (unit, state_callback) adapter) = ([device_of_info lamp_info], a1)"
    using list_engine_discover [of "[lamp_info]"] by (auto simp: gWemoAdapter_def)
  note z = lined_up_reset [OF mem_chip_documented fresh]
  note c = chip_parts [OF mem_chip_documented]
  have "publish_devices mem_chip (sort_devices [device_of_info lamp_info]) (reset_bridge mem_chip ?b) = Some (app_bridge s1)"
    using application_init_started [OF s1] by (auto simp: ApplicationInit_cases [OF d])
  from lined_up_devices [OF mem_chip_documented mem_storage_accepts z(3) reset_bridge_ok [OF c(3) fresh] z(1) this]
  have l: "lined_up mem_chip mem_slot (gFirstDynamicEndpointId (reset_bridge mem_chip ?b)) [device_of_info lamp_info]
      (app_bridge s1)"
    by (simp add: sort_devices_def)
  obtain e where e: "gBridgedWemoLights (app_bridge s1) = [e]"
    using lined_upD(1) [OF l] by (auto simp: length_Suc_conv)
  have sh: "shows_device mem_chip (app_bridge s1) (device_of_info lamp_info) e"
    using lined_upD(7) [OF l, of 0] e by simp
  then obtain dv where dv: "heap (app_bridge s1) (bl_device e) = Some dv"
    "state_of mem_chip dv = initial_state (device_of_info lamp_info)" by (auto simp: shows_device_def)
  have new: "e = new_light (device_of_info lamp_info) (bl_device e)" using sh unfolding shows_device_def by blast
  have "bl_wemo_id e = 7" "bl_udn e = ''uuid:lamp''"
    by (subst new, simp add: new_light_def lamp_info_def)+
  moreover have "view_reachable (dview mem_chip dv)"
    using dv(2) by (simp add: state_of_def initial_state_def lamp_info_def)
  moreover have "threads (bridge_state (core s)) = []"
  proof -
    have "process_commands s = 0" using start_process_inv [OF mem_chip_documented boot s(1)] by blast
    then show ?thesis by (simp add: process_commands_def command_count_def)
  qed
  ultimately show ?thesis using that s e dv(1) by simp
qed

lemma lamp_discovery:
  "Discover (list_engine [lamp_info]) (gWemoAdapter () :: (unit, state_callback) adapter) =
     ([device_of_info lamp_info], snd (Discover (list_engine [lamp_info]) (gWemoAdapter ())))"
  "distinct (map wd_udn [device_of_info lamp_info])" "'''' \<notin> wd_udn ` set [device_of_info lamp_info]"
proof -
  obtain a1 where "Discover (list_engine [lamp_info]) (gWemoAdapter () :: (unit, state_callback) adapter) =
      ([device_of_info lamp_info], a1)"
    using list_engine_discover [of "[lamp_info]"] by (auto simp: gWemoAdapter_def)
  then show "Discover (list_engine [lamp_info]) (gWemoAdapter () :: (unit, state_callback) adapter) =
     ([device_of_info lamp_info], snd (Discover (list_engine [lamp_info]) (gWemoAdapter ())))" by simp
qed (simp_all add: lamp_info_def)

lemma mem_boot: "\<forall>i. mem_slot (replicate 16 None) i = None"
  "uint (last_fixed_endpoint mem_chip (replicate 16 None)) < 65519"
  using lamp_boot_fresh by (simp_all add: fresh_boot_def lamp_boot_def empty_bridge_def)

text \<open>A started lamp, switched by a controller.\<close>

lemma switched_lamp:
  obtains s s' :: "(mem_dev, mem_slots, unit, mem_json) process" and ls where
    "start_process mem_chip (list_engine [lamp_info]) mem_test_api mem_platform (replicate 16 None) () True = Some s"
    "process_run mem_chip mem_slot (list_engine [lamp_info]) mem_test_api mem_json_api s ls (Some s')"
    "calls (adapter_state (core s')) = calls (adapter_state (core s)) @ [CSetAction 7 (onoff_command True)]"
proof -
  let ?E = "list_engine [lamp_info]"
  obtain s :: "(mem_dev, mem_slots, unit, mem_json) process" and e d where
    s: "start_process mem_chip ?E mem_test_api mem_platform (replicate 16 None) () True = Some s"
      "gBridgedWemoLights (bridge_state (core s)) = [e]" "bl_wemo_id e = 7"
      "heap (bridge_state (core s)) (bl_device e) = Some d" "view_reachable (dview mem_chip d)"
    by (rule started_lamp) blast
  have pinv: "process_inv mem_chip mem_slot mem_json_api [] s"
    using start_process_inv [OF mem_chip_documented mem_boot s(1)] by blast
  have "serves ?E (adapter_state (core s)) [e]"
    using started_delivery [OF mem_chip_documented mem_test_documented mem_boot s(1) process_nil lamp_discovery,
        of mem_json_api] s(2) by (simp add: delivery_inv_def)
  then have r: "HAVE_OPENWEMO_ENGINE ?E" "initialized (adapter_state (core s))"
    "mUdnToWemoId (adapter_state (core s)) (bl_udn e) = Some 7"
    using s(3) by (simp_all add: serves_def)
  have e: "e \<in> set (gBridgedWemoLights (bridge_state (core s)))" using s(2) by simp
  from switch_delivered [OF mem_chip_documented pinv e s(4,5) r, of mem_test_api 1 "[]"] that [OF s(1)]
  show ?thesis by auto
qed

theorem commands_reach_their_lights_witness:
  "\<exists>(s :: (mem_dev, mem_slots, unit, mem_json) process) (s' :: (mem_dev, mem_slots, unit, mem_json) process) light.
     light \<in> set (gBridgedWemoLights (bridge_state (core s))) \<and> bl_wemo_id light = 7 \<and>
     length (calls (adapter_state (core s'))) = Suc (length (calls (adapter_state (core s)))) \<and>
     size (ended (running s')) = 1"
proof -
  obtain s s' :: "(mem_dev, mem_slots, unit, mem_json) process" and ls where
    s: "start_process mem_chip (list_engine [lamp_info]) mem_test_api mem_platform (replicate 16 None) () True = Some s"
    "process_run mem_chip mem_slot (list_engine [lamp_info]) mem_test_api mem_json_api s ls (Some s')"
    "calls (adapter_state (core s')) = calls (adapter_state (core s)) @ [CSetAction 7 (onoff_command True)]"
    by (rule switched_lamp)
  from commands_reach_their_lights [OF mem_chip_documented mem_test_documented mem_boot s(1,2) lamp_discovery]
  obtain sent where sent: "calls (adapter_state (core s')) = calls (adapter_state (core s)) @
       map (\<lambda>(j, light). CSetAction (bl_wemo_id light) (job_command j)) sent"
    "\<forall>(j, light)\<in>set sent. light \<in> set (gBridgedWemoLights (bridge_state (core s)))"
    "mset (map fst sent) = ended (running s')" by blast
  from sent(1) s(3) obtain j light where "sent = [(j, light)]" "bl_wemo_id light = 7" by auto
  moreover from this(1) sent(3) have "ended (running s') = {#j#}" by simp
  ultimately show ?thesis
    using sent(2) s(3) by (intro exI [of _ s] exI [of _ s'] exI [of _ light]) simp
qed

text \<open>
  C3. A command gets through. In any state that the process can be in, after startup from
  devices with different, non-empty UDNs, a controller's write to the on/off attribute of a
  reachable light starts one thread, and when that thread is left to run its two steps, the
  engine has been called exactly once more: with the commanded state, for the engine id of
  that light. Pending commands, pipe texts and queued events do not stand in the way.
\<close>

theorem written_command_arrives:
  assumes "chip_documented K V" and "test_documented (dev_api K) R"
    and "\<forall>i. V e i = None" and "uint (last_fixed_endpoint K e) < 65519"
    and "start_process K E R F e g p = Some s" and "process_run K V E R J s ls (Some s')"
    and "Discover E (gWemoAdapter g) = (ds, a1)" and "distinct (map wd_udn ds)" and "'''' \<notin> wd_udn ` set ds"
    and "light \<in> set (gBridgedWemoLights (bridge_state (core s')))"
    and "heap (bridge_state (core s')) (bl_device light) = Some d" and "view_reachable (dview K d)"
  shows "\<exists>s''. process_run K V E R J s'
       [Core (Write (view_endpoint (dview K d)) (OnOff_Id (ids K)) (OnOff_OnOff_Id (ids K)) (x # bs)),
        Detach (length (threads (bridge_state (core s')))), Phase (length (running s')), Phase (length (running s'))]
       (Some s'') \<and>
     calls (adapter_state (core s'')) =
       calls (adapter_state (core s')) @ [CSetAction (bl_wemo_id light) (onoff_command (x \<noteq> 0))] \<and>
     threads (bridge_state (core s'')) = threads (bridge_state (core s'))"
proof -
  note k = started_delivery [OF assms(1-9)]
  obtain light0 where "light0 \<in> set (gBridgedWemoLights (bridge_state (core s)))"
    "bl_wemo_id light0 = bl_wemo_id light" "bl_udn light0 = bl_udn light"
    using same_setup_light [OF _ assms(10)] k by blast
  then have "HAVE_OPENWEMO_ENGINE E" "initialized (adapter_state (core s'))"
    "mUdnToWemoId (adapter_state (core s')) (bl_udn light) = Some (bl_wemo_id light)"
    using k by (auto simp: delivery_inv_def serves_def)
  with k show ?thesis by (intro switch_delivered [OF assms(1) _ assms(10-12)]) blast+
qed

theorem written_command_arrives_witness:
  "\<exists>(s :: (mem_dev, mem_slots, unit, mem_json) process) (s'' :: (mem_dev, mem_slots, unit, mem_json) process).
     start_process mem_chip (list_engine [lamp_info]) mem_test_api mem_platform (replicate 16 None) () True = Some s \<and>
     calls (adapter_state (core s'')) = calls (adapter_state (core s)) @ [CSetAction 7 (onoff_command False)]"
proof -
  obtain s :: "(mem_dev, mem_slots, unit, mem_json) process" and e d where
    s: "start_process mem_chip (list_engine [lamp_info]) mem_test_api mem_platform (replicate 16 None) () True = Some s"
      "gBridgedWemoLights (bridge_state (core s)) = [e]" "bl_wemo_id e = 7"
      "heap (bridge_state (core s)) (bl_device e) = Some d" "view_reachable (dview mem_chip d)"
    by (rule started_lamp) blast
  have e: "e \<in> set (gBridgedWemoLights (bridge_state (core s)))" using s(2) by simp
  obtain s'' where "process_run mem_chip mem_slot (list_engine [lamp_info]) mem_test_api mem_json_api s
       [Core (Write (view_endpoint (dview mem_chip d)) (OnOff_Id (ids mem_chip)) (OnOff_OnOff_Id (ids mem_chip)) [0]),
        Detach (length (threads (bridge_state (core s)))), Phase (length (running s)), Phase (length (running s))]
       (Some s'')"
    "calls (adapter_state (core s'')) = calls (adapter_state (core s)) @ [CSetAction (bl_wemo_id e) (onoff_command (0 \<noteq> (0 :: u8)))]"
    using written_command_arrives [OF mem_chip_documented mem_test_documented mem_boot s(1) process_nil lamp_discovery
        e s(4,5), of mem_json_api 0 "[]"] by blast
  then show ?thesis using s(1,3) by (intro exI [of _ s] exI [of _ s'']) simp
qed

end
