(* ===== verification/Quiescence.thy ===== *)
theory Quiescence
  imports Delivery
begin

text \<open>
  The process comes to rest: what it does by itself, with its work queue, its command threads
  at the granularity of their locks and the pending pipe commands, is bounded, and can always
  be run to a state in which nothing is left to do.
\<close>

section \<open>What is left to do\<close>

fun own_step :: "'g process_label \<Rightarrow> bool" where
  "own_step (Core l) = (l = RunWork)"
| "own_step (Detach i) = True"
| "own_step (Phase n) = True"
| "own_step RunHandler = True"
| "own_step l = False"

text \<open>A thread not yet running counts six steps: its beginning and five phases.\<close>

definition process_pending :: "('d, 'e, 'g, 'j) process \<Rightarrow> nat" where
  "process_pending s =
     pending (core s) + 5 * length (threads (bridge_state (core s))) + pool_rank (running s) + length (waiting s)"

definition at_rest :: "('d, 'e, 'g, 'j) process \<Rightarrow> bool" where
  "at_rest s \<longleftrightarrow> work (bridge_state (core s)) = [] \<and> threads (bridge_state (core s)) = [] \<and>
     list_all (\<lambda>t. is_finished (snd t)) (running s) \<and> waiting s = []"

lemma rank_zero: "pool_rank ts = 0 \<Longrightarrow> list_all (\<lambda>t. is_finished (snd t)) ts"
proof (induction ts)
  case (Cons t ts)
  then have "phase_rank (snd t) = 0" "pool_rank ts = 0" by (simp_all add: pool_rank_def)
  moreover from this(1) have "is_finished (snd t)" by (cases "snd t") simp_all
  ultimately show ?case using Cons.IH by simp
qed simp

lemma all_finished_rank: "list_all (\<lambda>t. is_finished (snd t)) ts \<Longrightarrow> pool_rank ts = 0"
proof (induction ts)
  case (Cons t ts)
  then have "phase_rank (snd t) = 0" by (cases "snd t") simp_all
  then show ?case using Cons by (simp add: pool_rank_def)
qed (simp add: pool_rank_def)

lemma nothing_pending: "process_pending s = 0 \<Longrightarrow> at_rest s"
  by (cases "work (bridge_state (core s))")
    (auto simp: process_pending_def at_rest_def pending_def rank_zero)

lemma run_work_threads:
  assumes doc: "chip_documented K V" and inv: "system_inv K V s" and step: "system_step K V E RunWork s s'"
  shows "threads (bridge_state s') = threads (bridge_state s)"
  using step
proof cases
  case (matter_work item rest b' rs)
  have ok: "bridge_ok K V (bridge_state s\<lparr>work := rest\<rparr>)" using inv by (simp add: system_inv_def)
  obtain b1 rs1 where "run_work K (clock s) item (bridge_state s\<lparr>work := rest\<rparr>) = Inr (b1, rs1)"
    "threads b1 = threads (bridge_state s\<lparr>work := rest\<rparr>)"
    using run_work_keeps [OF doc ok] by metis
  then show ?thesis using matter_work by simp
qed

lemma own_step_decreases:
  assumes doc: "chip_documented K V" and inv: "process_inv K V J ls s"
    and step: "process_step K V E R J l s (Some s')" and l: "own_step l"
  shows "process_pending s' < process_pending s"
  using step
proof cases
  case (core_step l' c)
  then have w: "l' = RunWork" and st: "system_step K V E RunWork (core s) c" using l by simp_all
  have sys: "system_inv K V (core s)" using inv by (simp add: process_inv_def)
  from internal_step [OF doc sys st] run_work_threads [OF doc sys st] core_step(2)
  show ?thesis by (simp add: process_pending_def)
next
  case (detach i)
  then show ?thesis by (simp add: process_pending_def pending_def pool_rank_def)
next
  case (phase_step n j p p' a')
  from pool_rank_update [OF phase_step(3,4) thread_step_rank [OF phase_step(6,5)]] phase_step(2)
  show ?thesis by (simp add: process_pending_def pending_def)
next
  case (handler h hs)
  obtain d where d: "heap (bridge_state (core s)) Light1 = Some d" using inv by (auto simp: process_inv_def)
  obtain json where "FromJSON J json = Some h" using inv handler(3) by (auto simp: process_inv_def)
  from HandleCommand_cases [OF FromJSON_not_empty [OF this] d, of K R] handler
  show ?thesis by (auto simp: process_pending_def pending_def split: if_splits)
qed (use l in simp_all)

text \<open>Something pending means a step to take, and only a pipe command can make it the last.\<close>

lemma own_step_exists:
  assumes doc: "chip_documented K V" and inv: "process_inv K V J ls s" and p: "0 < process_pending s"
  shows "\<exists>l r. own_step l \<and> process_step K V E R J l s r"
proof -
  have sys: "system_inv K V (core s)" using inv by (simp add: process_inv_def)
  then have ok: "bridge_ok K V (bridge_state (core s)\<lparr>work := rest\<rparr>)" for rest by (simp add: system_inv_def)
  consider (item) item rest where "work (bridge_state (core s)) = item # rest"
    | (thread) "0 < length (threads (bridge_state (core s)))" | (phase) "pool_rank (running s) \<noteq> 0"
    | (pipe) h hs where "waiting s = h # hs"
    using p by (cases "work (bridge_state (core s))"; cases "waiting s") (auto simp: process_pending_def pending_def)
  then show ?thesis
  proof cases
    case item
    obtain b' rs where "run_work K (clock (core s)) item (bridge_state (core s)\<lparr>work := rest\<rparr>) = Inr (b', rs)"
      using run_work_keeps [OF doc ok] by metis
    from core_step [OF matter_work [OF item this]] show ?thesis by (metis own_step.simps(1) whole_thread.simps(5))
  next
    case thread
    from detach [OF this] show ?thesis by (metis own_step.simps(2))
  next
    case phase
    then obtain n where n: "n < length (running s)" "\<not> is_finished (snd (running s ! n))"
      by (metis all_finished_rank list_all_length)
    obtain j q where jq: "running s ! n = (j, q)" by (rule prod.exhaust)
    obtain q' a' where st: "thread_step E j q (adapter_state (core s)) = (q', a')" by (rule prod.exhaust)
    have "\<not> is_finished q" using n(2) jq by simp
    from phase_step [OF n(1) jq this st] show ?thesis by (metis own_step.simps(3))
  next
    case pipe
    from handler [of s h hs K V E R J, OF pipe] show ?thesis by (metis own_step.simps(4))
  qed
qed

lemma own_run_bound:
  assumes doc: "chip_documented K V" and t: "test_documented (dev_api K) R" and inv: "process_inv K V J ls s"
  shows "process_run K V E R J s ls' r \<Longrightarrow> list_all own_step ls' \<Longrightarrow>
    length ls' + (case r of None \<Rightarrow> 0 | Some s' \<Rightarrow> process_pending s') \<le> process_pending s \<and>
    (case r of None \<Rightarrow> True | Some s' \<Rightarrow> process_inv K V J (ls @ ls') s')"
proof (induction rule: process_run.induct)
  case process_nil
  then show ?case using inv by simp
next
  case (process_more ls' s1 l r)
  have l: "own_step l" "list_all own_step ls'" using process_more.prems by simp_all
  have inv1: "process_inv K V J (ls @ ls') s1" and b: "length ls' + process_pending s1 \<le> process_pending s"
    using process_more.IH l by simp_all
  note keep = process_step_keeps [OF doc t inv1 process_more.hyps(2)]
  show ?case
  proof (cases r)
    case None
    have "0 < process_pending s1"
      using process_more.hyps(2) unfolding None
      by cases (auto simp: process_pending_def)
    then show ?thesis using b None by simp
  next
    case (Some s2)
    have "process_pending s2 < process_pending s1"
      using own_step_decreases [OF doc inv1 _ l(1)] process_more.hyps(2) Some by blast
    then show ?thesis using b Some keep by simp
  qed
qed

lemma process_run_Cons:
  "process_run K V E R J s1 ls r \<Longrightarrow> process_step K V E R J l s (Some s1) \<Longrightarrow> process_run K V E R J s (l # ls) r"
proof (induction rule: process_run.induct)
  case process_nil
  from process_more [OF process_run.process_nil process_nil] show ?case by simp
next
  case (process_more ls s2 l' r)
  from process_run.process_more [OF process_more.IH [OF process_more.prems] process_more.hyps(2)]
  show ?case by simp
qed

lemma own_step_waiting:
  assumes "process_step K V E R J l s (Some s')" and "own_step l"
  shows "set (waiting s') \<subseteq> set (waiting s)"
  using assms(1)
proof cases
  case (handler h hs)
  then show ?thesis by (cases "HandleCommand K R J h (bridge_state (core s))") auto
qed (use assms(2) in simp_all)

lemma comes_to_rest:
  assumes doc: "chip_documented K V" and t: "test_documented (dev_api K) R"
  shows "process_inv K V J ls s \<Longrightarrow> \<exists>ls' r. process_run K V E R J s ls' r \<and> list_all own_step ls' \<and>
    (case r of None \<Rightarrow> \<exists>h\<in>set (waiting s). \<not> supported J h | Some s' \<Rightarrow> at_rest s')"
proof (induction "process_pending s" arbitrary: s ls rule: less_induct)
  case less
  show ?case
  proof (cases "process_pending s = 0")
    case True
    then show ?thesis
      using nothing_pending [OF True] process_nil [of K V E R J s]
      by (intro exI [of _ "[]"] exI [of _ "Some s"]) simp
  next
    case False
    then obtain l r where l: "own_step l" "process_step K V E R J l s r"
      using own_step_exists [OF doc less.prems] by blast
    show ?thesis
    proof (cases r)
      case None
      from l(2) [unfolded None] obtain h hs where w: "waiting s = h # hs" "HandleCommand K R J h (bridge_state (core s)) = None"
        by cases auto
      have "\<not> supported J h" using process_handler [OF t less.prems w(1)] w(2) by auto
      then show ?thesis
        using process_more [OF process_nil l(2)] None l(1) w(1)
        by (intro exI [of _ "[l]"] exI [of _ None]) simp
    next
      case (Some s1)
      note st = l(2) [unfolded Some]
      have "process_inv K V J (ls @ [l]) s1" using process_step_keeps [OF doc t less.prems st] by simp
      from less.hyps [OF own_step_decreases [OF doc less.prems st l(1)] this]
      obtain ls' r' where rest: "process_run K V E R J s1 ls' r'" "list_all own_step ls'"
        "case r' of None \<Rightarrow> \<exists>h\<in>set (waiting s1). \<not> supported J h | Some s' \<Rightarrow> at_rest s'" by blast
      then have "case r' of None \<Rightarrow> \<exists>h\<in>set (waiting s). \<not> supported J h | Some s' \<Rightarrow> at_rest s'"
        using own_step_waiting [OF st l(1)] by (auto split: option.splits)
      then show ?thesis
        using process_run_Cons [OF rest(1) st] rest(2) l(1)
        by (intro exI [of _ "l # ls'"] exI [of _ r']) simp
    qed
  qed
qed

section \<open>Property\<close>

text \<open>
  C10. The process comes to rest. From every state that it reaches after startup, the steps it
  takes by itself, in any order (queued work, command threads with all their phases, pipe
  commands), are bounded by what is pending; and some such steps lead to a state with an empty
  work queue, no command on its way and no pipe command waiting, unless a pipe command that is
  not supported was waiting, which ends the process. Nothing generates work for ever, and no
  interleaving of the threads blocks.
\<close>

theorem process_comes_to_rest:
  assumes "chip_documented K V" and "test_documented (dev_api K) R"
    and "\<forall>i. V e i = None" and "uint (last_fixed_endpoint K e) < 65519"
    and "start_process K E R F e g p = Some s" and "process_run K V E R J s ls (Some s')"
  shows "(\<forall>ls' r. process_run K V E R J s' ls' r \<longrightarrow> list_all own_step ls' \<longrightarrow> length ls' \<le> process_pending s') \<and>
    (\<exists>ls' r. process_run K V E R J s' ls' r \<and> list_all own_step ls' \<and>
       (case r of None \<Rightarrow> \<exists>h\<in>set (waiting s'). \<not> supported J h | Some s'' \<Rightarrow> at_rest s''))"
proof -
  have "process_inv K V J [] s" using start_process_inv [OF assms(1,3-5)] by blast
  then have inv: "process_inv K V J ls s'" using process_run_keeps [OF assms(1,2) _ assms(6)] by simp
  have "length ls' \<le> process_pending s'"
    if "process_run K V E R J s' ls' r" "list_all own_step ls'" for ls' r
    using own_run_bound [OF assms(1,2) inv that] by simp
  then show ?thesis using comes_to_rest [OF assms(1,2) inv] by blast
qed

text \<open>The lamp, and a pipe command that nothing handles: the run that comes to rest ends.\<close>

theorem process_comes_to_rest_witness:
  "\<exists>(s :: (mem_dev, mem_slots, unit, mem_json) process) ls' r.
     start_process mem_chip (list_engine [lamp_info]) mem_test_api mem_platform (replicate 16 None) () True = Some s \<and>
     process_run mem_chip mem_slot (list_engine [lamp_info]) mem_test_api mem_json_api
       (s\<lparr>waiting := [MObject ''Reboot'']\<rparr>) ls' r \<and>
     list_all own_step ls' \<and>
     (case r of None \<Rightarrow> \<not> supported mem_json_api (MObject ''Reboot'') | Some s'' \<Rightarrow> at_rest s'')"
proof -
  obtain s :: "(mem_dev, mem_slots, unit, mem_json) process" and e d where
    s: "start_process mem_chip (list_engine [lamp_info]) mem_test_api mem_platform (replicate 16 None) () True = Some s"
      "gBridgedWemoLights (bridge_state (core s)) = [e]"
    by (rule started_lamp) blast
  have "waiting s = []" using s(1) by (auto simp: start_process_def split: startup_result.splits)
  then have "OnEventCommandReceived mem_chip mem_json_api ''{Reboot'' (waiting s) = [MObject ''Reboot'']"
    using mem_queue_open by (simp add: OnEventCommandReceived_def FromJSON_def mem_json_api_def queue_open_def)
  with process_more [OF process_nil pipe_text, of mem_chip mem_slot "list_engine [lamp_info]" mem_test_api mem_json_api s "''{Reboot''"]
  have one: "process_run mem_chip mem_slot (list_engine [lamp_info]) mem_test_api mem_json_api s
      [PipeText ''{Reboot''] (Some (s\<lparr>waiting := [MObject ''Reboot'']\<rparr>))" by simp
  from process_comes_to_rest [OF mem_chip_documented mem_test_documented mem_boot s(1) one, THEN conjunct2]
  obtain ls' r where r: "process_run mem_chip mem_slot (list_engine [lamp_info]) mem_test_api mem_json_api
      (s\<lparr>waiting := [MObject ''Reboot'']\<rparr>) ls' r" "list_all own_step ls'"
    "case r of None \<Rightarrow> \<exists>h\<in>set (waiting (s\<lparr>waiting := [MObject ''Reboot'']\<rparr>)). \<not> supported mem_json_api h
      | Some s'' \<Rightarrow> at_rest s''" by blast
  from r(3) have "case r of None \<Rightarrow> \<not> supported mem_json_api (MObject ''Reboot'') | Some s'' \<Rightarrow> at_rest s''"
    by (cases r) simp_all
  with s(1) r(1,2) show ?thesis by (intro exI [of _ s] exI [of _ ls'] exI [of _ r]) simp
qed

end
