(* ===== verification/Spec2Isabelle.thy ===== *)
theory Spec2Isabelle
  imports Cli Endpoint_Contract Bridge_Runs Reports Level_Drift Declarations Power_Source Test_Console Quiescence
begin

text \<open>
  wemo-matter-bridge: a verification library.

  \<^bold>\<open>The program.\<close> The repository bridges WeMo switches and dimmers into Matter. Its parts:

    \<^item> the WeMo adapter (\<^verbatim>\<open>src/adapters/wemo/wemo_adapter_openwemo.cpp\<close>,
      \<^verbatim>\<open>include/wemo_bridge/*.h\<close>) discovers devices through the WeMo engine library, maps a UDN
      to the engine's device id, sends on/off and level commands and hands the engine's state
      events on;
    \<^item> the bridge application (\<^verbatim>\<open>matter-bridge-app/main.cpp\<close>, \<^verbatim>\<open>DeviceDimmable.cpp\<close>) publishes
      each discovered device as a dynamic Matter endpoint, answers attribute reads, turns
      attribute writes into engine commands on detached threads, and brings state events back
      through the work queue of the Matter thread, suppressing echoes of its own commands for a
      settle window;
    \<^item> the endpoint registry (\<^verbatim>\<open>src/matter/endpoint_registry.cpp\<close>) keeps a persistent map from
      UDNs to endpoint ids in SQLite;
    \<^item> the smoke-test command line (\<^verbatim>\<open>src/main.cpp\<close>) lists and commands devices through the
      adapter, numbering them with the registry.

  \<^bold>\<open>Conventions.\<close> A definition has the name of the function, constant or type it models. The
  state of a component is a record passed through its operations; a Matter id or level is a
  word of its width, a C int that is only compared and converted is an \<^typ>\<open>int\<close>, and each
  narrowing cast is written out. Device pointers are keys of the heap of the bridge state, the
  null pointer is \<^term>\<open>None\<close>. What the repository does not contain is a parameter: a record of
  functions (\<open>sqlite\<close>, \<open>engine\<close>, \<open>chip\<close> with \<open>chip_ids\<close>, \<open>device_api\<close> and \<open>ember_api\<close>,
  \<open>test_api\<close>, \<open>power_api\<close>, \<open>json_api\<close>, \<open>platform\<close>). What the code relies on is stated by the
  predicates \<open>sqlite_documented\<close>, \<open>chip_documented\<close> and \<open>test_documented\<close>; theorems about a case
  in which calls succeed or fail name it by \<open>sqlite_faultless\<close>, its parts such as
  \<open>binds_succeed\<close> and \<open>commits_succeed\<close>, or \<open>storage_accepts\<close>. Each predicate is satisfied by a concrete instance that the witnesses run:
  \<open>mem_sqlite\<close>, \<open>list_engine\<close>, \<open>mem_chip\<close>, \<open>mem_test_api\<close>, \<open>mem_json_api\<close>, \<open>mem_platform\<close>. The
  engine is unconstrained: whatever it answers is covered.

  \<^bold>\<open>Theories.\<close>

    \<^item> \<open>Prelude\<close>: word and string vocabulary, casts, byte buffers, \<open>update_first\<close>.
    \<^item> \<open>Text_Conv\<close>: \<open>strtol\<close>, \<open>atoi\<close>, \<open>stoi\<close> and decimal printing of the standard library.
    \<^item> \<open>Levels\<close>, \<open>Level_Drift\<close>: the two truncating level conversions; their ranges, order and
      round trips, and the drift they cause in the bridge.
    \<^item> \<open>Adapter\<close>: \<open>Discover\<close>, \<open>SetOnOff\<close>, \<open>SetLevelPercent\<close>, \<open>Refresh\<close>, \<open>RegisterStateCallback\<close>,
      the event hand-over and the lazy initialisation of the engine; every engine call is
      recorded in a trace. \<open>Adapter_Contract\<close>: the abstract class \<open>WemoAdapter\<close> as the locale
      \<open>wemo_adapter\<close>, interpreted on the engine adapter and on the stub; command addressing, the
      protocol of the engine, and what the command threads of the bridge send.
    \<^item> \<open>Registry\<close>: \<open>Lookup\<close> and \<open>GetOrAssign\<close> with each SQLite call and failure branch,
      binds that store NULL and transactions that SQLite ends by itself included, and the
      abstract assignment they implement. \<open>Registry_Contract\<close>: the locales \<open>endpoint_registry\<close>
      and \<open>reliable_registry\<close> with their interpretations; refinement, safety under faults, round
      trip, the wrap of the counter, the unchecked commits and binds and the lost transaction.
    \<^item> \<open>Cli\<close>: argument parsing and the commands of the command line over adapter and registry.
    \<^item> \<open>Chip\<close>, \<open>Chip_Instance\<close>: the parameters standing for the Matter SDK, their documented
      behaviour, and the concrete instance.
    \<^item> \<open>Device\<close>: \<open>DeviceOnOff\<close> and \<open>DeviceDimmable\<close> objects, their change callbacks and the
      status handlers that schedule attribute reports. \<open>Reports\<close>: one report per change.
    \<^item> \<open>Endpoints\<close>: the global state \<open>bridge\<close>, \<open>AddDeviceEndpoint\<close> and \<open>RemoveDeviceEndpoint\<close>, and
      the invariant \<open>table_ok\<close> that ties table, endpoint storage and objects together.
      \<open>Endpoint_Contract\<close>: the locale \<open>endpoint_table\<close>, interpreted on the two operations;
      removing a device undoes adding it.
    \<^item> \<open>Attributes\<close>: all read and write handlers and both external attribute callbacks, with null,
      dangling and wrongly cast devices as faults. \<open>Bridge_Invariant\<close>: the invariant \<open>bridge_ok\<close>
      of the running bridge. \<open>Control\<close>: effects of reads and writes. \<open>Declarations\<close>: the declared
      clusters and attributes, which the callbacks serve.
    \<^item> \<open>Events\<close>: the registered state callback and \<open>HandleWemoEventOnMatterThread\<close>, refined to
      \<open>event_spec\<close>.
    \<^item> \<open>Startup\<close>, \<open>Boot\<close>: \<open>ApplicationInit\<close> up to the refresh of the adapter: ordering,
      publication, invariant, independence of the order of discovery. \<open>Application\<close>: the rest of
      \<open>ApplicationInit\<close>, \<open>main\<close>, and the JSON commands of the named pipe.
    \<^item> \<open>Bridge_System\<close>: the running program as a labelled step relation over clock ticks,
      attribute writes, engine events, queued work and command threads in any interleaving.
      \<open>Settle_Window\<close>: the locale \<open>command_window\<close>, what keeps a commanded value in place
      until its window closes, interpreted on the on/off and on the level window.
      \<open>Bridge_Runs\<close>: properties of runs.
    \<^item> \<open>Command_Threads\<close>: \<open>SetOnOff\<close> and \<open>SetLevelPercent\<close> on detached threads, at the
      granularity of \<open>init_lock\<close> and \<open>mCacheMutex\<close>: the steps of one thread, and a pool of threads
      and engine moves in any order. \<open>Process\<close>: the whole process, from the objects constructed
      before \<open>main\<close> through \<open>ApplicationInit\<close> to the steps of the system, the command threads,
      the engine and the named pipe, with the end by \<open>VerifyOrDie\<close> as the value \<^term>\<open>None\<close>.
      \<open>Delivery\<close>: which engine call a written command becomes. \<open>Quiescence\<close>: what the process
      does by itself comes to an end.
    \<^item> \<open>Power_Source\<close>, \<open>Test_Console\<close>: the composed device's attribute interface, and the static
      test devices with the console thread and the room action; each iteration of the thread
      is given by the bytes waiting and the character read. The application compiles these
      in, but publishes none of the devices and never starts the thread.

  \<^bold>\<open>What the theorems show.\<close> From startup on no attribute callback and no queued event can
  fault, whatever is interleaved (\<open>system_never_faults\<close>), and the process dies of nothing but
  an unsupported pipe command (\<open>process_dies_only_by_pipe\<close>). The system, in which a command
  thread runs as a whole, is a sound abstraction of the process, in which threads are
  interleaved at their locks: two lemmas compare the models, \<open>process_refines_system\<close> the two
  step relations on the bridge and \<open>thread_run_call\<close> the two translations of \<open>SetOnOff\<close> and
  \<open>SetLevelPercent\<close>, as whole calls and cut at their locks.
  Every command that returns has reached the engine once, with the id of the light it was
  written for (\<open>commands_reach_their_lights\<close>), and a written command does get through
  (\<open>written_command_arrives\<close>), both if the devices discovered at startup have different,
  non-empty UDNs; commands for uncached UDNs send at most once and never to a wrong
  id (\<open>command_threads_safe\<close>), and cached ones are linearizable
  (\<open>cached_commands_linearizable\<close>). All pending work comes to an end
  (\<open>process_comes_to_rest\<close>, \<open>command_threads_end\<close>). A commanded on/off state or level is held
  for its settle window (\<open>commanded_state_held\<close>, \<open>commanded_level_held\<close>); startup always ends
  in the invariant (\<open>startup_establishes_invariant\<close>, \<open>application_starts\<close>) and publishes the
  first sixteen devices of the sorted list under consecutive ids; declared attributes are
  served with values of their declared types (\<open>declared_attributes_served\<close>); an event does
  exactly what \<open>event_spec\<close> says; writes have exactly their effect; the registry implements
  the abstract assignment, and under any failure of SQLite never changes a stored assignment
  nor gives an id in use. Where the code
  falls short of its purpose a theorem states what happens instead: commands that overtake
  each other, levels that drift, the wrap of the registry's counter, its ignored commits and
  binds, the transaction whose loss it does not notice, the power source that is never served, and the
  pipe command that ends the process.

  \<^bold>\<open>Atomicity.\<close> The steps of the process are the sections that the code runs under one lock:
  the handlers, the queued work and the endpoint functions under the stack lock of the Matter
  thread, the initialisation of the engine under \<open>init_lock\<close>, a cache access with the command
  that follows it under \<open>mCacheMutex\<close>, and single engine calls outside any lock. \<open>Discover\<close> and
  \<open>Refresh\<close> run before any thread exists.

  \<^bold>\<open>Bounds and termination.\<close> There are 16 endpoint slots and a device table of 17 entries; the
  17th is the power source's. The first dynamic endpoint id is at most 65519, so that 17 ids
  are left for 16 slots; this makes the search of \<open>AddDeviceEndpoint\<close> end. The search is a
  \<open>partial_function\<close> in the option monad, so that not returning is the value \<^term>\<open>None\<close>;
  \<open>add_endpoint_loop_returns\<close> shows that it returns, by the distance to a free id counted
  cyclically. All other loops are structural. Times are integers in milliseconds, the settle
  window is 2000. No fuel is used.

  \<^bold>\<open>Not modelled.\<close> The branches under \<open>CHIP_CONFIG_USE_ENDPOINT_UNIQUE_ID\<close>, which the
  configuration of the application switches off. Interleavings inside one critical section or
  one engine call, and weak memory effects. A \<open>std::thread\<close> that cannot be created: the
  constructor throws \<open>std::system_error\<close> then, which nothing catches, so that the process
  ends. Other processes that use the registry's database file. Log messages.
  The data versions
  kept by the stack, apart from the place of their storage. The Identify cluster object, which
  is the SDK's own. Build files, scripts and documents. Time passes
  only between steps; inside a handler the source reads the clock at most twice, and both
  values are arguments.
\<close>

end
